(* ===== verification/Prelude.thy ===== *)
theory Prelude
  imports Complex_Main "HOL-Library.Word"
begin

text \<open>
  Shared vocabulary of the development: the result type that stands for a TypeScript
  function that may throw, the model of JavaScript numbers and of their guards, byte
  arrays with the two byte orders of \<open>DataView\<close>, canonical decimal strings, and the
  generic lemmas on lists that the component theories share.
\<close>

unbundle bit_operations_syntax

named_theorems res_simps "unfolding of the result combinators"
named_theorems num_simps "evaluation of the guards on JavaScript numbers"
named_theorems byte_simps "lengths and round trips of the byte encodings"


section \<open>Results: a thrown error or a value\<close>

text \<open>
  A function that may throw returns \<open>Inl\<close> of the error's message or \<open>Inr\<close> of its value.
  \<open>sbind\<close> sequences two such computations: the first throw ends the sequence.
  \<open>smap\<close> is \<open>Array.prototype.map\<close> with a callback that may throw.
\<close>

type_synonym 'a result = "string + 'a"

definition sbind :: "'e + 'a \<Rightarrow> ('a \<Rightarrow> 'e + 'b) \<Rightarrow> 'e + 'b" where
  "sbind r f = (case r of Inl e \<Rightarrow> Inl e | Inr x \<Rightarrow> f x)"

primrec smap :: "('a \<Rightarrow> 'e + 'b) \<Rightarrow> 'a list \<Rightarrow> 'e + 'b list" where
  "smap f [] = Inr []"
| "smap f (x # xs) = sbind (f x) (\<lambda>y. sbind (smap f xs) (\<lambda>ys. Inr (y # ys)))"

definition is_ok :: "'e + 'a \<Rightarrow> bool" where
  "is_ok r = (case r of Inl _ \<Rightarrow> False | Inr _ \<Rightarrow> True)"

lemma sbind_simps [simp, res_simps]:
  "sbind (Inl e) f = Inl e"
  "sbind (Inr x) f = f x"
  by (simp_all add: sbind_def)

lemma is_ok_simps [simp, res_simps]:
  "\<not> is_ok (Inl e)"
  "is_ok (Inr x)"
  by (simp_all add: is_ok_def)

lemma sbind_eq_Inr [res_simps]: "sbind r f = Inr y \<longleftrightarrow> (\<exists>x. r = Inr x \<and> f x = Inr y)"
  by (cases r) auto

lemma sbind_eq_Inl [res_simps]:
  "sbind r f = Inl e \<longleftrightarrow> r = Inl e \<or> (\<exists>x. r = Inr x \<and> f x = Inl e)"
  by (cases r) auto

lemma sbind_guard [simp, res_simps]:
  "sbind (if c then Inr x else Inl e) f = (if c then f x else Inl e)"
  "sbind (if c then Inl e else r) f = (if c then Inl e else sbind r f)"
  by simp_all

lemma if_Inl_eq_Inr [simp, res_simps]:
  "((if c then Inl e else r) = Inr y) \<longleftrightarrow> \<not> c \<and> r = Inr y"
  "((if c then r else Inl e) = Inr y) \<longleftrightarrow> c \<and> r = Inr y"
  by auto

lemma is_ok_iff: "is_ok r \<longleftrightarrow> (\<exists>x. r = Inr x)"
  by (cases r) auto

lemma smap_Inr_iff: "smap f xs = Inr ys \<longleftrightarrow> list_all2 (\<lambda>x y. f x = Inr y) xs ys"
proof (induction xs arbitrary: ys)
  case Nil
  then show ?case by auto
next
  case (Cons x xs)
  then show ?case by (cases ys) (auto simp: sbind_eq_Inr)
qed

lemma smap_length: "smap f xs = Inr ys \<Longrightarrow> length ys = length xs"
  by (auto simp: smap_Inr_iff dest: list_all2_lengthD)

lemma smap_nth: "smap f xs = Inr ys \<Longrightarrow> i < length xs \<Longrightarrow> f (xs ! i) = Inr (ys ! i)"
  by (auto simp: smap_Inr_iff dest: list_all2_nthD)

lemma smap_total: "(\<And>x. x \<in> set xs \<Longrightarrow> f x = Inr (g x)) \<Longrightarrow> smap f xs = Inr (map g xs)"
  by (induction xs) auto


section \<open>JavaScript numbers\<close>

text \<open>
  A JavaScript number is a finite rational or one of \<open>NaN\<close>, \<open>Infinity\<close> and
  \<open>-Infinity\<close>, which every guard of the modelled code treats alike. The code turns an
  unchecked number into an exact non-negative integer through a guard, and the model
  continues with \<open>nat\<close> from there. Sums, products and remainders of safe integers are
  exact where their result is safe, a result past the safe range is refused by the same
  guard, and \<open>Math.floor\<close> or \<open>Math.ceil\<close> of a quotient of safe integers is the exact
  integer quotient.
\<close>

datatype jsnum = Fin rat | NonFin

definition MAX_SAFE_INTEGER :: int where
  "MAX_SAFE_INTEGER = 2 ^ 53 - 1"

definition integral :: "rat \<Rightarrow> bool" where
  "integral r \<longleftrightarrow> of_int \<lfloor>r\<rfloor> = r"

fun isFinite :: "jsnum \<Rightarrow> bool" where
  "isFinite (Fin _) = True"
| "isFinite NonFin = False"

fun isInteger :: "jsnum \<Rightarrow> bool" where
  "isInteger (Fin r) = integral r"
| "isInteger NonFin = False"

fun isSafeInteger :: "jsnum \<Rightarrow> bool" where
  "isSafeInteger (Fin r) = (integral r \<and> \<bar>\<lfloor>r\<rfloor>\<bar> \<le> MAX_SAFE_INTEGER)"
| "isSafeInteger NonFin = False"

text \<open>\<open>x < c\<close> and \<open>x <= c\<close> in JavaScript: false on \<open>NaN\<close>. The guards test finiteness first.\<close>

fun js_less :: "jsnum \<Rightarrow> rat \<Rightarrow> bool" where
  "js_less (Fin r) c = (r < c)"
| "js_less NonFin c = False"

fun js_le :: "jsnum \<Rightarrow> rat \<Rightarrow> bool" where
  "js_le (Fin r) c = (r \<le> c)"
| "js_le NonFin c = False"

fun js_floor :: "jsnum \<Rightarrow> int" where
  "js_floor (Fin r) = \<lfloor>r\<rfloor>"
| "js_floor NonFin = 0"

text \<open>The number that holds the natural number \<open>n\<close>.\<close>

definition num :: "nat \<Rightarrow> jsnum" where
  "num n = Fin (of_nat n)"

lemma num_inject [simp]: "num a = num b \<longleftrightarrow> a = b"
  by (simp add: num_def)

lemma num_guards [simp]:
  "isFinite (num n)" "isInteger (num n)" "\<not> js_less (num n) 0" "js_floor (num n) = int n"
  "js_le (num n) 0 \<longleftrightarrow> n = 0"
  by (simp_all add: num_def integral_def)

lemma integral_of_nat [simp]: "integral (of_nat n)"
  by (simp add: integral_def)

lemma integral_of_int [simp]: "integral (of_int i)"
  by (simp add: integral_def)

lemma integral_numeral [simp]: "integral (numeral w)" "integral 0" "integral 1"
  by (simp_all add: integral_def)

lemma isSafeInteger_num [simp]: "isSafeInteger (num n) \<longleftrightarrow> n \<le> 9007199254740991"
proof -
  have "\<bar>\<lfloor>(of_nat n :: rat)\<rfloor>\<bar> = int n"
    by simp
  then show ?thesis
    by (simp add: MAX_SAFE_INTEGER_def num_def integral_def)
qed

text \<open>\<open>Math.ceil(a / b)\<close> and the least multiple of \<open>b\<close> that holds \<open>a\<close>.\<close>

definition ceil_div :: "nat \<Rightarrow> nat \<Rightarrow> nat" where
  "ceil_div a b = (a + b - 1) div b"

lemma ceil_div_0 [simp]: "0 < b \<Longrightarrow> ceil_div 0 b = 0"
  by (simp add: ceil_div_def)

lemma ceil_div_le_iff: "0 < b \<Longrightarrow> ceil_div a b \<le> q \<longleftrightarrow> a \<le> q * b"
proof -
  assume b: "0 < b"
  have "(a + b - 1) div b \<le> q \<longleftrightarrow> (a + b - 1) div b < Suc q"
    by auto
  also have "\<dots> \<longleftrightarrow> a + b - 1 < Suc q * b"
    using b by (simp add: less_mult_imp_div_less div_less_iff_less_mult)
  also have "\<dots> \<longleftrightarrow> a \<le> q * b"
    using b by auto
  finally show ?thesis
    by (simp add: ceil_div_def)
qed

lemma ceil_div_covers: "0 < b \<Longrightarrow> a \<le> ceil_div a b * b"
  using ceil_div_le_iff [of b a "ceil_div a b"] by simp

lemma ceil_div_tight: "0 < b \<Longrightarrow> 0 < a \<Longrightarrow> (ceil_div a b - 1) * b < a"
proof -
  assume b: "0 < b" and a: "0 < a"
  have pos: "0 < ceil_div a b"
    using ceil_div_le_iff [OF b, of a 0] a by auto
  then have "\<not> ceil_div a b \<le> ceil_div a b - 1"
    by simp
  then show ?thesis
    using ceil_div_le_iff [OF b, of a "ceil_div a b - 1"] by simp
qed

lemma ceil_div_mono: "0 < b \<Longrightarrow> a \<le> a' \<Longrightarrow> ceil_div a b \<le> ceil_div a' b"
  by (meson ceil_div_covers ceil_div_le_iff le_trans)


section \<open>Byte arrays\<close>

text \<open>
  A \<open>Uint8Array\<close> is a list of bytes. \<open>subarray a b\<close> is \<open>bytes.subarray(a, b)\<close> for
  non-negative bounds: both are clamped to the length and an empty interval is empty.
  \<open>le_bytes n v\<close> and \<open>be_bytes n v\<close> are what \<open>DataView.setUint*\<close> writes in \<open>n\<close> bytes (the
  value modulo \<open>256 ^ n\<close>), \<open>le_val\<close> and \<open>be_val\<close> what \<open>getUint*\<close> reads back.
\<close>

type_synonym byte = "8 word"
type_synonym bytes = "byte list"

definition subarray :: "nat \<Rightarrow> nat \<Rightarrow> 'a list \<Rightarrow> 'a list" where
  "subarray a b xs = take (b - a) (drop a xs)"

fun le_bytes :: "nat \<Rightarrow> nat \<Rightarrow> bytes" where
  "le_bytes 0 v = []"
| "le_bytes (Suc n) v = word_of_nat (v mod 256) # le_bytes n (v div 256)"

fun le_val :: "bytes \<Rightarrow> nat" where
  "le_val [] = 0"
| "le_val (b # bs) = unat b + 256 * le_val bs"

definition be_bytes :: "nat \<Rightarrow> nat \<Rightarrow> bytes" where
  "be_bytes n v = rev (le_bytes n v)"

definition be_val :: "bytes \<Rightarrow> nat" where
  "be_val bs = le_val (rev bs)"

lemma unat_byte_less [simp]: "unat (b :: byte) < 256"
  using unsigned_less [of b, where ?'a = nat] by simp

lemma unat_word_of_nat_byte [simp]: "unat (word_of_nat (v mod 256) :: byte) = v mod 256"
  by (simp add: unat_of_nat)

lemma length_le_bytes [simp, byte_simps]: "length (le_bytes n v) = n"
  by (induction n arbitrary: v) auto

lemma length_be_bytes [simp, byte_simps]: "length (be_bytes n v) = n"
  by (simp add: be_bytes_def)

lemma le_val_le_bytes [byte_simps]: "le_val (le_bytes n v) = v mod 256 ^ n"
proof (induction n arbitrary: v)
  case 0
  then show ?case by simp
next
  case (Suc n)
  then show ?case
    by (simp add: mod_mult2_eq mult.commute)
qed

lemma be_val_be_bytes [byte_simps]: "be_val (be_bytes n v) = v mod 256 ^ n"
  by (simp add: be_val_def be_bytes_def le_val_le_bytes)

lemma le_val_less: "le_val bs < 256 ^ length bs"
proof (induction bs)
  case Nil
  then show ?case by simp
next
  case (Cons b bs)
  have "unat b + 256 * le_val bs < 256 + 256 * le_val bs"
    by simp
  also have "\<dots> \<le> 256 * 256 ^ length bs"
    using Cons.IH by simp
  finally show ?case by simp
qed

lemma le_bytes_le_val [byte_simps]: "le_bytes (length bs) (le_val bs) = bs"
proof (induction bs)
  case Nil
  then show ?case by simp
next
  case (Cons b bs)
  have m: "(unat b + 256 * le_val bs) mod 256 = unat b"
    by simp
  have d: "(unat b + 256 * le_val bs) div 256 = le_val bs"
    by (simp add: div_less)
  show ?case
    using Cons.IH m d by simp
qed

lemma be_val_less: "be_val bs < 256 ^ length bs"
  using le_val_less [of "rev bs"] by (simp add: be_val_def)

lemma be_bytes_be_val [byte_simps]: "be_bytes (length bs) (be_val bs) = bs"
  using le_bytes_le_val [of "rev bs"] by (simp add: be_val_def be_bytes_def)

lemma length_subarray: "length (subarray a b xs) = min (b - a) (length xs - a)"
  by (simp add: subarray_def min.commute)

lemma length_subarray_exact [simp]: "b \<le> length xs \<Longrightarrow> length (subarray a b xs) = b - a"
  by (auto simp: length_subarray)

lemma nth_subarray: "i < b - a \<Longrightarrow> b \<le> length xs \<Longrightarrow> subarray a b xs ! i = xs ! (a + i)"
  by (simp add: subarray_def)

lemma subarray_append_left: "length xs = n \<Longrightarrow> subarray 0 n (xs @ ys) = xs"
  by (simp add: subarray_def)

lemma subarray_append_right:
  "length xs \<le> a \<Longrightarrow> subarray a b (xs @ ys) = subarray (a - length xs) (b - length xs) ys"
  by (simp add: subarray_def)

lemma subarray_whole: "subarray 0 (length xs) xs = xs"
  by (simp add: subarray_def)

lemma subarray_split: "a \<le> c \<Longrightarrow> c \<le> b \<Longrightarrow> subarray a c xs @ subarray c b xs = subarray a b xs"
proof -
  assume ac: "a \<le> c" and cb: "c \<le> b"
  have "take (b - a) (drop a xs) = take (c - a) (drop a xs) @ take (b - a - (c - a)) (drop (c - a) (drop a xs))"
    using ac cb by (metis diff_le_mono le_add_diff_inverse take_add)
  then show ?thesis
    using ac cb by (simp add: subarray_def)
qed


section \<open>Packed words\<close>

text \<open>Shifting a value left and or-ing a smaller one into the freed bits adds the two.\<close>

lemma push_bit_or_disjoint: "l < 2 ^ k \<Longrightarrow> push_bit k f OR l = f * 2 ^ k + (l :: nat)"
proof -
  assume l: "l < 2 ^ k"
  have "push_bit k f AND l = 0"
  proof (rule bit_eqI)
    fix n
    show "bit (push_bit k f AND l) n \<longleftrightarrow> bit 0 n"
    proof (cases "n < k")
      case True
      then show ?thesis by (simp add: bit_and_iff bit_push_bit_iff)
    next
      case False
      have "l div 2 ^ n = 0"
        using l False by (intro div_less) (meson less_le_trans one_le_numeral not_less power_increasing)
      then have "\<not> bit l n"
        by (simp add: bit_iff_odd)
      then show ?thesis by (simp add: bit_and_iff)
    qed
  qed
  then have "push_bit k f OR l = push_bit k f + l"
    by (rule disjunctive_add_eq_or [symmetric])
  then show ?thesis
    by (simp add: push_bit_eq_mult)
qed

lemma be_val_Nil [simp]: "be_val [] = 0"
  by (simp add: be_val_def)

lemma le_val_append: "le_val (xs @ ys) = le_val xs + 256 ^ length xs * le_val ys"
  by (induction xs) (auto simp: algebra_simps)

lemma be_val_Cons: "be_val (x # xs) = unat x * 256 ^ length xs + be_val xs"
  by (simp add: be_val_def le_val_append)

lemma be_val_snoc: "be_val (xs @ [x]) = 256 * be_val xs + unat x"
  by (simp add: be_val_def)

lemma index_subarray_end: "subarray a b xs = drop a xs" if "length xs \<le> b" for a b
  using that by (simp add: subarray_def)


section \<open>Decimal strings\<close>

text \<open>
  \<open>canonical_decimal\<close> is the regular expression \<open>/^(0|[1-9][0-9]*)$/\<close>, \<open>dec_val\<close> is
  \<open>BigInt(s)\<close> on a string of digits and \<open>dec_string\<close> is \<open>String(n)\<close>.
\<close>

definition digit :: "char \<Rightarrow> bool" where
  "digit c \<longleftrightarrow> 48 \<le> (of_char c :: nat) \<and> (of_char c :: nat) \<le> 57"

definition canonical_decimal :: "string \<Rightarrow> bool" where
  "canonical_decimal s \<longleftrightarrow> s \<noteq> [] \<and> list_all digit s \<and> (hd s = CHR ''0'' \<longrightarrow> length s = 1)"

definition dec_val :: "string \<Rightarrow> nat" where
  "dec_val s = foldl (\<lambda>n c. 10 * n + (of_char c - 48)) 0 s"

fun dec_string :: "nat \<Rightarrow> string" where
  "dec_string n =
     (if n < 10 then [char_of (48 + n)] else dec_string (n div 10) @ [char_of (48 + n mod 10)])"

declare dec_string.simps [simp del]

lemma digit_char_of [simp]: "(n :: nat) < 10 \<Longrightarrow> digit (char_of (48 + n))"
  by (simp add: digit_def)

lemma dec_val_snoc [simp]: "dec_val (s @ [c]) = 10 * dec_val s + (of_char c - 48)"
  by (simp add: dec_val_def)

lemma dec_val_Nil [simp]: "dec_val [] = 0"
  by (simp add: dec_val_def)

lemma dec_string_nonempty [simp]: "dec_string n \<noteq> []"
  by (subst dec_string.simps) simp

lemma dec_val_dec_string [simp]: "dec_val (dec_string n) = n"
proof (induction n rule: dec_string.induct)
  case (1 n)
  show ?case
  proof (cases "n < 10")
    case True
    then show ?thesis
      using dec_val_snoc [of "[]" "char_of (48 + n)"] by (subst dec_string.simps) simp
  next
    case False
    with "1.IH" show ?thesis
      by (subst dec_string.simps) simp
  qed
qed

lemma dec_string_digits: "list_all digit (dec_string n)"
proof (induction n rule: dec_string.induct)
  case (1 n)
  show ?case
  proof (cases "n < 10")
    case True
    then show ?thesis by (subst dec_string.simps) simp
  next
    case False
    with "1.IH" show ?thesis by (subst dec_string.simps) simp
  qed
qed

lemma hd_dec_string: "0 < n \<Longrightarrow> hd (dec_string n) \<noteq> CHR ''0''"
proof (induction n rule: dec_string.induct)
  case (1 n)
  show ?case
  proof (cases "n < 10")
    case True
    have "char_of (48 + n) \<noteq> (CHR ''0'')"
    proof
      assume "char_of (48 + n) = CHR ''0''"
      then have "(of_char (char_of (48 + n) :: char) :: nat) = of_char (CHR ''0'')"
        by simp
      then have "48 + n = 48"
        using True by simp
      then show False
        using "1.prems" by simp
    qed
    then show ?thesis
      using True by (subst dec_string.simps) simp
  next
    case False
    with "1.IH" have "hd (dec_string (n div 10)) \<noteq> CHR ''0''"
      by simp
    with False show ?thesis
      by (subst dec_string.simps) simp
  qed
qed

lemma canonical_dec_string [simp]: "canonical_decimal (dec_string n)"
proof (cases "n = 0")
  case True
  then show ?thesis
    by (simp add: canonical_decimal_def dec_string.simps [of 0] digit_def)
next
  case False
  then show ?thesis
    using dec_string_digits [of n] hd_dec_string [of n] by (simp add: canonical_decimal_def)
qed

lemma digit_value: "digit c \<Longrightarrow> char_of (48 + (of_char c - 48 :: nat)) = c \<and> of_char c - (48 :: nat) < 10"
  by (auto simp: digit_def)

lemma digit_pos: "digit c \<Longrightarrow> c \<noteq> CHR ''0'' \<Longrightarrow> 0 < (of_char c :: nat) - 48"
proof (rule ccontr)
  assume c: "digit c" "c \<noteq> CHR ''0''" and "\<not> 0 < (of_char c :: nat) - 48"
  then have "(of_char c :: nat) = of_char (CHR ''0'')"
    by (simp add: digit_def)
  then show False
    using c by (simp only: of_char_eq_iff)
qed

lemma dec_string_step:
  assumes "0 < n" and "digit c"
  shows "dec_string (10 * n + (of_char c - 48)) = dec_string n @ [c]"
proof -
  have c: "char_of (48 + (of_char c - 48 :: nat)) = c" "of_char c - (48 :: nat) < 10"
    using digit_value [OF assms(2)] by auto
  then have "(10 * n + (of_char c - 48)) div 10 = n" "(10 * n + (of_char c - 48)) mod 10 = of_char c - 48"
    by simp_all
  then show ?thesis
    using c assms(1) by (subst dec_string.simps) simp
qed

lemma dec_string_digits_inverse:
  "s \<noteq> [] \<Longrightarrow> list_all digit s \<Longrightarrow> hd s \<noteq> CHR ''0'' \<Longrightarrow> 0 < dec_val s \<and> dec_string (dec_val s) = s"
proof (induction s rule: rev_induct)
  case Nil
  then show ?case by simp
next
  case (snoc c s)
  show ?case
  proof (cases "s = []")
    case True
    then have c: "0 < (of_char c :: nat) - 48" "digit c"
      using snoc.prems digit_pos [of c] by auto
    then show ?thesis
      using True digit_value [OF c(2)] dec_val_snoc [of "[]" c] by (subst dec_string.simps) simp
  next
    case False
    then have "0 < dec_val s \<and> dec_string (dec_val s) = s"
      using snoc by simp
    then show ?thesis
      using snoc.prems dec_string_step [of "dec_val s" c] by simp
  qed
qed

lemma dec_string_dec_val: "canonical_decimal s \<Longrightarrow> dec_string (dec_val s) = s"
proof (cases "hd s = CHR ''0''")
  case True
  assume "canonical_decimal s"
  then have "s = [CHR ''0'']"
    using True by (cases s) (auto simp: canonical_decimal_def)
  moreover have "char_of (48 :: nat) = CHR ''0''"
    by code_simp
  ultimately show ?thesis
    by (simp add: dec_val_def dec_string.simps [of 0])
next
  case False
  assume "canonical_decimal s"
  then show ?thesis
    using False dec_string_digits_inverse [of s] by (simp add: canonical_decimal_def)
qed

lemma length_dec_string: "n < 10 ^ Suc k \<Longrightarrow> length (dec_string n) \<le> Suc k"
proof (induction k arbitrary: n)
  case 0
  then show ?case by (subst dec_string.simps) simp
next
  case (Suc k)
  show ?case
  proof (cases "n < 10")
    case True
    then show ?thesis by (subst dec_string.simps) simp
  next
    case False
    have "n div 10 < 10 ^ Suc k"
      using Suc.prems by (simp add: less_mult_imp_div_less mult.commute)
    then show ?thesis
      using False Suc.IH [of "n div 10"] by (subst dec_string.simps) simp
  qed
qed



section \<open>Lists\<close>

text \<open>Pieces of a list of equal width, as loops that step by a fixed stride read them.\<close>

lemma nth_concat_uniform:
  assumes "\<And>x. x \<in> set xs \<Longrightarrow> length x = w" and "i < length xs" and "j < w"
  shows "concat xs ! (i * w + j) = (xs ! i) ! j"
  using assms
proof (induction xs arbitrary: i)
  case Nil
  then show ?case by simp
next
  case (Cons x xs)
  have lx: "length x = w"
    using Cons.prems(1) by simp
  show ?case
  proof (cases i)
    case 0
    then show ?thesis
      using lx Cons.prems(3) by (simp add: nth_append)
  next
    case (Suc i')
    then have "concat xs ! (i' * w + j) = (xs ! i') ! j"
      using Cons by auto
    then show ?thesis
      using Suc lx by (simp add: nth_append add.assoc)
  qed
qed

lemma length_concat_uniform:
  "(\<And>x. x \<in> set xs \<Longrightarrow> length x = w) \<Longrightarrow> length (concat xs) = length xs * w"
  by (induction xs) auto

lemma subarray_concat_uniform:
  assumes "\<And>x. x \<in> set xs \<Longrightarrow> length x = w" and "i < length xs"
  shows "subarray (i * w) (Suc i * w) (concat xs) = xs ! i"
proof (rule nth_equalityI)
  have len: "length (concat xs) = length xs * w"
    using assms(1) by (rule length_concat_uniform)
  have le: "Suc i * w \<le> length xs * w"
    using assms(2) by (intro mult_le_mono1) simp
  show lw: "length (subarray (i * w) (Suc i * w) (concat xs)) = length (xs ! i)"
    using assms len le by simp
  fix j
  assume "j < length (subarray (i * w) (Suc i * w) (concat xs))"
  then have j: "j < w"
    using len le by simp
  then show "subarray (i * w) (Suc i * w) (concat xs) ! j = xs ! i ! j"
    using assms len le by (simp add: nth_subarray nth_concat_uniform)
qed

lemma blocks_concat:
  assumes "\<forall>r \<in> set rs. length (e r) = B" and "s + length rs * B \<le> length L"
  shows "subarray s (s + length rs * B) L = concat (map e rs) \<longleftrightarrow>
         (\<forall>j < length rs. subarray (s + j * B) (s + j * B + B) L = e (rs ! j))"
  using assms
proof (induction rs arbitrary: s)
  case Nil
  then show ?case by (simp add: subarray_def)
next
  case (Cons r rs)
  have split: "subarray s (s + length (r # rs) * B) L
      = subarray s (s + B) L @ subarray (s + B) (s + B + length rs * B) L"
    using subarray_split [of s "s + B" "s + length (r # rs) * B" L] by (simp add: add.assoc)
  have len: "length (subarray s (s + B) L) = length (e r)"
    using Cons.prems by simp
  have IH: "subarray (s + B) (s + B + length rs * B) L = concat (map e rs) \<longleftrightarrow>
      (\<forall>j < length rs. subarray (s + B + j * B) (s + B + j * B + B) L = e (rs ! j))"
    using Cons.prems by (intro Cons.IH) (auto simp: add.assoc)
  show ?case
    unfolding split using len IH by (simp add: All_less_Suc2 add.assoc)
qed

end
