(* ===== verification/Interfaces.thy ===== *)
theory Interfaces
  imports Prelude
begin

text \<open>
  The interfaces that several components implement, stated once as locales. Each is
  interpreted on the model's own definitions in the theory of the component that
  provides it.
\<close>


section \<open>Encoders and decoders that may throw\<close>

text \<open>
  A \<open>codec\<close> is an encoder whose every output the decoder reads back. A
  \<open>canonical_codec\<close> also refuses every input that the encoder does not produce, so each
  value has exactly one encoding.
\<close>

locale codec =
  fixes enc :: "'a \<Rightarrow> 'e + 'b"
    and dec :: "'b \<Rightarrow> 'f + 'a"
  assumes dec_enc: "enc x = Inr y \<Longrightarrow> dec y = Inr x"
begin

lemma enc_inject: "enc x = Inr z \<Longrightarrow> enc y = Inr z \<Longrightarrow> x = y"
  using dec_enc [of x z] dec_enc [of y z] by simp

lemma enc_then_dec: "is_ok (enc x) \<Longrightarrow> \<exists>y. enc x = Inr y \<and> dec y = Inr x"
  by (auto simp: is_ok_iff dest: dec_enc)

end

locale canonical_codec = codec +
  assumes enc_dec: "dec y = Inr x \<Longrightarrow> enc x = Inr y"
begin

lemma dec_inject: "dec x = Inr z \<Longrightarrow> dec y = Inr z \<Longrightarrow> x = y"
  using enc_dec [of x z] enc_dec [of y z] by simp

lemma enc_iff_dec: "enc x = Inr y \<longleftrightarrow> dec y = Inr x"
  by (blast intro: dec_enc enc_dec)

end


section \<open>Plans that tile an interval\<close>

text \<open>
  A planner cuts the interval from \<open>a\<close> to \<open>b\<close> into pieces given by their start and
  their length. \<open>tiles a b ps\<close> says that the pieces are non-empty, follow each other
  without a gap or an overlap, and end at \<open>b\<close>.
\<close>

fun tiles :: "nat \<Rightarrow> nat \<Rightarrow> (nat \<times> nat) list \<Rightarrow> bool" where
  "tiles a b [] \<longleftrightarrow> a = b"
| "tiles a b ((s, l) # ps) \<longleftrightarrow> s = a \<and> 0 < l \<and> tiles (a + l) b ps"

lemma tiles_le: "tiles a b ps \<Longrightarrow> a \<le> b"
  by (induction a b ps rule: tiles.induct) auto

lemma tiles_sum: "tiles a b ps \<Longrightarrow> sum_list (map snd ps) = b - a"
proof (induction a b ps rule: tiles.induct)
  case (1 a b)
  then show ?case by simp
next
  case (2 a b s l ps)
  then have "tiles (a + l) b ps" and "sum_list (map snd ps) = b - (a + l)"
    by auto
  with tiles_le show ?case by fastforce
qed

lemma tiles_append: "tiles a b ps \<Longrightarrow> tiles b c qs \<Longrightarrow> tiles a c (ps @ qs)"
  by (induction a b ps rule: tiles.induct) auto

lemma tiles_bounds: "tiles a b ps \<Longrightarrow> (s, l) \<in> set ps \<Longrightarrow> a \<le> s \<and> s + l \<le> b \<and> 0 < l"
proof (induction a b ps rule: tiles.induct)
  case (1 a b)
  then show ?case by simp
next
  case (2 a b s' l' ps)
  then show ?case
    using tiles_le [of "a + l'" b ps] by fastforce
qed

lemma tiles_cover: "tiles a b ps \<Longrightarrow> a \<le> x \<Longrightarrow> x < b \<Longrightarrow> \<exists>(s, l) \<in> set ps. s \<le> x \<and> x < s + l"
proof (induction a b ps rule: tiles.induct)
  case (1 a b)
  then show ?case by simp
next
  case (2 a b s l ps)
  then show ?case
    by (cases "x < a + l") auto
qed

lemma tiles_cover_unique:
  assumes "tiles a b ps" and "(s, l) \<in> set ps" and "(s', l') \<in> set ps"
    and "s \<le> x" and "x < s + l" and "s' \<le> x" and "x < s' + l'"
  shows "(s, l) = (s', l')"
  using assms
proof (induction a b ps rule: tiles.induct)
  case (1 a b)
  then show ?case by simp
next
  case (2 a b t k ps)
  then have rest: "tiles (a + k) b ps" and t: "t = a"
    by auto
  have later: "a + k \<le> u" if "(u, v) \<in> set ps" for u v
    using tiles_bounds [OF rest that] by simp
  show ?case
    using "2.IH" "2.prems" rest t later by fastforce
qed

text \<open>The bytes of an interval are the bytes of its pieces, in order.\<close>

lemma tiles_concat:
  assumes "tiles a b ps"
  shows "concat (map (\<lambda>(s, l). subarray s (s + l) xs) ps) = subarray a b xs"
  using assms
proof (induction a b ps rule: tiles.induct)
  case (1 a b)
  then show ?case by (simp add: subarray_def)
next
  case (2 a b s l ps)
  then show ?case
    using subarray_split [of a "a + l" b xs] tiles_le [of "a + l" b ps] by simp
qed

locale interval_plan =
  fixes plan :: "'o \<Rightarrow> (nat \<times> nat) list result"
    and from_pos :: "'o \<Rightarrow> nat"
    and to_pos :: "'o \<Rightarrow> nat"
  assumes plan_tiles: "plan opts = Inr ps \<Longrightarrow> tiles (from_pos opts) (to_pos opts) ps"
begin

lemma plan_total_length: "plan opts = Inr ps \<Longrightarrow> sum_list (map snd ps) = to_pos opts - from_pos opts"
  by (blast intro: tiles_sum dest: plan_tiles)

lemma plan_reads_back:
  "plan opts = Inr ps \<Longrightarrow>
   concat (map (\<lambda>(s, l). subarray s (s + l) file) ps) = subarray (from_pos opts) (to_pos opts) file"
  by (blast intro: tiles_concat dest: plan_tiles)

lemma plan_covers_once:
  assumes "plan opts = Inr ps" and "from_pos opts \<le> x" and "x < to_pos opts"
  shows "\<exists>!p. p \<in> set ps \<and> fst p \<le> x \<and> x < fst p + snd p"
proof -
  have t: "tiles (from_pos opts) (to_pos opts) ps"
    using assms(1) by (rule plan_tiles)
  obtain s l where sl: "(s, l) \<in> set ps" "s \<le> x" "x < s + l"
    using tiles_cover [OF t assms(2,3)] by auto
  show ?thesis
  proof (rule ex1I [of _ "(s, l)"])
    show "(s, l) \<in> set ps \<and> fst (s, l) \<le> x \<and> x < fst (s, l) + snd (s, l)"
      using sl by simp
    fix p
    assume "p \<in> set ps \<and> fst p \<le> x \<and> x < fst p + snd p"
    then show "p = (s, l)"
      using tiles_cover_unique [OF t, of "fst p" "snd p" s l x] sl by simp
  qed
qed

end

end
