(* ===== verification/PolyfsLayout.thy ===== *)
theory PolyfsLayout
  imports Interfaces
begin

text \<open>
  The PolyFS slab layout of \<open>polystore-website/src/domain/polyfsLayout.ts\<close>: the layout
  constants, the guard that turns a JavaScript number into an exact integer, the map from
  raw file offsets to encoded scalars and blobs, the range resolver, the stripe profile
  with its leaf numbering, the witness sizing, the packed length word and the committed
  layout of a deal.
\<close>

unbundle bit_operations_syntax

named_theorems layout_consts "the numeric values of the layout constants"


section \<open>Constants\<close>

definition BLOB_SIZE_BYTES :: nat where
  "BLOB_SIZE_BYTES = 128 * 1024"

definition BLOBS_PER_MDU :: nat where
  "BLOBS_PER_MDU = 64"

definition MDU_SIZE_BYTES :: nat where
  "MDU_SIZE_BYTES = BLOB_SIZE_BYTES * BLOBS_PER_MDU"

definition KZG_COMMITMENT_BYTES :: nat where
  "KZG_COMMITMENT_BYTES = 48"

definition POLYFS_SCALAR_BYTES :: nat where
  "POLYFS_SCALAR_BYTES = 32"

definition POLYFS_SCALAR_PAYLOAD_BYTES :: nat where
  "POLYFS_SCALAR_PAYLOAD_BYTES = 31"

definition POLYFS_SCALARS_PER_MDU :: nat where
  "POLYFS_SCALARS_PER_MDU = MDU_SIZE_BYTES div POLYFS_SCALAR_BYTES"

definition RAW_MDU_CAPACITY_BYTES :: nat where
  "RAW_MDU_CAPACITY_BYTES = POLYFS_SCALARS_PER_MDU * POLYFS_SCALAR_PAYLOAD_BYTES"

definition POLYFS_ROOT_TABLE_BLOBS :: nat where
  "POLYFS_ROOT_TABLE_BLOBS = 16"

definition POLYFS_FILE_TABLE_BLOBS :: nat where
  "POLYFS_FILE_TABLE_BLOBS = BLOBS_PER_MDU - POLYFS_ROOT_TABLE_BLOBS"

definition POLYFS_ROOT_SIZE_BYTES :: nat where
  "POLYFS_ROOT_SIZE_BYTES = 32"

definition POLYFS_FILE_TABLE_HEADER_BYTES :: nat where
  "POLYFS_FILE_TABLE_HEADER_BYTES = 128"

definition POLYFS_FILE_RECORD_BYTES :: nat where
  "POLYFS_FILE_RECORD_BYTES = 256"

definition POLYFS_ROOT_TABLE_CAPACITY :: nat where
  "POLYFS_ROOT_TABLE_CAPACITY = (POLYFS_ROOT_TABLE_BLOBS * BLOB_SIZE_BYTES) div POLYFS_ROOT_SIZE_BYTES"

definition POLYFS_FAT_LOGICAL_BYTES :: nat where
  "POLYFS_FAT_LOGICAL_BYTES = POLYFS_FILE_TABLE_BLOBS * BLOB_SIZE_BYTES div 32 * 31"

definition POLYFS_FILE_RECORD_CAPACITY :: nat where
  "POLYFS_FILE_RECORD_CAPACITY =
     (POLYFS_FAT_LOGICAL_BYTES - POLYFS_FILE_TABLE_HEADER_BYTES) div POLYFS_FILE_RECORD_BYTES"

lemma layout_values [simp, layout_consts]:
  "BLOB_SIZE_BYTES = 131072" "BLOBS_PER_MDU = 64" "MDU_SIZE_BYTES = 8388608"
  "KZG_COMMITMENT_BYTES = 48" "POLYFS_SCALAR_BYTES = 32" "POLYFS_SCALAR_PAYLOAD_BYTES = 31"
  "POLYFS_SCALARS_PER_MDU = 262144" "RAW_MDU_CAPACITY_BYTES = 8126464"
  "POLYFS_ROOT_TABLE_BLOBS = 16" "POLYFS_FILE_TABLE_BLOBS = 48" "POLYFS_ROOT_SIZE_BYTES = 32"
  "POLYFS_FILE_TABLE_HEADER_BYTES = 128" "POLYFS_FILE_RECORD_BYTES = 256"
  "POLYFS_ROOT_TABLE_CAPACITY = 65536" "POLYFS_FAT_LOGICAL_BYTES = 6094848"
  "POLYFS_FILE_RECORD_CAPACITY = 23807"
  by (simp_all add: BLOB_SIZE_BYTES_def BLOBS_PER_MDU_def MDU_SIZE_BYTES_def
      KZG_COMMITMENT_BYTES_def POLYFS_SCALAR_BYTES_def POLYFS_SCALAR_PAYLOAD_BYTES_def
      POLYFS_SCALARS_PER_MDU_def RAW_MDU_CAPACITY_BYTES_def POLYFS_ROOT_TABLE_BLOBS_def
      POLYFS_FILE_TABLE_BLOBS_def POLYFS_ROOT_SIZE_BYTES_def POLYFS_FILE_TABLE_HEADER_BYTES_def
      POLYFS_FILE_RECORD_BYTES_def POLYFS_ROOT_TABLE_CAPACITY_def POLYFS_FAT_LOGICAL_BYTES_def
      POLYFS_FILE_RECORD_CAPACITY_def)


section \<open>The integer guard\<close>

definition asNonNegativeInteger :: "jsnum \<Rightarrow> string \<Rightarrow> nat result" where
  "asNonNegativeInteger value label =
     (if \<not> isSafeInteger value \<or> js_less value 0
      then Inl (label @ '' must be a non-negative safe integer'')
      else Inr (nat (js_floor value)))"

lemma asNonNegativeInteger_num [simp, num_simps]:
  "asNonNegativeInteger (num n) label =
     (if n \<le> 9007199254740991 then Inr n else Inl (label @ '' must be a non-negative safe integer''))"
  by (simp add: asNonNegativeInteger_def)

lemma asNonNegativeInteger_Inr:
  "asNonNegativeInteger v label = Inr n \<longleftrightarrow> v = num n \<and> n \<le> 9007199254740991"
proof
  assume ok: "asNonNegativeInteger v label = Inr n"
  show "v = num n \<and> n \<le> 9007199254740991"
  proof (cases v)
    case (Fin r)
    with ok have i: "of_int \<lfloor>r\<rfloor> = r" and b: "\<bar>\<lfloor>r\<rfloor>\<bar> \<le> 2 ^ 53 - 1" and p: "0 \<le> r" and n: "n = nat \<lfloor>r\<rfloor>"
      by (auto simp: asNonNegativeInteger_def integral_def MAX_SAFE_INTEGER_def split: if_splits)
    then have "of_nat n = r"
      by (metis floor_of_nat of_int_of_nat_eq of_nat_nat zero_le_floor)
    moreover have "int n \<le> 2 ^ 53 - 1"
      using b n p by simp
    ultimately show ?thesis
      using Fin by (simp add: num_def)
  next
    case NonFin
    with ok show ?thesis by (simp add: asNonNegativeInteger_def)
  qed
qed simp


section \<open>Raw offsets and encoded positions\<close>

record encoded_position =
  ep_scalarIndex :: nat
  ep_payloadOffset :: nat
  ep_encodedByteOffset :: nat
  ep_encodedBlobIndex :: nat

definition computeUserMduCount :: "jsnum \<Rightarrow> jsnum option \<Rightarrow> nat result" where
  "computeUserMduCount sizeBytes rawMduCapacityBytes =
     sbind (asNonNegativeInteger sizeBytes ''sizeBytes'') (\<lambda>size.
     sbind (asNonNegativeInteger
              (case rawMduCapacityBytes of None \<Rightarrow> num RAW_MDU_CAPACITY_BYTES | Some c \<Rightarrow> c)
              ''rawMduCapacityBytes'') (\<lambda>capacity.
     if size = 0 then Inr 0
     else if capacity \<le> 0 then Inl ''rawMduCapacityBytes must be positive''
     else Inr (ceil_div size capacity)))"

definition rawOffsetToEncodedPosition :: "jsnum \<Rightarrow> encoded_position result" where
  "rawOffsetToEncodedPosition rawOffsetInMdu =
     sbind (asNonNegativeInteger rawOffsetInMdu ''rawOffsetInMdu'') (\<lambda>rawOffset.
     if rawOffset \<ge> RAW_MDU_CAPACITY_BYTES
     then Inl (''rawOffsetInMdu must be < '' @ dec_string RAW_MDU_CAPACITY_BYTES)
     else
       let scalarIdx = rawOffset div POLYFS_SCALAR_PAYLOAD_BYTES;
           payload = rawOffset mod POLYFS_SCALAR_PAYLOAD_BYTES;
           encoded = scalarIdx * POLYFS_SCALAR_BYTES + 1 + payload
       in Inr \<lparr>ep_scalarIndex = scalarIdx, ep_payloadOffset = payload, ep_encodedByteOffset = encoded,
               ep_encodedBlobIndex = encoded div BLOB_SIZE_BYTES\<rparr>)"


section \<open>The range resolver\<close>





section \<open>Stripe profile and leaf numbering\<close>

record stripe_profile =
  sp_k :: nat
  sp_m :: nat
  sp_n :: nat
  sp_rows :: nat
  sp_leafCount :: nat

definition computeStripeProfile :: "jsnum \<Rightarrow> jsnum \<Rightarrow> stripe_profile result" where
  "computeStripeProfile k m =
     sbind (asNonNegativeInteger k ''k'') (\<lambda>safeK.
     sbind (asNonNegativeInteger m ''m'') (\<lambda>safeM.
     if safeK \<le> 0 then Inl ''k must be positive''
     else if BLOBS_PER_MDU mod safeK \<noteq> 0 then Inl (''k must divide '' @ dec_string BLOBS_PER_MDU)
     else
     sbind (asNonNegativeInteger (num (safeK + safeM)) ''n'') (\<lambda>n.
     if n > 256 then Inl ''Mode 2 n must be <= 256''
     else
       let rows = BLOBS_PER_MDU div safeK
       in Inr \<lparr>sp_k = safeK, sp_m = safeM, sp_n = n, sp_rows = rows, sp_leafCount = n * rows\<rparr>)))"

definition leafIndexForSlotRow :: "stripe_profile \<Rightarrow> jsnum \<Rightarrow> jsnum \<Rightarrow> nat result" where
  "leafIndexForSlotRow profile slot row =
     sbind (asNonNegativeInteger slot ''slot'') (\<lambda>safeSlot.
     sbind (asNonNegativeInteger row ''row'') (\<lambda>safeRow.
     if safeSlot \<ge> sp_n profile then Inl (''slot must be < '' @ dec_string (sp_n profile))
     else if safeRow \<ge> sp_rows profile then Inl (''row must be < '' @ dec_string (sp_rows profile))
     else Inr (safeSlot * sp_rows profile + safeRow)))"

definition slotRowForLeafIndex :: "stripe_profile \<Rightarrow> jsnum \<Rightarrow> (nat \<times> nat) result" where
  "slotRowForLeafIndex profile leafIndex =
     sbind (asNonNegativeInteger leafIndex ''leafIndex'') (\<lambda>safeLeaf.
     if safeLeaf \<ge> sp_leafCount profile
     then Inl (''leafIndex must be < '' @ dec_string (sp_leafCount profile))
     else Inr (safeLeaf div sp_rows profile, safeLeaf mod sp_rows profile))"


section \<open>Witness sizing\<close>

record witness_layout =
  wl_profile :: stripe_profile
  wl_witnessBytesPerUserMdu :: nat
  wl_totalWitnessBytes :: nat
  wl_witnessMduCount :: nat
  wl_rawMduCapacityBytes :: nat

definition computeWitnessLayout :: "jsnum \<Rightarrow> jsnum \<Rightarrow> jsnum \<Rightarrow> jsnum option \<Rightarrow> witness_layout result" where
  "computeWitnessLayout totalUserMdus k m rawCapacity =
     sbind (asNonNegativeInteger totalUserMdus ''totalUserMdus'') (\<lambda>total.
     sbind (asNonNegativeInteger
              (case rawCapacity of None \<Rightarrow> num RAW_MDU_CAPACITY_BYTES | Some c \<Rightarrow> c)
              ''rawMduCapacityBytes'') (\<lambda>cap.
     if cap \<le> 0 then Inl ''rawMduCapacityBytes must be positive''
     else
     sbind (computeStripeProfile k m) (\<lambda>profile.
     let perMdu = sp_leafCount profile * KZG_COMMITMENT_BYTES in
     sbind (asNonNegativeInteger (num (total * perMdu)) ''totalWitnessBytes'') (\<lambda>totalBytes.
     Inr \<lparr>wl_profile = profile, wl_witnessBytesPerUserMdu = perMdu,
          wl_totalWitnessBytes = totalBytes,
          wl_witnessMduCount = max 1 (ceil_div totalBytes cap),
          wl_rawMduCapacityBytes = cap\<rparr>))))"


section \<open>The packed length word\<close>

definition packLengthAndFlags :: "jsnum \<Rightarrow> jsnum \<Rightarrow> nat result" where
  "packLengthAndFlags len flags =
     sbind (asNonNegativeInteger len ''length'') (\<lambda>safeLength.
     sbind (asNonNegativeInteger flags ''flags'') (\<lambda>safeFlags.
     if safeLength > 0xffffffffffffff \<or> safeFlags > 255 then Inl ''length or flags overflow''
     else Inr (push_bit 56 safeFlags OR safeLength)))"

definition unpackLengthAndFlags :: "int \<Rightarrow> (nat \<times> nat) result" where
  "unpackLengthAndFlags value =
     (if value < 0 \<or> value > 0xffffffffffffffff then Inl ''invalid packed length''
      else
        sbind (asNonNegativeInteger (num (nat value AND 0xffffffffffffff)) ''length'') (\<lambda>len.
        Inr (len, drop_bit 56 (nat value) AND 0xff)))"


section \<open>The committed layout of a deal\<close>

record committed_layout =
  cl_totalMdus :: nat
  cl_witnessMdus :: nat
  cl_userMdus :: nat

definition committed_count :: "string option \<Rightarrow> string \<Rightarrow> nat result" where
  "committed_count value label =
     (case value of
        None \<Rightarrow> Inl (''invalid committed '' @ label)
      | Some s \<Rightarrow>
          if \<not> canonical_decimal s \<or> length s > 5 then Inl (''invalid committed '' @ label)
          else Inr (dec_val s))"

definition committedPolyfsLayout :: "string option \<Rightarrow> string option \<Rightarrow> committed_layout result" where
  "committedPolyfsLayout total_mdus witness_mdus =
     sbind (committed_count total_mdus ''total_mdus'') (\<lambda>totalMdus.
     sbind (committed_count witness_mdus ''witness_mdus'') (\<lambda>witness.
     if totalMdus < 1 \<or> totalMdus > POLYFS_ROOT_TABLE_CAPACITY + 1 \<or> witness \<ge> totalMdus
     then Inl ''invalid committed PolyFS layout''
     else Inr \<lparr>cl_totalMdus = totalMdus, cl_witnessMdus = witness,
               cl_userMdus = totalMdus - witness - 1\<rparr>))"


section \<open>Lemmas: offsets\<close>

lemma rawOffsetToEncodedPosition_ok:
  "r < RAW_MDU_CAPACITY_BYTES \<Longrightarrow>
   rawOffsetToEncodedPosition (num r) =
     Inr \<lparr>ep_scalarIndex = r div 31, ep_payloadOffset = r mod 31,
          ep_encodedByteOffset = r div 31 * 32 + 1 + r mod 31,
          ep_encodedBlobIndex = (r div 31 * 32 + 1 + r mod 31) div 131072\<rparr>"
  by (simp add: rawOffsetToEncodedPosition_def Let_def)

lemma rawOffsetToEncodedPosition_is_ok:
  "is_ok (rawOffsetToEncodedPosition (num r)) \<longleftrightarrow> r < RAW_MDU_CAPACITY_BYTES"
  by (auto simp: rawOffsetToEncodedPosition_def Let_def)

text \<open>The position of raw byte \<open>r\<close> of an MDU among its encoded bytes, and its blob.\<close>

definition encoded_offset :: "nat \<Rightarrow> nat" where
  "encoded_offset r = r div 31 * 32 + 1 + r mod 31"

lemma encoded_offset_eq: "encoded_offset r = r + r div 31 + 1"
proof -
  have "r = r div 31 * 31 + r mod 31"
    by simp
  then show ?thesis
    unfolding encoded_offset_def by linarith
qed

lemma encoded_offset_less: "encoded_offset r < encoded_offset s \<longleftrightarrow> r < s"
proof -
  have mono: "encoded_offset a < encoded_offset b" if "a < b" for a b
    using that div_le_mono [of a b 31] unfolding encoded_offset_eq by linarith
  show ?thesis
    using mono [of r s] mono [of s r] by (cases r s rule: linorder_cases) auto
qed

lemma encoded_offset_bound: "r < 8126464 \<Longrightarrow> encoded_offset r < 8388608"
proof -
  assume "r < 8126464"
  then have "r div 31 < 262144"
    by (simp add: div_less_iff_less_mult)
  moreover have "r mod 31 < 31"
    by simp
  ultimately show ?thesis
    unfolding encoded_offset_def by linarith
qed

lemma encoded_offset_not_reserved: "encoded_offset r mod 32 \<noteq> 0"
proof -
  have small: "1 + r mod 31 < 32"
    using mod_less_divisor [of 31 r] by linarith
  have "encoded_offset r mod 32 = (1 + r mod 31) mod 32"
    unfolding encoded_offset_def by (metis add.assoc mod_mult_self3)
  also have "\<dots> = 1 + r mod 31"
    using small by (rule mod_less)
  finally show ?thesis by simp
qed

lemma encoded_offset_onto:
  "e mod 32 \<noteq> 0 \<Longrightarrow> e < 8388608 \<Longrightarrow> \<exists>r < 8126464. encoded_offset r = e"
proof -
  assume e: "e mod 32 \<noteq> 0" "e < 8388608"
  let ?q = "e div 32" and ?p = "e mod 32 - 1"
  let ?r = "?q * 31 + ?p"
  have small: "?p < 31"
    using e(1) mod_less_divisor [of 32 e] by linarith
  have split: "e = ?q * 32 + e mod 32"
    by simp
  have "?r div 31 = ?q" and "?r mod 31 = ?p"
    using small by simp_all
  then have "encoded_offset ?r = ?q * 32 + 1 + ?p"
    unfolding encoded_offset_def by simp
  also have "\<dots> = e"
    using e(1) split by linarith
  finally have "encoded_offset ?r = e" .
  moreover have "?q < 262144"
    using e(2) by (simp add: div_less_iff_less_mult)
  then have "?r < 8126464"
    using small by linarith
  ultimately show ?thesis by blast
qed

text \<open>
  C1: the map from raw file offsets to encoded bytes is an order-preserving bijection from
  the raw bytes of an MDU onto the bytes of the encoded MDU that are not the reserved
  leading byte of a scalar, and an offset is accepted exactly when it is below the raw
  capacity.
\<close>

theorem raw_offset_bijection:
  "bij_betw (\<lambda>r. ep_encodedByteOffset (projr (rawOffsetToEncodedPosition (num r))))
     {..<RAW_MDU_CAPACITY_BYTES}
     {e. e < MDU_SIZE_BYTES \<and> e mod POLYFS_SCALAR_BYTES \<noteq> 0}
   \<and> strict_mono_on {..<RAW_MDU_CAPACITY_BYTES}
     (\<lambda>r. ep_encodedByteOffset (projr (rawOffsetToEncodedPosition (num r))))
   \<and> {r. is_ok (rawOffsetToEncodedPosition (num r))} = {..<RAW_MDU_CAPACITY_BYTES}"
proof (intro conjI)
  let ?f = "\<lambda>r. ep_encodedByteOffset (projr (rawOffsetToEncodedPosition (num r)))"
  have f: "?f r = encoded_offset r" if "r < RAW_MDU_CAPACITY_BYTES" for r
    using rawOffsetToEncodedPosition_ok [OF that] by (simp add: encoded_offset_def)
  show mono: "strict_mono_on {..<RAW_MDU_CAPACITY_BYTES} ?f"
    by (rule strict_mono_onI) (simp add: f encoded_offset_less)
  show "bij_betw ?f {..<RAW_MDU_CAPACITY_BYTES}
     {e. e < MDU_SIZE_BYTES \<and> e mod POLYFS_SCALAR_BYTES \<noteq> 0}"
  proof (rule bij_betw_imageI)
    show "inj_on ?f {..<RAW_MDU_CAPACITY_BYTES}"
      by (rule strict_mono_on_imp_inj_on [OF mono])
    show "?f ` {..<RAW_MDU_CAPACITY_BYTES} = {e. e < MDU_SIZE_BYTES \<and> e mod POLYFS_SCALAR_BYTES \<noteq> 0}"
    proof (intro equalityI subsetI)
      fix e
      assume "e \<in> ?f ` {..<RAW_MDU_CAPACITY_BYTES}"
      then obtain r where "r < RAW_MDU_CAPACITY_BYTES" "e = encoded_offset r"
        using f by auto
      then show "e \<in> {e. e < MDU_SIZE_BYTES \<and> e mod POLYFS_SCALAR_BYTES \<noteq> 0}"
        using encoded_offset_bound encoded_offset_not_reserved by simp
    next
      fix e
      assume "e \<in> {e. e < MDU_SIZE_BYTES \<and> e mod POLYFS_SCALAR_BYTES \<noteq> 0}"
      then obtain r where "r < RAW_MDU_CAPACITY_BYTES" "encoded_offset r = e"
        using encoded_offset_onto [of e] by auto
      then show "e \<in> ?f ` {..<RAW_MDU_CAPACITY_BYTES}"
        using f by (intro image_eqI [of _ _ r]) auto
    qed
  qed
  show "{r. is_ok (rawOffsetToEncodedPosition (num r))} = {..<RAW_MDU_CAPACITY_BYTES}"
    by (auto simp: rawOffsetToEncodedPosition_is_ok simp del: layout_values)
qed



section \<open>Lemmas: the range resolver\<close>










section \<open>Lemmas: stripes, witnesses and the packed word\<close>

lemma computeStripeProfile_Inr:
  "computeStripeProfile k m = Inr p \<longleftrightarrow>
     (\<exists>a b. k = num a \<and> m = num b \<and> 0 < a \<and> a dvd 64 \<and> a + b \<le> 256
        \<and> p = \<lparr>sp_k = a, sp_m = b, sp_n = a + b, sp_rows = 64 div a, sp_leafCount = (a + b) * (64 div a)\<rparr>)"
proof (cases "\<exists>a b. k = num a \<and> m = num b \<and> a \<le> 9007199254740991 \<and> b \<le> 9007199254740991")
  case True
  then obtain a b where "k = num a" "m = num b" "a \<le> 9007199254740991" "b \<le> 9007199254740991"
    by blast
  then show ?thesis
    by (auto simp: computeStripeProfile_def Let_def dvd_eq_mod_eq_0)
next
  case False
  then show ?thesis
    unfolding computeStripeProfile_def sbind_eq_Inr asNonNegativeInteger_Inr by fastforce
qed

text \<open>
  The leaf numbering of a Mode 2 stripe as an encoder of (slot, row) pairs, composed with
  the profile as the callers compose them.
\<close>

definition leaf_enc :: "jsnum \<Rightarrow> jsnum \<Rightarrow> nat \<times> nat \<Rightarrow> nat result" where
  "leaf_enc k m sr =
     sbind (computeStripeProfile k m) (\<lambda>p. leafIndexForSlotRow p (num (fst sr)) (num (snd sr)))"

definition leaf_dec :: "jsnum \<Rightarrow> jsnum \<Rightarrow> nat \<Rightarrow> (nat \<times> nat) result" where
  "leaf_dec k m leaf = sbind (computeStripeProfile k m) (\<lambda>p. slotRowForLeafIndex p (num leaf))"

lemma slot_row_split:
  "0 < r \<Longrightarrow> (s < n \<and> t < r \<and> leaf = s * r + t) \<longleftrightarrow> (leaf < n * r \<and> s = leaf div r \<and> t = leaf mod (r :: nat))"
proof
  assume r: "0 < r" and "s < n \<and> t < r \<and> leaf = s * r + t"
  then have b: "s < n" "t < r" "leaf = s * r + t"
    by auto
  have "leaf < Suc s * r"
    using b by simp
  also have "\<dots> \<le> n * r"
    using b by (intro mult_le_mono1) simp
  finally show "leaf < n * r \<and> s = leaf div r \<and> t = leaf mod r"
    using b by simp
next
  assume "0 < r" and "leaf < n * r \<and> s = leaf div r \<and> t = leaf mod r"
  then show "s < n \<and> t < r \<and> leaf = s * r + t"
    by (auto simp: div_less_iff_less_mult)
qed

lemma leaf_enc_iff_dec: "leaf_enc k m sr = Inr leaf \<longleftrightarrow> leaf_dec k m leaf = Inr sr"
proof (cases "computeStripeProfile k m")
  case (Inl e)
  then show ?thesis by (simp add: leaf_enc_def leaf_dec_def)
next
  case (Inr p)
  obtain s t where sr: "sr = (s, t)"
    by (cases sr)
  from Inr obtain a b where ab: "0 < a" "a dvd 64" "a + b \<le> 256" "sp_n p = a + b"
      "sp_rows p = 64 div a" "sp_leafCount p = (a + b) * (64 div a)"
    by (auto simp: computeStripeProfile_Inr)
  let ?r = "64 div a"
  have "a \<le> 64"
    using ab(2) by (rule dvd_imp_le) simp
  then have r: "0 < ?r"
    using ab(1) by (simp add: div_greater_zero_iff)
  have bound: "sp_n p * ?r \<le> 256 * 64"
    using ab by (intro mult_le_mono div_le_dividend) auto
  have small: "t < ?r \<Longrightarrow> t \<le> 9007199254740991"
    using div_le_dividend [of 64 a] by linarith
  have enc: "leaf_enc k m sr = Inr leaf \<longleftrightarrow> s < sp_n p \<and> t < ?r \<and> leaf = s * ?r + t"
    using Inr sr ab small by (auto simp: leaf_enc_def leafIndexForSlotRow_def)
  have dec: "leaf_dec k m leaf = Inr sr \<longleftrightarrow> leaf < sp_n p * ?r \<and> s = leaf div ?r \<and> t = leaf mod ?r"
    using Inr sr ab bound by (auto simp: leaf_dec_def slotRowForLeafIndex_def)
  show ?thesis
    using enc dec slot_row_split [OF r, of s "sp_n p" t leaf] by blast
qed

interpretation leaf: canonical_codec "leaf_enc k m" "leaf_dec k m" for k m
  by unfold_locales (simp_all add: leaf_enc_iff_dec)

lemma computeWitnessLayout_Inr:
  "computeWitnessLayout t k m None = Inr w \<Longrightarrow>
   \<exists>n. t = num n \<and> computeStripeProfile k m = Inr (wl_profile w)
     \<and> wl_totalWitnessBytes w = n * (sp_leafCount (wl_profile w) * 48)
     \<and> wl_witnessMduCount w = max 1 (ceil_div (wl_totalWitnessBytes w) RAW_MDU_CAPACITY_BYTES)
     \<and> wl_rawMduCapacityBytes w = RAW_MDU_CAPACITY_BYTES"
  unfolding computeWitnessLayout_def sbind_eq_Inr asNonNegativeInteger_Inr
  by (auto simp: Let_def sbind_eq_Inr split: if_splits)

lemma mask56: "v AND 0xffffffffffffff = (v :: nat) mod 2 ^ 56"
  using take_bit_eq_mask [of 56 v] by (simp add: take_bit_eq_mod mask_eq_exp_minus_1)

lemma mask8: "v AND 0xff = (v :: nat) mod 2 ^ 8"
  using take_bit_eq_mask [of 8 v] by (simp add: take_bit_eq_mod mask_eq_exp_minus_1)

lemma unpack_pack:
  "packLengthAndFlags l f = Inr v \<Longrightarrow>
   \<exists>n g. l = num n \<and> f = num g \<and> unpackLengthAndFlags (int v) = Inr (n, g)"
proof -
  assume "packLengthAndFlags l f = Inr v"
  then obtain n g where ng: "l = num n" "f = num g" "n \<le> 9007199254740991" "g \<le> 255"
      "v = push_bit 56 g OR n"
    unfolding packLengthAndFlags_def sbind_eq_Inr asNonNegativeInteger_Inr
    by (auto split: if_splits)
  then have v: "v = g * 2 ^ 56 + n"
    using push_bit_or_disjoint [of n 56 g] by simp
  have "v < 2 ^ 64"
    using v ng(3,4) by simp
  moreover have "v AND 0xffffffffffffff = n"
    using ng(3) v by (simp only: mask56) simp
  moreover have "drop_bit 56 v AND 0xff = g"
    using ng(3,4) v by (simp only: mask8 drop_bit_eq_div) simp
  ultimately have "unpackLengthAndFlags (int v) = Inr (n, g)"
    using ng(3) by (simp add: unpackLengthAndFlags_def)
  then show ?thesis
    using ng by blast
qed

definition pack_pair :: "nat \<times> nat \<Rightarrow> nat result" where
  "pack_pair lf = packLengthAndFlags (num (fst lf)) (num (snd lf))"

definition unpack_word :: "nat \<Rightarrow> (nat \<times> nat) result" where
  "unpack_word v = unpackLengthAndFlags (int v)"

interpretation packed: codec pack_pair unpack_word
proof
  fix x y
  assume "pack_pair x = Inr y"
  from unpack_pack [OF this [unfolded pack_pair_def]] show "unpack_word y = Inr x"
    by (auto simp: unpack_word_def)
qed


section \<open>Properties of the layout arithmetic\<close>

lemma stripe_profile_shape:
  "computeStripeProfile k m = Inr p \<Longrightarrow>
   0 < sp_k p \<and> sp_rows p * sp_k p = 64 \<and> sp_n p = sp_k p + sp_m p \<and> sp_n p \<le> 256
     \<and> sp_leafCount p = sp_n p * sp_rows p \<and> 0 < sp_rows p \<and> sp_rows p \<le> 64"
  by (auto simp: computeStripeProfile_Inr div_greater_zero_iff div_le_dividend dest: dvd_imp_le)

text \<open>
  C3: within an accepted Mode 2 profile the leaf number and the (slot, row) pair
  determine each other, and the leaf numbers below the leaf count are exactly the
  numbers of the pairs with a slot below \<open>n\<close> and a row below \<open>rows\<close>.
\<close>

theorem leaf_numbering_bijection:
  assumes "computeStripeProfile k m = Inr p"
  shows "(leafIndexForSlotRow p (num s) (num t) = Inr leaf \<longleftrightarrow>
            slotRowForLeafIndex p (num leaf) = Inr (s, t))
         \<and> (is_ok (slotRowForLeafIndex p (num leaf)) \<longleftrightarrow> leaf < sp_n p * sp_rows p)
         \<and> (is_ok (leafIndexForSlotRow p (num s) (num t)) \<longleftrightarrow> s < sp_n p \<and> t < sp_rows p)"
proof (intro conjI)
  show "leafIndexForSlotRow p (num s) (num t) = Inr leaf \<longleftrightarrow>
          slotRowForLeafIndex p (num leaf) = Inr (s, t)"
    using leaf.enc_iff_dec [of k m "(s, t)" leaf] assms by (simp add: leaf_enc_def leaf_dec_def)
  note p = stripe_profile_shape [OF assms]
  have "sp_n p * sp_rows p \<le> 256 * 64"
    using p by (intro mult_le_mono) auto
  then show "is_ok (slotRowForLeafIndex p (num leaf)) \<longleftrightarrow> leaf < sp_n p * sp_rows p"
    using p by (auto simp: slotRowForLeafIndex_def)
  show "is_ok (leafIndexForSlotRow p (num s) (num t)) \<longleftrightarrow> s < sp_n p \<and> t < sp_rows p"
    using p by (auto simp: leafIndexForSlotRow_def)
qed

theorem leaf_numbering_bijection_witness:
  "\<exists>p. computeStripeProfile (num 8) (num 4) = Inr p
     \<and> (leafIndexForSlotRow p (num 11) (num 7) = Inr 95 \<longleftrightarrow> slotRowForLeafIndex p (num 95) = Inr (11, 7))
     \<and> is_ok (slotRowForLeafIndex p (num 95)) \<and> is_ok (leafIndexForSlotRow p (num 11) (num 7))"
proof -
  let ?p = "\<lparr>sp_k = 8, sp_m = 4, sp_n = 12, sp_rows = 8, sp_leafCount = 96\<rparr>"
  have run: "computeStripeProfile (num 8) (num 4) = Inr ?p"
    by (simp add: computeStripeProfile_def Let_def)
  show ?thesis
    using run leaf_numbering_bijection [OF run, of 11 7 95] by (intro exI [of _ ?p]) simp
qed

text \<open>
  The witness region of an accepted layout holds the commitments of all the leaves
  of all the user MDUs, 48 bytes each, and with one witness MDU less it would not; an
  empty deal still has one witness MDU.
\<close>

theorem witness_layout_minimal:
  assumes "computeWitnessLayout (num u) k m None = Inr w"
  shows "wl_totalWitnessBytes w = u * (sp_n (wl_profile w) * sp_rows (wl_profile w)) * 48
         \<and> wl_totalWitnessBytes w \<le> wl_witnessMduCount w * RAW_MDU_CAPACITY_BYTES
         \<and> 1 \<le> wl_witnessMduCount w
         \<and> (1 < wl_witnessMduCount w \<longrightarrow>
              (wl_witnessMduCount w - 1) * RAW_MDU_CAPACITY_BYTES < wl_totalWitnessBytes w)"
proof (intro conjI impI)
  let ?C = "RAW_MDU_CAPACITY_BYTES"
  let ?B = "wl_totalWitnessBytes w"
  obtain n where n: "num u = num n" "computeStripeProfile k m = Inr (wl_profile w)"
      "?B = n * (sp_leafCount (wl_profile w) * 48)" "wl_witnessMduCount w = max 1 (ceil_div ?B ?C)"
    using computeWitnessLayout_Inr [OF assms] by blast
  note p = stripe_profile_shape [OF n(2)]
  have C: "0 < ?C"
    by simp
  show "?B = u * (sp_n (wl_profile w) * sp_rows (wl_profile w)) * 48"
    using n p by simp
  have "?B \<le> ceil_div ?B ?C * ?C"
    using C by (rule ceil_div_covers)
  also have "\<dots> \<le> wl_witnessMduCount w * ?C"
    unfolding n(4) by (intro mult_le_mono1) simp
  finally show "?B \<le> wl_witnessMduCount w * ?C" .
  show "1 \<le> wl_witnessMduCount w"
    by (simp add: n(4))
  assume "1 < wl_witnessMduCount w"
  then have c: "wl_witnessMduCount w = ceil_div ?B ?C" "ceil_div ?B ?C \<noteq> 0"
    using n(4) by auto
  then have "0 < ?B"
    using C ceil_div_0 by (metis gr0I)
  with C show "(wl_witnessMduCount w - 1) * ?C < ?B"
    unfolding c(1) by (rule ceil_div_tight)
qed

theorem witness_layout_minimal_witness:
  "\<exists>w. computeWitnessLayout (num 2000) (num 8) (num 4) None = Inr w
     \<and> wl_totalWitnessBytes w = 2000 * (sp_n (wl_profile w) * sp_rows (wl_profile w)) * 48
     \<and> wl_witnessMduCount w = 2
     \<and> (wl_witnessMduCount w - 1) * RAW_MDU_CAPACITY_BYTES < wl_totalWitnessBytes w"
proof -
  have cd: "ceil_div 9216000 8126464 = 2"
    by (simp add: ceil_div_def)
  obtain w where run: "computeWitnessLayout (num 2000) (num 8) (num 4) None = Inr w"
      and c: "wl_witnessMduCount w = 2"
    by (simp add: computeWitnessLayout_def computeStripeProfile_def Let_def cd)
  show ?thesis
    using run c witness_layout_minimal [OF run] by (intro exI [of _ w]) simp
qed

text \<open>
  Packing a file length with its flags byte and unpacking the word gives both back;
  packing succeeds on every safe length with a one-byte flag.
\<close>

theorem packed_length_roundtrip:
  assumes "n \<le> 2 ^ 53 - 1" and "g \<le> 255"
  shows "\<exists>v. packLengthAndFlags (num n) (num g) = Inr v \<and> v < 2 ^ 64
           \<and> unpackLengthAndFlags (int v) = Inr (n, g)"
proof -
  have "is_ok (pack_pair (n, g))"
    using assms by (simp add: pack_pair_def packLengthAndFlags_def)
  then obtain v where v: "pack_pair (n, g) = Inr v" "unpack_word v = Inr (n, g)"
    using packed.enc_then_dec by blast
  then have "\<not> int v > 0xffffffffffffffff"
    by (auto simp: unpack_word_def unpackLengthAndFlags_def)
  then show ?thesis
    using v by (intro exI [of _ v]) (simp add: pack_pair_def unpack_word_def)
qed

theorem packed_length_roundtrip_witness:
  "(9007199254740991 :: nat) \<le> 2 ^ 53 - 1 \<and> (3 :: nat) \<le> 255
   \<and> (\<exists>v. packLengthAndFlags (num 9007199254740991) (num 3) = Inr v \<and> v < 2 ^ 64
        \<and> unpackLengthAndFlags (int v) = Inr (9007199254740991, 3))"
  using packed_length_roundtrip [of 9007199254740991 3] by simp

end
