(* ===== verification/Utf8.thy ===== *)
theory Utf8
  imports Interfaces
begin

text \<open>
  JavaScript strings and their UTF-8 form. A string is the list of its code points, where
  a code point in the surrogate range stands for a surrogate that is not part of a pair.
  \<open>utf8_encode\<close> is \<open>TextEncoder.encode\<close> (a lone surrogate becomes U+FFFD) and
  \<open>utf8_decode\<close> is a fatal \<open>TextDecoder\<close> that keeps a byte order mark: it refuses
  truncated, overlong, surrogate and out-of-range sequences.
\<close>

type_synonym js_string = "nat list"

definition surrogate :: "nat \<Rightarrow> bool" where
  "surrogate c \<longleftrightarrow> 0xD800 \<le> c \<and> c \<le> 0xDFFF"

definition scalar_value :: "nat \<Rightarrow> bool" where
  "scalar_value c \<longleftrightarrow> c \<le> 0x10FFFF \<and> \<not> surrogate c"

definition ascii :: "string \<Rightarrow> js_string" where
  "ascii s = map of_char s"

definition utf8_char :: "nat \<Rightarrow> nat list" where
  "utf8_char c =
     (if c < 0x80 then [c]
      else if c < 0x800 then [0xC0 + c div 64, 0x80 + c mod 64]
      else if c < 0x10000 then [0xE0 + c div 4096, 0x80 + c div 64 mod 64, 0x80 + c mod 64]
      else [0xF0 + c div 262144, 0x80 + c div 4096 mod 64, 0x80 + c div 64 mod 64, 0x80 + c mod 64])"

definition utf8_nats :: "js_string \<Rightarrow> nat list" where
  "utf8_nats t = concat (map (\<lambda>c. utf8_char (if surrogate c then 0xFFFD else c)) t)"

definition utf8_encode :: "js_string \<Rightarrow> bytes" where
  "utf8_encode t = map word_of_nat (utf8_nats t)"

definition cont_byte :: "nat \<Rightarrow> bool" where
  "cont_byte x \<longleftrightarrow> 0x80 \<le> x \<and> x < 0xC0"

fun utf8_parse :: "nat list \<Rightarrow> js_string option" where
  "utf8_parse [] = Some []"
| "utf8_parse (x # xs) =
     (if x < 0x80 then map_option ((#) x) (utf8_parse xs)
      else if x < 0xC2 then None
      else if x < 0xE0 then
        (case xs of
           y # ys \<Rightarrow>
             if cont_byte y then map_option ((#) ((x - 0xC0) * 64 + (y - 0x80))) (utf8_parse ys)
             else None
         | _ \<Rightarrow> None)
      else if x < 0xF0 then
        (case xs of
           y # z # zs \<Rightarrow>
             let c = (x - 0xE0) * 4096 + (y - 0x80) * 64 + (z - 0x80)
             in if cont_byte y \<and> cont_byte z \<and> 0x800 \<le> c \<and> \<not> surrogate c
                then map_option ((#) c) (utf8_parse zs)
                else None
         | _ \<Rightarrow> None)
      else if x < 0xF5 then
        (case xs of
           y # z # w # ws \<Rightarrow>
             let c = (x - 0xF0) * 262144 + (y - 0x80) * 4096 + (z - 0x80) * 64 + (w - 0x80)
             in if cont_byte y \<and> cont_byte z \<and> cont_byte w \<and> 0x10000 \<le> c \<and> c \<le> 0x10FFFF
                then map_option ((#) c) (utf8_parse ws)
                else None
         | _ \<Rightarrow> None)
      else None)"

definition utf8_decode :: "bytes \<Rightarrow> js_string option" where
  "utf8_decode bs = utf8_parse (map unat bs)"


section \<open>Round trips\<close>

lemma cont_byte_offset [simp]: "b < 64 \<Longrightarrow> cont_byte (0x80 + b)"
  by (simp add: cont_byte_def)

lemma digits64:
  "(c :: nat) div 4096 * 64 + c div 64 mod 64 = c div 64"
  "c div 262144 * 64 + c div 4096 mod 64 = c div 4096"
  "c div 64 * 64 + c mod 64 = c"
proof -
  have "c div 4096 = c div 64 div 64" and "c div 262144 = c div 4096 div 64"
    by (simp_all add: div_mult2_eq [symmetric])
  then show "c div 4096 * 64 + c div 64 mod 64 = c div 64"
    and "c div 262144 * 64 + c div 4096 mod 64 = c div 4096"
    and "c div 64 * 64 + c mod 64 = c"
    by simp_all
qed

lemma three_digits: "(c :: nat) div 4096 * 4096 + c div 64 mod 64 * 64 + c mod 64 = c"
  using digits64 [of c] by linarith

lemma four_digits:
  "(c :: nat) div 262144 * 262144 + c div 4096 mod 64 * 4096 + c div 64 mod 64 * 64 + c mod 64 = c"
  using digits64 [of c] by linarith

lemma utf8_parse_char:
  assumes "scalar_value c"
  shows "utf8_parse (utf8_char c @ rest) = map_option ((#) c) (utf8_parse rest)"
proof -
  consider "c < 0x80" | "0x80 \<le> c" "c < 0x800" | "0x800 \<le> c" "c < 0x10000" | "0x10000 \<le> c"
    by linarith
  then show ?thesis
  proof cases
    case 1
    then show ?thesis by (simp add: utf8_char_def)
  next
    case 2
    have "2 \<le> c div 64" "c div 64 < 32"
      using 2 by (auto simp: less_mult_imp_div_less div_le_mono [of 128 c 64, simplified])
    then show ?thesis
      using 2 by (simp add: utf8_char_def)
  next
    case 3
    have "c div 4096 < 16"
      using 3 by (simp add: less_mult_imp_div_less)
    then show ?thesis
      using 3 assms three_digits [of c] by (simp add: utf8_char_def scalar_value_def Let_def)
  next
    case 4
    have "c < 5 * 262144"
      using assms by (simp add: scalar_value_def)
    then have "c div 262144 < 5"
      by (rule less_mult_imp_div_less)
    then show ?thesis
      using 4 assms four_digits [of c] by (simp add: utf8_char_def scalar_value_def Let_def)
  qed
qed

lemma utf8_parse_nats:
  "list_all scalar_value t \<Longrightarrow> utf8_parse (utf8_nats t) = Some t"
proof (induction t)
  case Nil
  then show ?case by (simp add: utf8_nats_def)
next
  case (Cons c t)
  then have "utf8_nats (c # t) = utf8_char c @ utf8_nats t"
    by (simp add: utf8_nats_def scalar_value_def)
  with Cons show ?case
    using utf8_parse_char [of c "utf8_nats t"] by simp
qed

lemma utf8_char_less: "c \<le> 0x10FFFF \<Longrightarrow> x \<in> set (utf8_char c) \<Longrightarrow> x < 256"
proof -
  assume c: "c \<le> 0x10FFFF" and x: "x \<in> set (utf8_char c)"
  have "c div 262144 < 5"
    using c by (simp add: less_mult_imp_div_less)
  moreover have "c < 0x800 \<Longrightarrow> c div 64 < 32" and "c < 0x10000 \<Longrightarrow> c div 4096 < 16"
    by (simp_all add: less_mult_imp_div_less)
  moreover have "y mod 64 < 64" for y :: nat
    by simp
  ultimately show ?thesis
    using x by (auto simp: utf8_char_def split: if_splits intro: less_trans)
qed

text \<open>Every accepted sequence is the encoding of its first character followed by an accepted rest.\<close>

lemma utf8_char_two: "2 \<le> a \<Longrightarrow> a < 32 \<Longrightarrow> b < 64 \<Longrightarrow> utf8_char (a * 64 + b) = [0xC0 + a, 0x80 + b]"
  by (simp add: utf8_char_def)

lemma split64: "d < 64 \<Longrightarrow> (q * 64 + d) div 64 = q" "d < 64 \<Longrightarrow> (q * 64 + d) mod 64 = (d :: nat)"
  by simp_all

lemma utf8_char_three:
  assumes "a < 16" and "b < 64" and "d < 64" and "0x800 \<le> a * 4096 + b * 64 + d"
  shows "utf8_char (a * 4096 + b * 64 + d) = [0xE0 + a, 0x80 + b, 0x80 + d]"
proof -
  let ?c = "a * 4096 + b * 64 + d"
  have c: "?c = (a * 64 + b) * 64 + d"
    by simp
  have "?c div 64 = a * 64 + b" and "?c mod 64 = d"
    unfolding c by (rule split64, rule assms)+
  moreover have "?c div 4096 = a" and "?c < 0x10000"
    using assms by (simp_all add: div_nat_eqI)
  ultimately show ?thesis
    using assms by (simp add: utf8_char_def)
qed

lemma utf8_char_four:
  assumes "b < 64" and "d < 64" and "e < 64" and "0x10000 \<le> a * 262144 + b * 4096 + d * 64 + e"
  shows "utf8_char (a * 262144 + b * 4096 + d * 64 + e) = [0xF0 + a, 0x80 + b, 0x80 + d, 0x80 + e]"
proof -
  let ?c = "a * 262144 + b * 4096 + d * 64 + e"
  have c: "?c = ((a * 64 + b) * 64 + d) * 64 + e"
    by simp
  have q: "?c div 64 = (a * 64 + b) * 64 + d" and "?c mod 64 = e"
    unfolding c by (rule split64, rule assms)+
  moreover have "?c div 64 mod 64 = d"
    unfolding q by (rule split64) (rule assms)
  moreover have "?c div 4096 = a * 64 + b" and "?c div 262144 = a"
    using assms by (simp_all add: div_nat_eqI)
  ultimately show ?thesis
    using assms unfolding utf8_char_def by (simp only: if_False not_less) simp
qed

lemma cont_byte_digit: "cont_byte y \<Longrightarrow> y - 0x80 < 64 \<and> 0x80 + (y - 0x80) = y"
  unfolding cont_byte_def by linarith

lemma utf8_nats_Cons: "scalar_value c \<Longrightarrow> utf8_nats (c # t) = utf8_char c @ utf8_nats t"
  by (simp add: utf8_nats_def scalar_value_def)

lemma utf8_parse_sound: "utf8_parse xs = Some t \<Longrightarrow> list_all scalar_value t \<and> utf8_nats t = xs"
proof (induction xs arbitrary: t rule: utf8_parse.induct)
  case 1
  then show ?case by (simp add: utf8_nats_def)
next
  case (2 x xs)
  consider "x < 0x80" | "0xC2 \<le> x" "x < 0xE0" | "0xE0 \<le> x" "x < 0xF0" | "0xF0 \<le> x" "x < 0xF5"
    using "2.prems" by (auto split: if_splits)
  then show ?case
  proof cases
    case 1
    then obtain t' where t: "t = x # t'" "utf8_parse xs = Some t'"
      using "2.prems" by auto
    have "scalar_value x"
      using 1 by (simp add: scalar_value_def surrogate_def)
    then show ?thesis
      using "2.IH"(1) [OF 1 t(2)] t(1) 1 by (simp add: utf8_nats_Cons utf8_char_def)
  next
    case two: 2
    then obtain y ys t' where y: "xs = y # ys" "cont_byte y" "utf8_parse ys = Some t'"
        "t = ((x - 0xC0) * 64 + (y - 0x80)) # t'"
      using "2.prems" by (auto split: list.splits if_splits)
    let ?c = "(x - 0xC0) * 64 + (y - 0x80)"
    have ch: "utf8_char ?c = [x, y]"
      using utf8_char_two [of "x - 0xC0" "y - 0x80"] two cont_byte_digit [OF y(2)] by simp
    have "?c < 0x800"
      using two cont_byte_digit [OF y(2)] by linarith
    then have "scalar_value ?c"
      by (simp add: scalar_value_def surrogate_def)
    then show ?thesis
      using "2.IH"(2) [of y ys t'] two y ch by (simp add: utf8_nats_Cons)
  next
    case three: 3
    let ?f = "\<lambda>y z. (x - 0xE0) * 4096 + (y - 0x80) * 64 + (z - 0x80)"
    obtain y z zs t' where y: "xs = y # z # zs" "cont_byte y" "cont_byte z" "0x800 \<le> ?f y z"
        "\<not> surrogate (?f y z)" "utf8_parse zs = Some t'" "t = ?f y z # t'"
      using three "2.prems" by (auto simp: Let_def split: list.splits if_splits)
    have ch: "utf8_char (?f y z) = [x, y, z]"
      using utf8_char_three [of "x - 0xE0" "y - 0x80" "z - 0x80"] three y(4)
        cont_byte_digit [OF y(2)] cont_byte_digit [OF y(3)] by simp
    have "?f y z < 0x10000"
      using three cont_byte_digit [OF y(2)] cont_byte_digit [OF y(3)] by linarith
    then have "scalar_value (?f y z)"
      using y(5) by (simp add: scalar_value_def)
    then show ?thesis
      using "2.IH"(3) [of y "z # zs" z zs _ t'] three y ch by (simp add: utf8_nats_Cons)
  next
    case four: 4
    let ?f = "\<lambda>y z w. (x - 0xF0) * 262144 + (y - 0x80) * 4096 + (z - 0x80) * 64 + (w - 0x80)"
    obtain y z w ws t' where y: "xs = y # z # w # ws" "cont_byte y" "cont_byte z" "cont_byte w"
        "0x10000 \<le> ?f y z w" "?f y z w \<le> 0x10FFFF" "utf8_parse ws = Some t'" "t = ?f y z w # t'"
      using four "2.prems" by (auto simp: Let_def split: list.splits if_splits)
    have ch: "utf8_char (?f y z w) = [x, y, z, w]"
      using utf8_char_four [of "y - 0x80" "z - 0x80" "w - 0x80" "x - 0xF0"] four y(5)
        cont_byte_digit [OF y(2)] cont_byte_digit [OF y(3)] cont_byte_digit [OF y(4)] by simp
    have "scalar_value (?f y z w)"
      using y(5,6) by (simp add: scalar_value_def surrogate_def)
    then show ?thesis
      using "2.IH"(4) [of y "z # w # ws" z "w # ws" w ws _ t'] four y ch by (simp add: utf8_nats_Cons)
  qed
qed

lemma utf8_nats_less: "list_all (\<lambda>c. c \<le> 0x10FFFF) t \<Longrightarrow> list_all (\<lambda>x. x < 256) (utf8_nats t)"
  using utf8_char_less [of "0xFFFD"]
  by (induction t) (auto simp: utf8_nats_def list_all_iff intro: utf8_char_less)

lemma map_unat_of_nat: "list_all (\<lambda>x. x < 256) xs \<Longrightarrow> map unat (map word_of_nat xs :: bytes) = xs"
  by (induction xs) (auto simp: unat_of_nat)

theorem utf8_decode_iff:
  "utf8_decode bs = Some t \<longleftrightarrow> list_all scalar_value t \<and> bs = utf8_encode t"
proof
  assume "utf8_decode bs = Some t"
  then have t: "list_all scalar_value t" "utf8_nats t = map unat bs"
    using utf8_parse_sound by (auto simp: utf8_decode_def)
  then have "utf8_encode t = bs"
    by (simp add: utf8_encode_def comp_def)
  with t show "list_all scalar_value t \<and> bs = utf8_encode t"
    by simp
next
  assume t: "list_all scalar_value t \<and> bs = utf8_encode t"
  then have "list_all (\<lambda>c. c \<le> 0x10FFFF) t"
    by (auto simp: list_all_iff scalar_value_def)
  then have "map unat bs = utf8_nats t"
    using t utf8_nats_less map_unat_of_nat unfolding utf8_encode_def by blast
  then show "utf8_decode bs = Some t"
    using t utf8_parse_nats by (simp add: utf8_decode_def)
qed

end
