(* ===== verification/PolyfsPath.thy ===== *)
theory PolyfsPath
  imports Utf8
begin

text \<open>
  The policy of stored file names (\<open>lib/polyfsPath.ts\<close>). Strings are lists of code points.
\<close>

definition POLYFS_RECORD_PATH_MAX_BYTES :: nat where
  "POLYFS_RECORD_PATH_MAX_BYTES = 232"

text \<open>The code points of the Unicode property \<open>White_Space\<close>.\<close>

definition white_space :: "nat \<Rightarrow> bool" where
  "white_space c \<longleftrightarrow>
     (9 \<le> c \<and> c \<le> 13) \<or> c = 0x20 \<or> c = 0x85 \<or> c = 0xA0 \<or> c = 0x1680
     \<or> (0x2000 \<le> c \<and> c \<le> 0x200A) \<or> c = 0x2028 \<or> c = 0x2029 \<or> c = 0x202F \<or> c = 0x205F \<or> c = 0x3000"

text \<open>\<open>String.prototype.split\<close> with a separator of one character.\<close>

fun split_on :: "'a \<Rightarrow> 'a list \<Rightarrow> 'a list list" where
  "split_on sep [] = [[]]"
| "split_on sep (x # xs) =
     (if x = sep then [] # split_on sep xs
      else case split_on sep xs of [] \<Rightarrow> [[x]] | p # ps \<Rightarrow> (x # p) # ps)"

definition validatePolyfsRecordPath :: "js_string \<Rightarrow> js_string result" where
  "validatePolyfsRecordPath value =
     (if value = [] \<or> white_space (hd value) \<or> white_space (last value)
      then Inl ''PolyFS path is empty or has outer whitespace''
      else
        let encoded = utf8_encode value in
        if length encoded > POLYFS_RECORD_PATH_MAX_BYTES \<or> utf8_decode encoded \<noteq> Some value
        then Inl ''PolyFS path must be valid UTF-8 of at most 232 bytes''
        else if hd value = 0x2F \<or> list_ex (\<lambda>c. c = 0x5C \<or> c < 0x20 \<or> c = 0x7F) value
                \<or> [0x2E, 0x2E] \<in> set (split_on 0x2F value)
        then Inl ''invalid PolyFS path''
        else Inr value)"


section \<open>What an accepted path is\<close>

lemma split_on_nonempty [simp]: "split_on sep xs \<noteq> []"
  by (induction xs) (auto split: list.splits)

text \<open>\<open>join\<close> with the separator undoes \<open>split\<close>, and no part holds the separator.\<close>

fun join_with :: "'a \<Rightarrow> 'a list list \<Rightarrow> 'a list" where
  "join_with sep [] = []"
| "join_with sep [p] = p"
| "join_with sep (p # q # ps) = p @ [sep] @ join_with sep (q # ps)"

lemma join_with_Cons_head: "join_with sep ((x # p) # ps) = x # join_with sep (p # ps)"
  by (cases ps) auto

lemma join_split: "join_with sep (split_on sep xs) = xs"
proof (induction xs)
  case Nil
  then show ?case by simp
next
  case (Cons x xs)
  obtain p ps where "split_on sep xs = p # ps"
    by (cases "split_on sep xs") auto
  with Cons show ?case
    by (simp add: join_with_Cons_head)
qed

lemma split_parts_free: "p \<in> set (split_on sep xs) \<Longrightarrow> sep \<notin> set p"
proof (induction xs arbitrary: p)
  case Nil
  then show ?case by simp
next
  case (Cons x xs)
  obtain q qs where q: "split_on sep xs = q # qs"
    by (cases "split_on sep xs") auto
  with Cons show ?case
    by (auto split: if_splits)
qed

lemma validatePolyfsRecordPath_Inr:
  "validatePolyfsRecordPath v = Inr w \<Longrightarrow>
   w = v \<and> v \<noteq> [] \<and> length (utf8_encode v) \<le> 232 \<and> list_all scalar_value v
   \<and> hd v \<noteq> 0x2F \<and> 0 \<notin> set v \<and> [0x2E, 0x2E] \<notin> set (split_on 0x2F v)"
  by (auto simp: validatePolyfsRecordPath_def POLYFS_RECORD_PATH_MAX_BYTES_def Let_def
      utf8_decode_iff list_ex_iff split: if_splits)

end
