(* ===== verification/PolyfsLocal.thy ===== *)
theory PolyfsLocal
  imports PolyfsLayout PolyfsPath
begin

text \<open>
  Reading a PolyFS slab (\<open>lib/polyfsLocal.ts\<close>): the logical byte range of the file table,
  the root table, file records, the parser of MDU 0, and the reassembly of an MDU from the
  slot slices of a Mode 2 stripe. The sizes are those of \<open>PolyfsLayout\<close>. A \<open>bigint\<close> of a
  record is a \<open>nat\<close>; \<open>Number\<close> of one past the safe range is not safe, so the guard
  refuses it as it refuses the exact value.
\<close>

definition FILE_TABLE_START :: nat where
  "FILE_TABLE_START = 16 * BLOB_SIZE_BYTES"

definition FILE_TABLE_HEADER_SIZE :: nat where
  "FILE_TABLE_HEADER_SIZE = 128"

definition FILE_RECORD_SIZE :: nat where
  "FILE_RECORD_SIZE = 256"

definition FR :: bytes where
  "FR = map word_of_nat
     [0x73, 0xed, 0xa7, 0x53, 0x29, 0x9d, 0x7d, 0x48, 0x33, 0x39, 0xd8, 0x08, 0x09, 0xa1, 0xd8, 0x05,
      0x53, 0xbd, 0xa4, 0x02, 0xff, 0xfe, 0x5b, 0xfe, 0xff, 0xff, 0xff, 0xff, 0x00, 0x00, 0x00, 0x01 :: nat]"

lemma local_values [simp]:
  "FILE_TABLE_START = 2097152" "FILE_TABLE_HEADER_SIZE = 128" "FILE_RECORD_SIZE = 256"
  by (simp_all add: FILE_TABLE_START_def FILE_TABLE_HEADER_SIZE_def FILE_RECORD_SIZE_def)

definition requireMdu0 :: "bytes \<Rightarrow> unit result" where
  "requireMdu0 mdu0 = (if length mdu0 \<noteq> MDU_SIZE_BYTES then Inl ''invalid MDU0 size'' else Inr ())"


section \<open>The file table as a logical byte range\<close>

definition readPolyfsFatRange :: "bytes \<Rightarrow> jsnum \<Rightarrow> jsnum \<Rightarrow> bytes result" where
  "readPolyfsFatRange mdu0 offset len =
     sbind (requireMdu0 mdu0) (\<lambda>_.
     sbind (asNonNegativeInteger offset ''FAT offset'') (\<lambda>off.
     sbind (asNonNegativeInteger len ''FAT length'') (\<lambda>n.
     if off > POLYFS_FAT_LOGICAL_BYTES \<or> n > POLYFS_FAT_LOGICAL_BYTES - off
     then Inl ''FAT range out of bounds''
     else Inr (map (\<lambda>i. let logical = off + i
                        in mdu0 ! (FILE_TABLE_START + logical div 31 * 32 + 1 + logical mod 31)) [0..<n]))))"


section \<open>The root table\<close>

text \<open>The inner loop of \<open>validateRootCells\<close>: the first difference of two cells, or zero.\<close>

fun cell_comparison :: "bytes \<Rightarrow> bytes \<Rightarrow> int" where
  "cell_comparison (x # xs) (y # ys) =
     (let comparison = int (unat x) - int (unat y)
      in if comparison \<noteq> 0 then comparison else cell_comparison xs ys)"
| "cell_comparison _ _ = 0"

definition validateRootCells :: "bytes \<Rightarrow> unit result" where
  "validateRootCells mdu0 =
     (if \<exists>cell \<in> set [0..<FILE_TABLE_START div 32].
           cell_comparison (subarray (32 * cell) (32 * cell + 32) mdu0) FR \<ge> 0
      then Inl ''noncanonical root-table scalar'' else Inr ())"

definition validateAuthenticatedMdu0Structure :: "bytes \<Rightarrow> jsnum \<Rightarrow> nat result" where
  "validateAuthenticatedMdu0Structure mdu0 count =
     sbind (requireMdu0 mdu0) (\<lambda>_.
     sbind (validateRootCells mdu0) (\<lambda>_.
     if \<exists>cell \<in> set [FILE_TABLE_START div 32..<length mdu0 div 32]. mdu0 ! (32 * cell) \<noteq> 0
     then Inl ''nonzero FAT scalar reserved byte''
     else
     sbind (asNonNegativeInteger count ''FAT record count'') (\<lambda>n.
     if n > POLYFS_FILE_RECORD_CAPACITY then Inl ''FAT record count exceeds capacity''
     else
     let end_pos = FILE_TABLE_HEADER_SIZE + n * FILE_RECORD_SIZE;
         physicalEnd = FILE_TABLE_START + end_pos div 31 * 32 + 1 + end_pos mod 31
     in if \<exists>i \<in> set [physicalEnd..<length mdu0]. mdu0 ! i \<noteq> 0 then Inl ''nonzero FAT padding''
        else Inr n)))"

definition parsePolyfsRootTableFromMdu0 :: "bytes \<Rightarrow> jsnum \<Rightarrow> bytes list result" where
  "parsePolyfsRootTableFromMdu0 mdu0 count =
     sbind (requireMdu0 mdu0) (\<lambda>_.
     sbind (asNonNegativeInteger count ''root count'') (\<lambda>n.
     if n > POLYFS_ROOT_TABLE_CAPACITY then Inl ''root count exceeds capacity''
     else
     sbind (validateRootCells mdu0) (\<lambda>_.
     Inr (map (\<lambda>i. subarray (i * 32) ((i + 1) * 32) mdu0) [0..<n]))))"

text \<open>\<open>bytes.reduce((n, b) => (n << 8n) | BigInt(b), 0n)\<close>\<close>

definition integer_of :: "bytes \<Rightarrow> nat" where
  "integer_of bs = foldl (\<lambda>n b. push_bit 8 n OR unat b) 0 bs"

definition assertPolyfsRootCell :: "bytes \<Rightarrow> bytes \<Rightarrow> unit result" where
  "assertPolyfsRootCell digest cell =
     (if length digest \<noteq> 32 \<or> length cell \<noteq> 32 then Inl ''invalid root identity''
      else
        let modulus = integer_of FR; expected = integer_of cell in
        if expected \<ge> modulus \<or> integer_of digest mod modulus \<noteq> expected
        then Inl ''MDU does not match authenticated root-table cell''
        else Inr ())"


section \<open>File records\<close>

record file_record =
  fr_path :: js_string
  fr_start_offset :: nat
  fr_size_bytes :: nat
  fr_timestamp :: nat
  fr_flags :: nat

text \<open>\<open>indexOf(0)\<close> of a byte array; \<open>None\<close> stands for -1.\<close>

fun index_of_zero :: "bytes \<Rightarrow> nat option" where
  "index_of_zero [] = None"
| "index_of_zero (b # bs) = (if b = 0 then Some 0 else map_option Suc (index_of_zero bs))"

definition decodePolyfsFileRecord :: "bytes \<Rightarrow> file_record result" where
  "decodePolyfsFileRecord bytes =
     (if length bytes \<noteq> FILE_RECORD_SIZE then Inl ''invalid file record size''
      else
        let start = le_val (subarray 0 8 bytes);
            packed = le_val (subarray 8 16 bytes);
            size = packed AND 0x00ffffffffffffff
        in
        if start + size > 0xffffffffffffffff then Inl ''file extent overflow''
        else
        let pathBytes = drop 24 bytes; terminator = index_of_zero pathBytes in
        if (case terminator of None \<Rightarrow> False | Some t \<Rightarrow> list_ex (\<lambda>v. v \<noteq> 0) (drop t pathBytes))
        then Inl ''nonzero file path suffix''
        else
        case utf8_decode (case terminator of None \<Rightarrow> pathBytes | Some t \<Rightarrow> take t pathBytes) of
          None \<Rightarrow> Inl ''The encoded data was not valid for encoding utf-8''
        | Some path \<Rightarrow>
            sbind (if path \<noteq> [] then validatePolyfsRecordPath path else Inr path) (\<lambda>_.
            Inr \<lparr>fr_path = path, fr_start_offset = start, fr_size_bytes = size,
                 fr_timestamp = le_val (subarray 16 24 bytes), fr_flags = drop_bit 56 packed\<rparr>))"


section \<open>The records of MDU 0\<close>

definition validatedRecordCount :: "bytes \<Rightarrow> nat result" where
  "validatedRecordCount mdu0 =
     sbind (requireMdu0 mdu0) (\<lambda>_.
     sbind (readPolyfsFatRange mdu0 (num 0) (num FILE_TABLE_HEADER_SIZE)) (\<lambda>header.
     case utf8_decode (subarray 0 4 header) of
       None \<Rightarrow> Inl ''The encoded data was not valid for encoding utf-8''
     | Some magic \<Rightarrow>
         if magic \<noteq> ascii ''NILF'' \<or> header ! 4 \<noteq> 2 \<or> header ! 5 \<noteq> 0
            \<or> le_val (subarray 6 8 header) \<noteq> FILE_RECORD_SIZE \<or> list_ex (\<lambda>v. v \<noteq> 0) (drop 12 header)
         then Inl ''invalid or unsupported FAT v2 header; legacy recovery must be explicit''
         else Inr (le_val (subarray 8 12 header))))"

text \<open>The loop over the records; \<open>paths\<close> is the set of the active paths seen so far.\<close>

fun record_loop :: "bytes \<Rightarrow> js_string list \<Rightarrow> nat list \<Rightarrow> file_record list result" where
  "record_loop mdu0 paths [] = Inr []"
| "record_loop mdu0 paths (i # is) =
     sbind (readPolyfsFatRange mdu0 (num (FILE_TABLE_HEADER_SIZE + i * FILE_RECORD_SIZE)) (num FILE_RECORD_SIZE)) (\<lambda>b.
     sbind (decodePolyfsFileRecord b) (\<lambda>record.
     if fr_path record \<noteq> [] \<and> fr_path record \<in> set paths then Inl ''duplicate active file path''
     else
     sbind (record_loop mdu0 (if fr_path record \<noteq> [] then fr_path record # paths else paths) is) (\<lambda>rest.
     Inr (record # rest))))"

definition parsePolyfsRecordsFromAuthenticatedMdu0 :: "bytes \<Rightarrow> jsnum \<Rightarrow> file_record list result" where
  "parsePolyfsRecordsFromAuthenticatedMdu0 mdu0 count =
     sbind (validateAuthenticatedMdu0Structure mdu0 count) (\<lambda>n. record_loop mdu0 [] [0..<n])"

definition parsePolyfsRecordsFromMdu0 :: "bytes \<Rightarrow> file_record list result" where
  "parsePolyfsRecordsFromMdu0 mdu0 =
     sbind (validatedRecordCount mdu0) (\<lambda>n. parsePolyfsRecordsFromAuthenticatedMdu0 mdu0 (num n))"

record file_entry =
  fe_path :: js_string
  fe_start_offset :: nat
  fe_size_bytes :: nat
  fe_flags :: nat

definition file_entry_of :: "file_record \<Rightarrow> file_entry result" where
  "file_entry_of record =
     sbind (asNonNegativeInteger (num (fr_start_offset record)) ''start offset'') (\<lambda>start.
     sbind (asNonNegativeInteger (num (fr_size_bytes record)) ''file size'') (\<lambda>size.
     sbind (asNonNegativeInteger (num (start + size)) ''file end'') (\<lambda>_.
     Inr \<lparr>fe_path = fr_path record, fe_start_offset = start, fe_size_bytes = size, fe_flags = fr_flags record\<rparr>)))"

definition parsePolyfsFilesFromMdu0 :: "bytes \<Rightarrow> file_entry list result" where
  "parsePolyfsFilesFromMdu0 mdu0 =
     sbind (parsePolyfsRecordsFromMdu0 mdu0) (\<lambda>records.
     smap file_entry_of (filter (\<lambda>r. fr_path r \<noteq> []) records))"


section \<open>Mode 2 stripes\<close>

definition mode2RowsForK :: "jsnum \<Rightarrow> nat result" where
  "mode2RowsForK k =
     sbind (asNonNegativeInteger k ''k'') (\<lambda>normalized.
     if normalized = 0 \<or> 64 mod normalized \<noteq> 0 then Inl (''invalid Mode 2 K: '' @ dec_string normalized)
     else Inr (64 div normalized))"

text \<open>\<open>buffer.set(source, offset)\<close> of a typed array, for a source that fits.\<close>

definition set_bytes :: "'a list \<Rightarrow> nat \<Rightarrow> 'a list \<Rightarrow> 'a list" where
  "set_bytes src off buf = take off buf @ src @ drop (off + length src) buf"

fun collect_slices :: "nat \<Rightarrow> nat \<Rightarrow> (nat \<rightharpoonup> bytes) \<Rightarrow> (jsnum \<times> bytes) list \<Rightarrow> (nat \<rightharpoonup> bytes) result" where
  "collect_slices k expected bySlot [] = Inr bySlot"
| "collect_slices k expected bySlot ((s, data) # slices) =
     sbind (asNonNegativeInteger s ''slot'') (\<lambda>slot.
     if slot \<ge> k \<or> bySlot slot \<noteq> None then Inl ''invalid or duplicate data slot''
     else if length data \<noteq> expected
     then Inl (''invalid Mode 2 slot slice for slot '' @ dec_string slot @ '': expected '' @ dec_string expected @ '' bytes'')
     else collect_slices k expected (bySlot(slot \<mapsto> data)) slices)"

definition reconstructMduFromMode2SlotSlices :: "(jsnum \<times> bytes) list \<Rightarrow> jsnum \<Rightarrow> bytes result" where
  "reconstructMduFromMode2SlotSlices slotSlices kk =
     sbind (mode2RowsForK kk) (\<lambda>rows.
     sbind (asNonNegativeInteger kk ''k'') (\<lambda>k.
     sbind (collect_slices k (rows * BLOB_SIZE_BYTES) Map.empty slotSlices) (\<lambda>bySlot.
     case find (\<lambda>slot. bySlot slot = None) [0..<k] of
       Some slot \<Rightarrow> Inl (''missing Mode 2 slot slice for slot '' @ dec_string slot)
     | None \<Rightarrow>
         Inr (foldl (\<lambda>mdu (row, slot).
                       let shard = the (bySlot slot); shardOff = row * BLOB_SIZE_BYTES;
                           blobIndex = row * k + slot; mduOff = blobIndex * BLOB_SIZE_BYTES
                       in set_bytes (subarray shardOff (shardOff + BLOB_SIZE_BYTES) shard) mduOff mdu)
                    (replicate MDU_SIZE_BYTES 0)
                    (List.product [0..<rows] [0..<k])))))"


section \<open>Root cells as integers below the field order\<close>

lemma cell_comparison_be_val:
  "length xs = length ys \<Longrightarrow> cell_comparison xs ys < 0 \<longleftrightarrow> be_val xs < be_val ys"
proof (induction xs ys rule: list_induct2)
  case Nil
  then show ?case by simp
next
  case (Cons x xs y ys)
  let ?B = "256 ^ length xs :: nat"
  have bx: "be_val xs < ?B" and by': "be_val ys < ?B"
    using be_val_less [of xs] be_val_less [of ys] Cons.hyps by simp_all
  have gap: "u * ?B + v < w * ?B + z" if "u < w" "v < ?B" for u v w z :: nat
  proof -
    have "u * ?B + v < Suc u * ?B"
      using that by simp
    also have "\<dots> \<le> w * ?B"
      using that by (intro mult_le_mono1) simp
    finally show ?thesis by simp
  qed
  have u: "uint x < uint y \<longleftrightarrow> unat x < unat y" "uint x = uint y \<longleftrightarrow> unat x = unat y"
    by (simp_all flip: word_less_nat_alt word_less_alt word_unat_eq_iff word_uint_eq_iff)
  consider "unat x < unat y" | "unat y < unat x" | "unat x = unat y"
    by linarith
  then show ?case
  proof cases
    case 1
    then show ?thesis
      using gap [OF 1 bx, of "be_val ys"] Cons.hyps u by (simp add: be_val_Cons)
  next
    case 2
    then show ?thesis
      using gap [OF 2 by', of "be_val xs"] Cons.hyps u by (simp add: be_val_Cons)
  next
    case 3
    then show ?thesis
      using Cons by (simp add: be_val_Cons)
  qed
qed

lemma length_FR [simp]: "length FR = 32"
  by (simp add: FR_def)

definition root_cell :: "bytes \<Rightarrow> nat \<Rightarrow> bytes" where
  "root_cell mdu0 i = subarray (32 * i) (32 * i + 32) mdu0"

lemma validateRootCells_Inr:
  assumes "length mdu0 = MDU_SIZE_BYTES"
  shows "validateRootCells mdu0 = Inr u \<longleftrightarrow> (\<forall>i < 65536. be_val (root_cell mdu0 i) < be_val FR)"
proof -
  have "cell_comparison (root_cell mdu0 i) FR < 0 \<longleftrightarrow> be_val (root_cell mdu0 i) < be_val FR"
    if "i < 65536" for i
    using that assms by (intro cell_comparison_be_val) (simp add: root_cell_def)
  then show ?thesis
    by (auto simp: validateRootCells_def root_cell_def not_le)
qed

lemma integer_of_be_val: "integer_of bs = be_val bs"
proof (induction bs rule: rev_induct)
  case Nil
  then show ?case by (simp add: integer_of_def)
next
  case (snoc b bs)
  have "push_bit 8 (be_val bs) OR unat b = be_val bs * 2 ^ 8 + unat b"
    by (rule push_bit_or_disjoint) (use unat_byte_less [of b] in simp)
  then show ?case
    using snoc by (simp add: integer_of_def be_val_snoc)
qed

lemma be_val_inject: "length xs = length ys \<Longrightarrow> be_val xs = be_val ys \<longleftrightarrow> xs = ys"
  by (metis be_bytes_be_val)


section \<open>File records have one encoding\<close>

text \<open>The format of a record: three little-endian words and the path, padded with zeros.\<close>

definition encode_file_record :: "file_record \<Rightarrow> bytes" where
  "encode_file_record r =
     le_bytes 8 (fr_start_offset r) @ le_bytes 8 (fr_flags r * 2 ^ 56 + fr_size_bytes r)
     @ le_bytes 8 (fr_timestamp r) @ utf8_encode (fr_path r)
     @ replicate (232 - length (utf8_encode (fr_path r))) 0"

definition valid_record :: "file_record \<Rightarrow> bool" where
  "valid_record r \<longleftrightarrow>
     fr_size_bytes r < 2 ^ 56 \<and> fr_flags r < 256 \<and> fr_timestamp r < 2 ^ 64
     \<and> fr_start_offset r + fr_size_bytes r < 2 ^ 64
     \<and> (fr_path r = [] \<or> validatePolyfsRecordPath (fr_path r) = Inr (fr_path r))"

lemma index_of_zero_None: "index_of_zero bs = None \<longleftrightarrow> 0 \<notin> set bs"
  by (induction bs) auto

lemma index_of_zero_Some:
  "index_of_zero bs = Some t \<Longrightarrow> t < length bs \<and> 0 \<notin> set (take t bs)"
  by (induction bs arbitrary: t) (auto split: if_splits)

lemma index_of_zero_append: "0 \<notin> set xs \<Longrightarrow> index_of_zero (xs @ 0 # ys) = Some (length xs)"
  by (induction xs) auto

lemma utf8_char_zero: "0 \<in> set (utf8_char c) \<longleftrightarrow> c = 0"
  by (auto simp: utf8_char_def)

lemma utf8_encode_zero:
  assumes "list_all scalar_value t" and "0 \<notin> set t"
  shows "0 \<notin> set (utf8_encode t)"
proof
  assume "0 \<in> set (utf8_encode t)"
  moreover have "map unat (utf8_encode t) = utf8_nats t"
    using assms(1) unfolding utf8_encode_def
    by (intro map_unat_of_nat utf8_nats_less) (auto simp: list_all_iff scalar_value_def)
  ultimately have "0 \<in> set (utf8_nats t)"
    by (metis image_eqI list.set_map unsigned_0)
  then show False
    using assms by (auto simp: utf8_nats_def utf8_char_zero list_all_iff scalar_value_def split: if_splits)
qed

text \<open>The path field: the bytes up to the terminator, and only zeros after it.\<close>

definition path_field :: "bytes \<Rightarrow> bytes" where
  "path_field b = (case index_of_zero b of None \<Rightarrow> b | Some t \<Rightarrow> take t b)"

lemma index_of_zero_pad:
  "0 \<notin> set p \<Longrightarrow> index_of_zero (p @ replicate n 0) = (if n = 0 then None else Some (length p))"
  by (cases n) (simp_all add: index_of_zero_append index_of_zero_None)

lemma path_field_pad: "0 \<notin> set p \<Longrightarrow> path_field (p @ replicate n 0) = p"
  by (simp add: path_field_def index_of_zero_pad)

lemma path_field_split:
  assumes "case index_of_zero b of None \<Rightarrow> True | Some t \<Rightarrow> \<not> list_ex (\<lambda>v. v \<noteq> 0) (drop t b)"
  shows "b = path_field b @ replicate (length b - length (path_field b)) 0"
proof (cases "index_of_zero b")
  case None
  then show ?thesis by (simp add: path_field_def)
next
  case (Some t)
  have t: "t < length b"
    using index_of_zero_Some [OF Some] by simp
  have "drop t b = replicate (length b - t) 0"
    using assms Some by (intro replicate_eqI) (auto simp: list_ex_iff)
  then have "b = take t b @ replicate (length b - t) 0"
    by (metis append_take_drop_id)
  then show ?thesis
    using Some t by (simp add: path_field_def)
qed

lemma decodePolyfsFileRecord_path_field:
  "decodePolyfsFileRecord b = Inr r \<longleftrightarrow>
     length b = 256
     \<and> le_val (subarray 0 8 b) + le_val (subarray 8 16 b) mod 2 ^ 56 < 2 ^ 64
     \<and> (case index_of_zero (drop 24 b) of
          None \<Rightarrow> True | Some t \<Rightarrow> \<not> list_ex (\<lambda>v. v \<noteq> 0) (drop t (drop 24 b)))
     \<and> utf8_decode (path_field (drop 24 b)) = Some (fr_path r)
     \<and> (fr_path r = [] \<or> validatePolyfsRecordPath (fr_path r) = Inr (fr_path r))
     \<and> fr_start_offset r = le_val (subarray 0 8 b)
     \<and> fr_size_bytes r = le_val (subarray 8 16 b) mod 2 ^ 56
     \<and> fr_timestamp r = le_val (subarray 16 24 b)
     \<and> fr_flags r = le_val (subarray 8 16 b) div 2 ^ 56"
proof -
  have ok: "(\<exists>x. validatePolyfsRecordPath p = Inr x) \<longleftrightarrow> validatePolyfsRecordPath p = Inr p" for p
    using validatePolyfsRecordPath_Inr by blast
  show ?thesis
    unfolding decodePolyfsFileRecord_def mask56 Let_def path_field_def
    by (cases r; cases "utf8_decode (case index_of_zero (drop 24 b) of None \<Rightarrow> drop 24 b | Some t \<Rightarrow> take t (drop 24 b))";
        cases "index_of_zero (drop 24 b)")
      (auto simp: sbind_eq_Inr ok drop_bit_eq_div)
qed

lemma le_bytes_subarray:
  "a + 8 \<le> length b \<Longrightarrow> le_bytes 8 (le_val (subarray a (a + 8) b)) = subarray a (a + 8) b"
  using le_bytes_le_val [of "subarray a (a + 8) b"] by simp

lemma le_val_subarray_less: "a + 8 \<le> length b \<Longrightarrow> le_val (subarray a (a + 8) b) < 2 ^ 64"
  using le_val_less [of "subarray a (a + 8) b"] by simp

lemma valid_record_path:
  assumes "valid_record r"
  shows "list_all scalar_value (fr_path r)" and "0 \<notin> set (utf8_encode (fr_path r))"
    and "length (utf8_encode (fr_path r)) \<le> 232"
proof -
  have "list_all scalar_value (fr_path r) \<and> 0 \<notin> set (fr_path r) \<and> length (utf8_encode (fr_path r)) \<le> 232"
    using assms validatePolyfsRecordPath_Inr [of "fr_path r" "fr_path r"]
    by (auto simp: valid_record_def utf8_encode_def utf8_nats_def)
  then show "list_all scalar_value (fr_path r)" and "0 \<notin> set (utf8_encode (fr_path r))"
    and "length (utf8_encode (fr_path r)) \<le> 232"
    using utf8_encode_zero by blast+
qed

lemma decode_record_sound:
  assumes "decodePolyfsFileRecord b = Inr r"
  shows "valid_record r \<and> b = encode_file_record r"
proof
  note d = assms [unfolded decodePolyfsFileRecord_path_field]
  have len: "length b = 256" and packed: "le_val (subarray 8 16 b) < 256 * 2 ^ 56"
      and ts: "le_val (subarray 16 24 b) < 2 ^ 64"
    using d le_val_subarray_less [of 8 b] le_val_subarray_less [of 16 b] by auto
  have "le_val (subarray 8 16 b) div 2 ^ 56 < 256"
    using packed by (rule less_mult_imp_div_less)
  then show "valid_record r"
    using d ts unfolding valid_record_def by simp
  have path: "path_field (drop 24 b) = utf8_encode (fr_path r)"
    using d by (simp add: utf8_decode_iff)
  have "b = subarray 0 8 b @ subarray 8 16 b @ subarray 16 24 b @ drop 24 b"
    using subarray_split [of 0 8 16 b] subarray_split [of 0 16 24 b]
    by (simp add: subarray_def) (metis append.assoc append_take_drop_id)
  also have "drop 24 b = utf8_encode (fr_path r) @ replicate (232 - length (utf8_encode (fr_path r))) 0"
    using path_field_split [of "drop 24 b"] d len path by simp
  also have "subarray 0 8 b = le_bytes 8 (fr_start_offset r)"
    using le_bytes_subarray [of 0 b] d len by simp
  also have "subarray 8 16 b = le_bytes 8 (fr_flags r * 2 ^ 56 + fr_size_bytes r)"
    using le_bytes_subarray [of 8 b] d len by (simp add: div_mult_mod_eq)
  also have "subarray 16 24 b = le_bytes 8 (fr_timestamp r)"
    using le_bytes_subarray [of 16 b] d len by simp
  finally show "b = encode_file_record r"
    unfolding encode_file_record_def .
qed

lemma encode_record_parts:
  assumes "valid_record r"
  shows "length (encode_file_record r) = 256"
    and "subarray 0 8 (encode_file_record r) = le_bytes 8 (fr_start_offset r)"
    and "subarray 8 16 (encode_file_record r) = le_bytes 8 (fr_flags r * 2 ^ 56 + fr_size_bytes r)"
    and "subarray 16 24 (encode_file_record r) = le_bytes 8 (fr_timestamp r)"
    and "drop 24 (encode_file_record r) =
           utf8_encode (fr_path r) @ replicate (232 - length (utf8_encode (fr_path r))) 0"
  using valid_record_path(3) [OF assms] by (simp_all add: encode_file_record_def subarray_def)

lemma decode_record_complete:
  assumes "valid_record r"
  shows "decodePolyfsFileRecord (encode_file_record r) = Inr r"
proof -
  note v = assms [unfolded valid_record_def]
  note p = valid_record_path [OF assms]
  have "fr_flags r * 2 ^ 56 + fr_size_bytes r < Suc (fr_flags r) * 2 ^ 56"
    using v by simp
  also have "\<dots> \<le> 256 * 2 ^ 56"
    using v by (intro mult_le_mono1) simp
  finally have packed: "le_val (le_bytes 8 (fr_flags r * 2 ^ 56 + fr_size_bytes r)) = fr_flags r * 2 ^ 56 + fr_size_bytes r"
    by (simp add: le_val_le_bytes)
  have fields: "(fr_flags r * 2 ^ 56 + fr_size_bytes r) mod 2 ^ 56 = fr_size_bytes r"
      "(fr_flags r * 2 ^ 56 + fr_size_bytes r) div 2 ^ 56 = fr_flags r"
    using v by auto
  have words: "le_val (le_bytes 8 (fr_start_offset r)) = fr_start_offset r"
      "le_val (le_bytes 8 (fr_timestamp r)) = fr_timestamp r"
    using v by (simp_all add: le_val_le_bytes)
  show ?thesis
    unfolding decodePolyfsFileRecord_path_field encode_record_parts [OF assms] packed fields words
      path_field_pad [OF p(2)] index_of_zero_pad [OF p(2)]
    using v p by (auto simp: utf8_decode_iff list_ex_iff)
qed

text \<open>The record format as a codec: encoding is refused outside the valid records.\<close>

definition record_enc :: "file_record \<Rightarrow> bytes result" where
  "record_enc r = (if valid_record r then Inr (encode_file_record r) else Inl ''invalid record'')"

interpretation file_record: canonical_codec record_enc decodePolyfsFileRecord
  by unfold_locales
    (auto simp: record_enc_def decode_record_complete dest: decode_record_sound split: if_splits)


section \<open>MDU 0 is the image of its records\<close>

definition fat_pos :: "nat \<Rightarrow> nat" where
  "fat_pos i = FILE_TABLE_START + i div 31 * 32 + 1 + i mod 31"

definition fat_logical :: "bytes \<Rightarrow> bytes" where
  "fat_logical mdu0 = map (\<lambda>i. mdu0 ! fat_pos i) [0..<POLYFS_FAT_LOGICAL_BYTES]"

definition fat_header :: "nat \<Rightarrow> bytes" where
  "fat_header n = utf8_encode (ascii ''NILF'') @ [2, 0] @ le_bytes 2 FILE_RECORD_SIZE @ le_bytes 4 n @ replicate 116 0"

definition fat_image :: "file_record list \<Rightarrow> bytes" where
  "fat_image rs =
     fat_header (length rs) @ concat (map encode_file_record rs)
     @ replicate (POLYFS_FAT_LOGICAL_BYTES - (128 + length rs * 256)) 0"

lemma length_fat_logical [simp]: "length (fat_logical mdu0) = 6094848"
  by (simp add: fat_logical_def)

lemma nth_fat_logical: "i < 6094848 \<Longrightarrow> fat_logical mdu0 ! i = mdu0 ! fat_pos i"
  by (simp add: fat_logical_def)

lemma readPolyfsFatRange_logical:
  assumes "length mdu0 = MDU_SIZE_BYTES" and "off + n \<le> 6094848"
  shows "readPolyfsFatRange mdu0 (num off) (num n) = Inr (subarray off (off + n) (fat_logical mdu0))"
proof -
  have "map (\<lambda>i. mdu0 ! (2097152 + (off + i) div 31 * 32 + 1 + (off + i) mod 31)) [0..<n]
      = subarray off (off + n) (fat_logical mdu0)"
    using assms(2) by (intro nth_equalityI) (auto simp: nth_subarray nth_fat_logical fat_pos_def)
  then show ?thesis
    using assms by (simp add: readPolyfsFatRange_def requireMdu0_def Let_def)
qed

lemma header_split:
  "length h = 128 \<Longrightarrow> h = take 4 h @ [h ! 4, h ! 5] @ subarray 6 8 h @ subarray 8 12 h @ drop 12 h"
proof -
  assume h: "length h = 128"
  have "[h ! 4, h ! 5] = subarray 4 6 h"
    using h by (intro nth_equalityI) (auto simp: nth_subarray less_Suc_eq nth_Cons')
  then show ?thesis
    using subarray_split [of 0 4 6 h] subarray_split [of 0 6 8 h] subarray_split [of 0 8 12 h]
    by (simp add: subarray_def) (metis append.assoc append_take_drop_id)
qed

lemma nilf [simp]: "utf8_encode (ascii ''NILF'') = [78, 73, 76, 70]" "list_all scalar_value (ascii ''NILF'')"
  by (simp_all add: utf8_encode_def utf8_nats_def ascii_def utf8_char_def surrogate_def scalar_value_def)

lemma magic_case:
  "(case utf8_decode b of None \<Rightarrow> Inl e | Some m \<Rightarrow> if m \<noteq> ascii ''NILF'' \<or> c then Inl f else Inr k) = Inr n
     \<longleftrightarrow> b = [78, 73, 76, 70] \<and> \<not> c \<and> k = n"
proof (cases "b = [78, 73, 76, 70]")
  case True
  then have "utf8_decode b = Some (ascii ''NILF'')"
    by (simp add: utf8_decode_iff)
  with True show ?thesis by simp
next
  case False
  then have "utf8_decode b \<noteq> Some (ascii ''NILF'')"
    by (simp add: utf8_decode_iff)
  with False show ?thesis by (auto split: option.splits)
qed

lemma validatedRecordCount_Inr:
  assumes "length mdu0 = MDU_SIZE_BYTES"
  shows "validatedRecordCount mdu0 = Inr n \<longleftrightarrow>
         n < 2 ^ 32 \<and> subarray 0 128 (fat_logical mdu0) = fat_header n"
proof -
  let ?h = "subarray 0 128 (fat_logical mdu0)"
  have len: "length ?h = 128"
    by simp
  have "readPolyfsFatRange mdu0 (num 0) (num 128) = Inr ?h"
    using readPolyfsFatRange_logical [OF assms, of 0 128] by simp
  then have "validatedRecordCount mdu0 = Inr n \<longleftrightarrow>
      take 4 ?h = [78, 73, 76, 70] \<and> ?h ! 4 = 2 \<and> ?h ! 5 = 0 \<and> le_val (subarray 6 8 ?h) = 256
      \<and> le_val (subarray 8 12 ?h) = n \<and> \<not> list_ex (\<lambda>v. v \<noteq> 0) (drop 12 ?h)"
    using assms by (simp add: validatedRecordCount_def requireMdu0_def magic_case) (auto simp: subarray_def)
  also have "\<dots> \<longleftrightarrow> n < 2 ^ 32 \<and> ?h = fat_header n"
  proof
    assume a: "take 4 ?h = [78, 73, 76, 70] \<and> ?h ! 4 = 2 \<and> ?h ! 5 = 0 \<and> le_val (subarray 6 8 ?h) = 256
      \<and> le_val (subarray 8 12 ?h) = n \<and> \<not> list_ex (\<lambda>v. v \<noteq> 0) (drop 12 ?h)"
    have "subarray 6 8 ?h = le_bytes 2 256"
      using a le_bytes_le_val [of "subarray 6 8 ?h"] len by simp
    moreover have "subarray 8 12 ?h = le_bytes 4 n" and "n < 2 ^ 32"
      using a le_bytes_le_val [of "subarray 8 12 ?h"] le_val_less [of "subarray 8 12 ?h"] len by simp_all
    moreover have "drop 12 ?h = replicate 116 0"
      using a len by (intro replicate_eqI) (auto simp: list_ex_iff)
    ultimately show "n < 2 ^ 32 \<and> ?h = fat_header n"
      using header_split [OF len] a by (simp add: fat_header_def)
  next
    assume a: "n < 2 ^ 32 \<and> ?h = fat_header n"
    have "le_val (le_bytes 2 256) = 256" "le_val (le_bytes 4 n) = n"
      using a by (simp_all add: le_val_le_bytes)
    then show "take 4 ?h = [78, 73, 76, 70] \<and> ?h ! 4 = 2 \<and> ?h ! 5 = 0 \<and> le_val (subarray 6 8 ?h) = 256
      \<and> le_val (subarray 8 12 ?h) = n \<and> \<not> list_ex (\<lambda>v. v \<noteq> 0) (drop 12 ?h)"
      using a by (simp add: fat_header_def subarray_def list_ex_iff)
  qed
  finally show ?thesis .
qed

text \<open>The physical bytes of the file table are its reserved bytes and the images of \<open>fat_pos\<close>.\<close>

lemma fat_pos_sum: "fat_pos i = 2097153 + i + i div 31"
proof -
  have "i div 31 * 32 + i mod 31 = i + i div 31"
    by presburger
  then show ?thesis
    by (simp add: fat_pos_def)
qed

lemma fat_pos_strict: "i < j \<Longrightarrow> fat_pos i < fat_pos j"
  using div_le_mono [of i j 31] by (simp add: fat_pos_sum)

lemma fat_pos_mono: "i \<le> j \<Longrightarrow> fat_pos i \<le> fat_pos j"
  using fat_pos_strict [of i j] by (cases "i = j") auto

lemma fat_pos_less: "i < 6094848 \<Longrightarrow> fat_pos i < 8388608"
  using fat_pos_mono [of i 6094847] by (simp add: fat_pos_def)

lemma fat_pos_onto:
  assumes "2097152 \<le> p" and "p < 8388608" and "p mod 32 \<noteq> 0"
  shows "\<exists>i < 6094848. p = fat_pos i"
proof -
  define q where "q = (p - 2097152) div 32"
  define r where "r = (p - 2097152) mod 32"
  have p: "p = 2097152 + q * 32 + r"
    using assms(1) by (simp add: q_def r_def div_mult_mod_eq)
  then have "p = 32 * (65536 + q) + r"
    by simp
  then have "p mod 32 = r mod 32"
    by (simp only: mod_mult_self4)
  then have r: "0 < r" "r < 32"
    using assms(3) by (auto simp: r_def)
  have "q < 196608"
    using assms(2) p by linarith
  then have "q * 31 + (r - 1) < 6094848"
    using r by linarith
  moreover have "(q * 31 + (r - 1)) div 31 = q"
    using r by (intro div_nat_eqI) auto
  then have "p = fat_pos (q * 31 + (r - 1))"
    using r p unfolding fat_pos_sum by linarith
  ultimately show ?thesis by blast
qed

definition reserved_zero :: "bytes \<Rightarrow> bool" where
  "reserved_zero mdu0 \<longleftrightarrow> (\<forall>cell \<in> {65536..<262144}. mdu0 ! (32 * cell) = 0)"

lemma padding_zero:
  assumes "length mdu0 = MDU_SIZE_BYTES" and "reserved_zero mdu0" and "e \<le> 6094848"
  shows "(\<forall>i \<in> {fat_pos e..<length mdu0}. mdu0 ! i = 0) \<longleftrightarrow> drop e (fat_logical mdu0) = replicate (6094848 - e) 0"
proof
  assume z: "\<forall>i \<in> {fat_pos e..<length mdu0}. mdu0 ! i = 0"
  show "drop e (fat_logical mdu0) = replicate (6094848 - e) 0"
  proof (rule nth_equalityI)
    fix i
    assume "i < length (drop e (fat_logical mdu0))"
    then have i: "e + i < 6094848"
      by simp
    then have "fat_pos (e + i) \<in> {fat_pos e..<length mdu0}"
      using fat_pos_less [OF i] fat_pos_mono [of e "e + i"] assms(1) by simp
    then show "drop e (fat_logical mdu0) ! i = replicate (6094848 - e) 0 ! i"
      using i z assms(3) by (simp add: nth_fat_logical)
  qed simp
next
  assume d: "drop e (fat_logical mdu0) = replicate (6094848 - e) 0"
  show "\<forall>i \<in> {fat_pos e..<length mdu0}. mdu0 ! i = 0"
  proof
    fix i
    assume i: "i \<in> {fat_pos e..<length mdu0}"
    show "mdu0 ! i = 0"
    proof (cases "i mod 32 = 0")
      case True
      then have "i = 32 * (i div 32)"
        by auto
      moreover have "i div 32 \<in> {65536..<262144}"
        using i assms(1) by (auto simp: fat_pos_def less_mult_imp_div_less)
      ultimately show ?thesis
        using assms(2) unfolding reserved_zero_def by metis
    next
      case False
      then obtain j where j: "j < 6094848" "i = fat_pos j"
        using fat_pos_onto [of i] i assms(1) by (auto simp: fat_pos_def)
      have "e \<le> j"
        using fat_pos_strict [of j e] i j by (cases "e \<le> j") auto
      then have "fat_logical mdu0 ! j = drop e (fat_logical mdu0) ! (j - e)"
        using j by simp
      also have "\<dots> = 0"
        unfolding d using j \<open>e \<le> j\<close> by simp
      finally show ?thesis
        using j by (simp add: nth_fat_logical)
    qed
  qed
qed

definition canonical_roots :: "bytes \<Rightarrow> bool" where
  "canonical_roots mdu0 \<longleftrightarrow> (\<forall>i \<in> {0..<65536}. be_val (root_cell mdu0 i) < be_val FR)"

lemma validateStructure_Inr:
  assumes "length mdu0 = MDU_SIZE_BYTES"
  shows "validateAuthenticatedMdu0Structure mdu0 (num n) = Inr m \<longleftrightarrow>
     m = n \<and> canonical_roots mdu0 \<and> reserved_zero mdu0 \<and> n \<le> 23807
     \<and> drop (128 + n * 256) (fat_logical mdu0) = replicate (6094848 - (128 + n * 256)) 0"
    (is "?l \<longleftrightarrow> ?r")
proof -
  have roots: "validateRootCells mdu0 = Inr u \<longleftrightarrow> canonical_roots mdu0" for u
    using validateRootCells_Inr [OF assms] by (auto simp: canonical_roots_def)
  have res: "(\<exists>cell \<in> {FILE_TABLE_START div 32..<length mdu0 div 32}. mdu0 ! (32 * cell) \<noteq> 0)
      \<longleftrightarrow> \<not> reserved_zero mdu0"
    using assms by (auto simp: reserved_zero_def)
  have req: "requireMdu0 mdu0 = Inr ()"
    using assms by (simp add: requireMdu0_def)
  have "?l \<longleftrightarrow> canonical_roots mdu0 \<and> reserved_zero mdu0 \<and> n \<le> 23807
      \<and> (\<forall>i \<in> {fat_pos (128 + n * 256)..<length mdu0}. mdu0 ! i = 0) \<and> m = n"
    unfolding validateAuthenticatedMdu0Structure_def set_upt Let_def fat_pos_def [symmetric] res req
    by (cases "reserved_zero mdu0") (auto simp: sbind_eq_Inr roots)
  also have "\<dots> \<longleftrightarrow> ?r"
    using padding_zero [OF assms, of "128 + n * 256"] by auto
  finally show ?thesis .
qed

definition active_paths :: "file_record list \<Rightarrow> js_string list" where
  "active_paths rs = filter (\<lambda>p. p \<noteq> []) (map fr_path rs)"

lemma record_loop_Inr:
  "record_loop mdu0 paths is = Inr rs \<longleftrightarrow>
     list_all2 (\<lambda>i r. sbind (readPolyfsFatRange mdu0 (num (128 + i * 256)) (num 256)) decodePolyfsFileRecord = Inr r) is rs
     \<and> distinct (active_paths rs) \<and> set (active_paths rs) \<inter> set paths = {}"
proof (induction "is" arbitrary: paths rs)
  case Nil
  then show ?case by (auto simp: active_paths_def)
next
  case (Cons i "is")
  show ?case
    by (cases rs) (auto simp: sbind_eq_Inr Cons.IH active_paths_def)
qed

lemma records_blocks:
  assumes "length mdu0 = MDU_SIZE_BYTES" and "n \<le> 23807"
  shows "record_loop mdu0 [] [0..<n] = Inr rs \<longleftrightarrow>
     length rs = n \<and> list_all valid_record rs \<and> distinct (active_paths rs)
     \<and> subarray 128 (128 + n * 256) (fat_logical mdu0) = concat (map encode_file_record rs)"
proof -
  let ?L = "fat_logical mdu0"
  have rd: "sbind (readPolyfsFatRange mdu0 (num (128 + i * 256)) (num 256)) decodePolyfsFileRecord = Inr r
      \<longleftrightarrow> valid_record r \<and> subarray (128 + i * 256) (128 + i * 256 + 256) ?L = encode_file_record r"
    if "i < n" for i r
    using readPolyfsFatRange_logical [OF assms(1), of "128 + i * 256" 256] that assms(2)
      decode_record_sound decode_record_complete by auto
  have "record_loop mdu0 [] [0..<n] = Inr rs \<longleftrightarrow>
      length rs = n \<and> distinct (active_paths rs)
      \<and> (\<forall>i < n. valid_record (rs ! i)
             \<and> subarray (128 + i * 256) (128 + i * 256 + 256) ?L = encode_file_record (rs ! i))"
    by (auto simp: record_loop_Inr list_all2_conv_all_nth rd)
  also have "\<dots> \<longleftrightarrow> length rs = n \<and> list_all valid_record rs \<and> distinct (active_paths rs)
      \<and> (\<forall>i < length rs. subarray (128 + i * 256) (128 + i * 256 + 256) ?L = encode_file_record (rs ! i))"
    by (auto simp: list_all_length)
  also have "\<dots> \<longleftrightarrow> length rs = n \<and> list_all valid_record rs \<and> distinct (active_paths rs)
      \<and> subarray 128 (128 + n * 256) ?L = concat (map encode_file_record rs)"
    using blocks_concat [of rs encode_file_record 256 128 ?L] assms(2) encode_record_parts(1)
    by (auto simp: list_all_iff)
  finally show ?thesis .
qed

definition valid_records :: "file_record list \<Rightarrow> bool" where
  "valid_records rs \<longleftrightarrow>
     length rs \<le> POLYFS_FILE_RECORD_CAPACITY \<and> list_all valid_record rs \<and> distinct (active_paths rs)"

lemma length_records:
  "list_all valid_record rs \<Longrightarrow> length (concat (map encode_file_record rs)) = length rs * 256"
  by (induction rs) (auto simp: encode_record_parts(1))

lemma length_fat_header [simp]: "length (fat_header n) = 128"
  by (simp add: fat_header_def)

text \<open>
  C4: parsing MDU 0 succeeds exactly on the image of its records. The parser returns
  \<open>rs\<close> if and only if every root cell is below the field order, every reserved byte of the
  file table is zero, the records are valid with pairwise distinct active paths, and the
  logical bytes of the file table are the header with the record count, the encodings of
  the records in order, and zeros up to the end.
\<close>

theorem mdu0_parse_exact:
  assumes "length mdu0 = MDU_SIZE_BYTES"
  shows "parsePolyfsRecordsFromMdu0 mdu0 = Inr rs \<longleftrightarrow>
         canonical_roots mdu0 \<and> reserved_zero mdu0 \<and> valid_records rs
         \<and> fat_logical mdu0 = fat_image rs"
proof -
  let ?L = "fat_logical mdu0"
  let ?e = "128 + length rs * 256"
  have "parsePolyfsRecordsFromMdu0 mdu0 = Inr rs \<longleftrightarrow>
      canonical_roots mdu0 \<and> reserved_zero mdu0 \<and> valid_records rs
      \<and> subarray 0 128 ?L = fat_header (length rs)
      \<and> subarray 128 ?e ?L = concat (map encode_file_record rs)
      \<and> drop ?e ?L = replicate (6094848 - ?e) 0"
    unfolding parsePolyfsRecordsFromMdu0_def parsePolyfsRecordsFromAuthenticatedMdu0_def sbind_eq_Inr
      validatedRecordCount_Inr [OF assms] validateStructure_Inr [OF assms] valid_records_def
    using records_blocks [OF assms, of "length rs" rs] records_blocks [OF assms, of _ rs]
    by (intro iffI exI [of _ "length rs"]) auto
  also have "\<dots> \<longleftrightarrow> canonical_roots mdu0 \<and> reserved_zero mdu0 \<and> valid_records rs \<and> ?L = fat_image rs"
  proof (cases "valid_records rs")
    case True
    then have v: "length rs \<le> 23807" "list_all valid_record rs"
      by (auto simp: valid_records_def)
    have L: "?L = subarray 0 128 ?L @ subarray 128 ?e ?L @ drop ?e ?L"
      using subarray_split [of 0 128 ?e ?L] by (simp add: subarray_def) (metis append.assoc append_take_drop_id)
    have "?L = fat_image rs \<longleftrightarrow> subarray 0 128 ?L @ subarray 128 ?e ?L @ drop ?e ?L = fat_image rs"
      using L by simp
    also have "\<dots> \<longleftrightarrow> subarray 0 128 ?L = fat_header (length rs)
        \<and> subarray 128 ?e ?L = concat (map encode_file_record rs)
        \<and> drop ?e ?L = replicate (6094848 - ?e) 0"
      using v length_records [OF v(2)] by (simp add: fat_image_def)
    finally show ?thesis
      by blast
  qed simp
  finally show ?thesis .
qed

text \<open>An MDU 0 with zero root cells and a given logical file table, for the witness.\<close>

definition mdu0_image :: "bytes \<Rightarrow> bytes" where
  "mdu0_image img =
     map (\<lambda>p. if p < 2097152 \<or> p mod 32 = 0 then 0
              else img ! ((p - 2097152) div 32 * 31 + (p - 2097152) mod 32 - 1)) [0..<MDU_SIZE_BYTES]"

lemma length_mdu0_image [simp]: "length (mdu0_image img) = 8388608"
  by (simp add: mdu0_image_def)

lemma be_val_zero [simp]: "be_val (replicate n 0) = 0"
  by (induction n) (simp_all add: be_val_Cons)

lemma be_val_FR_pos: "0 < be_val FR"
  by (simp add: FR_def be_val_Cons)

lemma zero_cells_canonical:
  assumes "length mdu0 = MDU_SIZE_BYTES" and "\<And>p. p < 2097152 \<Longrightarrow> mdu0 ! p = 0"
  shows "canonical_roots mdu0"
proof -
  have "root_cell mdu0 i = replicate 32 0" if "i < 65536" for i
    using assms that by (intro nth_equalityI) (auto simp: root_cell_def nth_subarray)
  then show ?thesis
    using be_val_FR_pos by (simp add: canonical_roots_def)
qed

lemma fat_logical_mdu0_image:
  assumes "length img = 6094848"
  shows "fat_logical (mdu0_image img) = img"
proof (rule nth_equalityI)
  fix i
  assume "i < length (fat_logical (mdu0_image img))"
  then have i: "i < 6094848"
    by simp
  let ?q = "i div 31" and ?r = "Suc (i mod 31)"
  have p: "fat_pos i = 32 * (65536 + ?q) + ?r"
    by (simp add: fat_pos_def)
  have r: "?r < 32"
    by simp
  have "fat_pos i mod 32 = ?r"
    unfolding p using r by (simp only: mod_mult_self4 mod_less)
  moreover have "(fat_pos i - 2097152) = 32 * ?q + ?r"
    unfolding p by simp
  then have "(fat_pos i - 2097152) div 32 = ?q" "(fat_pos i - 2097152) mod 32 = ?r"
    using r by simp_all
  moreover have "\<not> fat_pos i < 2097152"
    unfolding p by simp
  moreover have "?q * 31 + ?r - 1 = i"
    by simp
  ultimately show "fat_logical (mdu0_image img) ! i = img ! i"
    using i fat_pos_less [OF i] by (simp add: nth_fat_logical mdu0_image_def)
qed (simp add: assms)

lemma mdu0_image_structure: "canonical_roots (mdu0_image img)" "reserved_zero (mdu0_image img)"
  by (rule zero_cells_canonical; simp add: mdu0_image_def) (auto simp: reserved_zero_def mdu0_image_def)

lemma length_fat_image:
  "valid_records rs \<Longrightarrow> length (fat_image rs) = 6094848"
  by (simp add: fat_image_def valid_records_def length_records)

theorem mdu0_parse_exact_witness:
  "let rs = [\<lparr>fr_path = ascii ''a.txt'', fr_start_offset = 0, fr_size_bytes = 11, fr_timestamp = 5, fr_flags = 1\<rparr>]
   in length (mdu0_image (fat_image rs)) = MDU_SIZE_BYTES
      \<and> parsePolyfsRecordsFromMdu0 (mdu0_image (fat_image rs)) = Inr rs"
proof -
  let ?r = "\<lparr>fr_path = ascii ''a.txt'', fr_start_offset = 0, fr_size_bytes = 11, fr_timestamp = 5, fr_flags = 1\<rparr>"
  have "validatePolyfsRecordPath (ascii ''a.txt'') = Inr (ascii ''a.txt'')"
    by (simp add: validatePolyfsRecordPath_def ascii_def white_space_def utf8_decode_iff
        POLYFS_RECORD_PATH_MAX_BYTES_def Let_def scalar_value_def surrogate_def utf8_encode_def
        utf8_nats_def utf8_char_def)
  then have v: "valid_records [?r]"
    by (simp add: valid_records_def valid_record_def active_paths_def)
  have len: "length (mdu0_image (fat_image [?r])) = MDU_SIZE_BYTES"
    by simp
  show ?thesis
    using mdu0_parse_exact [OF len, of "[?r]"] v fat_logical_mdu0_image [OF length_fat_image [OF v]]
      mdu0_image_structure by (simp add: Let_def)
qed

text \<open>
  C5: an accepted root table has exactly the requested cells, in order and each below the
  field order, and a digest is accepted against a cell exactly when its residue modulo
  the field order is the cell's integer. So two cells that accept one digest are equal.
\<close>

theorem root_table_identity:
  assumes "parsePolyfsRootTableFromMdu0 mdu0 (num n) = Inr cells" and "length digest = 32"
  shows "length cells = n
         \<and> (\<forall>i < n. cells ! i = subarray (32 * i) (32 * i + 32) mdu0 \<and> be_val (cells ! i) < be_val FR
              \<and> (assertPolyfsRootCell digest (cells ! i) = Inr () \<longleftrightarrow>
                   be_val digest mod be_val FR = be_val (cells ! i)))
         \<and> (\<forall>i < n. \<forall>j < n. assertPolyfsRootCell digest (cells ! i) = Inr () \<longrightarrow>
              assertPolyfsRootCell digest (cells ! j) = Inr () \<longrightarrow> cells ! i = cells ! j)"
proof -
  have len: "length mdu0 = MDU_SIZE_BYTES" and n: "n \<le> 65536" and vr: "validateRootCells mdu0 = Inr ()"
      and cells: "cells = map (root_cell mdu0) [0..<n]"
    using assms(1)
    by (auto simp: parsePolyfsRootTableFromMdu0_def requireMdu0_def sbind_eq_Inr root_cell_def algebra_simps
        split: if_splits)
  have c: "length (root_cell mdu0 i) = 32 \<and> be_val (root_cell mdu0 i) < be_val FR" if "i < n" for i
    using that len n vr validateRootCells_Inr [OF len] by (simp add: root_cell_def)
  have a: "assertPolyfsRootCell digest (root_cell mdu0 i) = Inr () \<longleftrightarrow>
      be_val digest mod be_val FR = be_val (root_cell mdu0 i)" if "i < n" for i
    using c [OF that] assms(2) by (auto simp: assertPolyfsRootCell_def integer_of_be_val Let_def)
  have "root_cell mdu0 i = root_cell mdu0 j"
    if "i < n" "j < n" "be_val (root_cell mdu0 i) = be_val (root_cell mdu0 j)" for i j
    using that c be_val_inject [of "root_cell mdu0 i" "root_cell mdu0 j"] by simp
  then show ?thesis
    unfolding cells using a c by (auto simp: root_cell_def)
qed

theorem root_table_identity_witness:
  "length (replicate 32 (0 :: byte)) = 32
   \<and> (\<exists>cells. parsePolyfsRootTableFromMdu0 (replicate MDU_SIZE_BYTES 0) (num 2) = Inr cells
        \<and> length cells = 2 \<and> assertPolyfsRootCell (replicate 32 0) (cells ! 1) = Inr ())"
proof -
  let ?m = "replicate MDU_SIZE_BYTES 0 :: bytes" and ?d = "replicate 32 0 :: bytes"
  have len: "length ?m = MDU_SIZE_BYTES"
    by simp
  have "canonical_roots ?m"
    by (rule zero_cells_canonical) simp_all
  then have "validateRootCells ?m = Inr ()"
    using validateRootCells_Inr [OF len] by (simp add: canonical_roots_def)
  then obtain cells where run: "parsePolyfsRootTableFromMdu0 ?m (num 2) = Inr cells"
    by (simp add: parsePolyfsRootTableFromMdu0_def requireMdu0_def)
  have d: "length ?d = 32"
    by simp
  note t = root_table_identity [OF run d]
  have c: "cells ! 1 = ?d"
    using t by (simp add: subarray_def)
  have "(1 :: nat) < 2"
    by simp
  then have "assertPolyfsRootCell ?d (cells ! 1) = Inr () \<longleftrightarrow> be_val ?d mod be_val FR = be_val (cells ! 1)"
    using t by blast
  then have "assertPolyfsRootCell ?d (cells ! 1) = Inr ()"
    unfolding c by simp
  then show ?thesis
    using run t d by blast
qed


section \<open>Reassembling a Mode 2 stripe\<close>

text \<open>The slice of slot \<open>slot\<close>: blob \<open>row * k + slot\<close> of the MDU for every row, in order.\<close>

definition mode2_slice :: "nat \<Rightarrow> bytes \<Rightarrow> nat \<Rightarrow> bytes" where
  "mode2_slice k mdu slot =
     concat (map (\<lambda>row. subarray ((row * k + slot) * BLOB_SIZE_BYTES) (Suc (row * k + slot) * BLOB_SIZE_BYTES) mdu)
       [0..<64 div k])"

lemma foldl_set_blocks:
  assumes "\<And>i. i < n \<Longrightarrow> length (f i) = B" and "n * B \<le> length buf"
  shows "foldl (\<lambda>b i. set_bytes (f i) (i * B) b) buf [0..<n] = concat (map f [0..<n]) @ drop (n * B) buf"
  using assms
proof (induction n)
  case 0
  then show ?case by simp
next
  case (Suc n)
  let ?c = "concat (map f [0..<n])"
  have "length x = B" if "x \<in> set (map f [0..<n])" for x
    using that Suc.prems(1) by auto
  then have len: "length ?c = n * B"
    using length_concat_uniform [of "map f [0..<n]" B] by simp
  have "foldl (\<lambda>b i. set_bytes (f i) (i * B) b) buf [0..<Suc n] = set_bytes (f n) (n * B) (?c @ drop (n * B) buf)"
    using Suc by simp
  also have "\<dots> = ?c @ f n @ drop (Suc n * B) buf"
    using len Suc.prems by (simp add: set_bytes_def add.commute)
  finally show ?case by simp
qed

lemma foldl_product_rows:
  "foldl (\<lambda>b (i, j). g (i * k + j) i j b) s (List.product [0..<n] [0..<k])
   = foldl (\<lambda>b x. g x (x div k) (x mod k) b) s [0..<n * k]"
proof (induction n)
  case 0
  then show ?case by simp
next
  case (Suc n)
  have prod: "List.product [0..<Suc n] [0..<k] = List.product [0..<n] [0..<k] @ map (Pair n) [0..<k]"
    by (simp add: product_concat_map)
  have row: "[n * k..<n * k + k] = map (\<lambda>j. n * k + j) [0..<k]"
    by (simp add: map_add_upt add.commute)
  have "foldl (\<lambda>b x. g x (x div k) (x mod k) b) t [n * k..<n * k + k]
      = foldl (\<lambda>b j. g (n * k + j) n j b) t [0..<k]" for t
    unfolding row foldl_map by (rule foldl_cong) auto
  moreover have "[0..<Suc n * k] = [0..<n * k] @ [n * k..<n * k + k]"
    using upt_add_eq_append [of 0 "n * k" k] by (simp add: add.commute)
  ultimately show ?case
    using Suc unfolding prod by (simp add: foldl_map)
qed

lemma collect_slices_complete:
  assumes "distinct slots" and "set slots \<subseteq> {..<k}" and "\<And>s. s < k \<Longrightarrow> length (f s) = e"
    and "k \<le> 9007199254740991" and "\<And>s. s \<in> set slots \<Longrightarrow> m s = None"
  shows "collect_slices k e m (map (\<lambda>s. (num s, f s)) slots)
         = Inr (\<lambda>s. if s \<in> set slots then Some (f s) else m s)"
  using assms
proof (induction slots arbitrary: m)
  case Nil
  then show ?case by simp
next
  case (Cons s slots)
  have "collect_slices k e (m(s \<mapsto> f s)) (map (\<lambda>s. (num s, f s)) slots)
      = Inr (\<lambda>t. if t \<in> set slots then Some (f t) else (m(s \<mapsto> f s)) t)"
    using Cons.prems by (intro Cons.IH) auto
  then show ?case
    using Cons.prems by (auto intro!: ext)
qed

lemma length_mdu_blob:
  "length mdu = MDU_SIZE_BYTES \<Longrightarrow> x < 64 \<Longrightarrow>
   length (subarray (x * BLOB_SIZE_BYTES) (Suc x * BLOB_SIZE_BYTES) mdu) = BLOB_SIZE_BYTES"
  by simp

lemma mode2_slice_block:
  assumes "length mdu = MDU_SIZE_BYTES" and "k dvd 64" and "slot < k" and "row < 64 div k"
  shows "subarray (row * BLOB_SIZE_BYTES) (row * BLOB_SIZE_BYTES + BLOB_SIZE_BYTES) (mode2_slice k mdu slot)
         = subarray ((row * k + slot) * BLOB_SIZE_BYTES) (Suc (row * k + slot) * BLOB_SIZE_BYTES) mdu"
    and "length (mode2_slice k mdu slot) = 64 div k * BLOB_SIZE_BYTES"
proof -
  let ?B = "BLOB_SIZE_BYTES"
  let ?blk = "\<lambda>r. subarray ((r * k + slot) * ?B) (Suc (r * k + slot) * ?B) mdu"
  have in_mdu: "Suc (r * k + slot) \<le> 64" if "r < 64 div k" for r
  proof -
    have "Suc (r * k + slot) \<le> Suc r * k"
      using assms(3) by simp
    also have "\<dots> \<le> 64 div k * k"
      using that by (intro mult_le_mono1) simp
    also have "\<dots> = 64"
      using assms(2) by simp
    finally show ?thesis .
  qed
  have len: "length x = ?B" if "x \<in> set (map ?blk [0..<64 div k])" for x
    using that in_mdu length_mdu_blob [OF assms(1)] by (auto simp del: layout_values mult_Suc simp: Suc_le_eq)
  show "length (mode2_slice k mdu slot) = 64 div k * ?B"
    using length_concat_uniform [of "map ?blk [0..<64 div k]" ?B, OF len] unfolding mode2_slice_def
    by (simp del: layout_values mult_Suc)
  show "subarray (row * ?B) (row * ?B + ?B) (mode2_slice k mdu slot) = ?blk row"
    using subarray_concat_uniform [of "map ?blk [0..<64 div k]" ?B row, OF len] assms(4)
    unfolding mode2_slice_def by (simp add: add.commute del: layout_values)
qed

text \<open>
  C6: slicing an MDU into the \<open>k\<close> data slots of a Mode 2 stripe and reassembling it gives
  the MDU back, in whatever order the slices arrive.
\<close>

theorem mode2_reconstruct_roundtrip:
  assumes "length mdu = MDU_SIZE_BYTES" and "0 < k" and "k dvd 64"
    and "distinct slots" and "set slots = {..<k}"
  shows "reconstructMduFromMode2SlotSlices (map (\<lambda>s. (num s, mode2_slice k mdu s)) slots) (num k) = Inr mdu"
proof -
  let ?B = "BLOB_SIZE_BYTES"
  let ?n = "64 div k"
  let ?blk = "\<lambda>x. subarray (x * ?B) (Suc x * ?B) mdu"
  have k: "k \<le> 64"
    using assms(3) by (rule dvd_imp_le) simp
  have rows: "mode2RowsForK (num k) = Inr ?n"
    using assms(2,3) k by (simp add: mode2RowsForK_def dvd_eq_mod_eq_0)
  have nk: "?n * k = 64"
    using assms(3) by simp
  have sl: "length (mode2_slice k mdu s) = ?n * ?B" if "s < k" for s
    using mode2_slice_block(2) [OF assms(1,3) that, of 0] assms(2) k by (simp add: div_greater_zero_iff)
  let ?m = "\<lambda>s. if s \<in> set slots then Some (mode2_slice k mdu s) else None"
  have col: "collect_slices k (?n * ?B) Map.empty (map (\<lambda>s. (num s, mode2_slice k mdu s)) slots) = Inr ?m"
    using assms(4,5) sl k by (intro collect_slices_complete) auto
  have miss: "find (\<lambda>slot. ?m slot = None) [0..<k] = None"
    using assms(5) by (auto simp: find_None_iff)
  have "foldl (\<lambda>mdu' (row, slot).
           let shard = the (?m slot); shardOff = row * ?B; blobIndex = row * k + slot; mduOff = blobIndex * ?B
           in set_bytes (subarray shardOff (shardOff + ?B) shard) mduOff mdu')
         (replicate MDU_SIZE_BYTES 0) (List.product [0..<?n] [0..<k])
      = foldl (\<lambda>mdu' (row, slot). set_bytes (?blk (row * k + slot)) ((row * k + slot) * ?B) mdu')
         (replicate MDU_SIZE_BYTES 0) (List.product [0..<?n] [0..<k])"
    by (rule foldl_cong) (use assms(5) mode2_slice_block(1) [OF assms(1,3)] in \<open>auto simp: Let_def simp del: layout_values\<close>)
  also have "\<dots> = foldl (\<lambda>b x. set_bytes (?blk x) (x * ?B) b) (replicate MDU_SIZE_BYTES 0) [0..<64]"
    using foldl_product_rows [of "\<lambda>x _ _. set_bytes (?blk x) (x * ?B)" k _ ?n] nk by simp
  also have "\<dots> = concat (map ?blk [0..<64])"
  proof -
    show ?thesis
      using length_mdu_blob [OF assms(1)] foldl_set_blocks [of 64 ?blk ?B "replicate MDU_SIZE_BYTES 0"] by simp
  qed
  also have "\<dots> = mdu"
    using blocks_concat [of "[0..<64]" ?blk ?B 0 mdu] assms(1) subarray_whole [of mdu]
    by (simp add: add.commute)
  finally show ?thesis
    using rows k col miss by (simp add: reconstructMduFromMode2SlotSlices_def del: layout_values)
qed

theorem mode2_reconstruct_roundtrip_witness:
  "let mdu = replicate MDU_SIZE_BYTES 7; slots = [2, 0, 3, 1]
   in length mdu = MDU_SIZE_BYTES \<and> distinct slots \<and> set slots = {..<4}
      \<and> reconstructMduFromMode2SlotSlices (map (\<lambda>s. (num s, mode2_slice 4 mdu s)) slots) (num 4) = Inr mdu"
proof -
  have "set [2, 0, 3, 1 :: nat] = {..<4}"
    by auto
  then show ?thesis
    using mode2_reconstruct_roundtrip [of "replicate MDU_SIZE_BYTES 7" 4 "[2, 0, 3, 1]"]
    by (simp only: Let_def) simp
qed

end
