(* ===== verification/RangeChunker.thy ===== *)
theory RangeChunker
  imports Interfaces
begin

text \<open>
  Splitting a file range at blob boundaries (\<open>lib/rangeChunker.ts\<close>). Offsets and sizes are
  byte counts: a number is an integer or, as \<open>None\<close>, not finite. Past the guards of the
  planner every quantity is a natural number.
\<close>

definition rawMduCapacityFromMduSize :: "int option \<Rightarrow> nat" where
  "rawMduCapacityFromMduSize mduSizeBytes =
     (case mduSizeBytes of
        None \<Rightarrow> 0
      | Some n \<Rightarrow> if n \<le> 0 then 0 else let scalars = nat n div 32 in scalars * 31)"

definition encodedPosFromRawOffset :: "int \<Rightarrow> int" where
  "encodedPosFromRawOffset rawOffsetInMdu =
     (let scalarIdx = rawOffsetInMdu div 31 in rawOffsetInMdu + scalarIdx + 1)"

definition rawOffsetToEncodedBlobIndex :: "int \<Rightarrow> int \<Rightarrow> int result" where
  "rawOffsetToEncodedBlobIndex rawOffsetInMdu blobSizeBytes =
     (if blobSizeBytes \<le> 0 then Inl ''invalid blobSizeBytes''
      else if rawOffsetInMdu < 0 then Inl ''rawOffsetInMdu must be >= 0''
      else Inr (encodedPosFromRawOffset rawOffsetInMdu div blobSizeBytes))"

text \<open>The binary search of \<open>nextBlobBoundaryRawOffsetInMdu\<close>, from \<open>lo\<close> to \<open>hi\<close>.\<close>

function boundary_search :: "int \<Rightarrow> int \<Rightarrow> nat \<Rightarrow> nat \<Rightarrow> nat result" where
  "boundary_search blobIdx blobSizeBytes lo hi =
     (if lo + 1 < hi then
        let mid = (lo + hi) div 2 in
        sbind (rawOffsetToEncodedBlobIndex (int mid) blobSizeBytes) (\<lambda>midBlob.
        if midBlob = blobIdx then boundary_search blobIdx blobSizeBytes mid hi
        else boundary_search blobIdx blobSizeBytes lo mid)
      else Inr hi)"
  by auto
termination
  by (relation "measure (\<lambda>(_, _, lo, hi). hi - lo)") auto

declare boundary_search.simps [simp del]

definition nextBlobBoundaryRawOffsetInMdu :: "nat \<Rightarrow> nat \<Rightarrow> int \<Rightarrow> nat result" where
  "nextBlobBoundaryRawOffsetInMdu rawOffsetInMdu rawMduCapacity blobSizeBytes =
     (let start = rawOffsetInMdu in
      if start \<ge> rawMduCapacity then Inr rawMduCapacity
      else
        sbind (rawOffsetToEncodedBlobIndex (int start) blobSizeBytes) (\<lambda>blobIdx.
        sbind (boundary_search blobIdx blobSizeBytes start rawMduCapacity) (\<lambda>hi.
        sbind (rawOffsetToEncodedBlobIndex (int hi) blobSizeBytes) (\<lambda>hiBlob.
        if hiBlob = blobIdx then Inr rawMduCapacity else Inr hi))))"

record chunk_opts =
  co_fileStartOffset :: "int option"
  co_fileSizeBytes :: "int option"
  co_rangeStart :: "int option"
  co_rangeLen :: "int option"
  co_mduSizeBytes :: "int option"
  co_blobSizeBytes :: int

text \<open>The loop of the planner. Each chunk is a pair of \<open>rangeStart\<close> and \<open>rangeLen\<close>.\<close>

function chunk_loop :: "nat \<Rightarrow> nat \<Rightarrow> int \<Rightarrow> nat \<Rightarrow> nat \<Rightarrow> (nat \<times> nat) list result" where
  "chunk_loop fileStartOffset rawMduCapacity blobSizeBytes cursor remaining =
     (if remaining > 0 then
        let absOffset = fileStartOffset + cursor;
            offsetInMdu = absOffset mod rawMduCapacity;
            mduRemaining = int rawMduCapacity - int offsetInMdu
        in
        sbind (nextBlobBoundaryRawOffsetInMdu offsetInMdu rawMduCapacity blobSizeBytes) (\<lambda>blobBoundary.
        let blobRemaining = int blobBoundary - int offsetInMdu;
            chunkLen = min (min (min (int remaining) mduRemaining) blobRemaining) blobSizeBytes
        in
        if chunkLen \<le> 0 then Inl ''failed to derive a positive chunk length''
        else
          sbind (chunk_loop fileStartOffset rawMduCapacity blobSizeBytes
                   (cursor + nat chunkLen) (remaining - nat chunkLen)) (\<lambda>chunks.
          Inr ((cursor, nat chunkLen) # chunks)))
      else Inr [])"
  by auto
termination
proof (relation "measure (\<lambda>(_, _, _, _, remaining). remaining)")
  fix remaining :: nat and chunkLen :: int and a b :: nat and c :: int and d :: nat
  assume "0 < remaining" and "\<not> chunkLen \<le> 0"
  then show "((a, b, c, d + nat chunkLen, remaining - nat chunkLen), a, b, c, d, remaining)
      \<in> measure (\<lambda>(_, _, _, _, remaining). remaining)"
    by simp
qed simp

declare chunk_loop.simps [simp del]

definition planPolyfsFileRangeChunks :: "chunk_opts \<Rightarrow> (nat \<times> nat) list result" where
  "planPolyfsFileRangeChunks opts =
     (case co_fileStartOffset opts of
        None \<Rightarrow> Inl ''fileStartOffset must be >= 0''
      | Some fileStartOffset \<Rightarrow>
     if fileStartOffset < 0 then Inl ''fileStartOffset must be >= 0'' else
     (case co_fileSizeBytes opts of
        None \<Rightarrow> Inl ''fileSizeBytes must be > 0''
      | Some fileSizeBytes \<Rightarrow>
     if fileSizeBytes \<le> 0 then Inl ''fileSizeBytes must be > 0'' else
     (case co_rangeStart opts of
        None \<Rightarrow> Inl ''rangeStart must be >= 0''
      | Some rangeStart \<Rightarrow>
     if rangeStart < 0 then Inl ''rangeStart must be >= 0'' else
     (case co_rangeLen opts of
        None \<Rightarrow> Inl ''rangeLen must be > 0''
      | Some rangeLen \<Rightarrow>
     if rangeLen \<le> 0 then Inl ''rangeLen must be > 0''
     else if rangeStart \<ge> fileSizeBytes then Inl ''rangeStart beyond EOF''
     else
       let rawMduCapacity = rawMduCapacityFromMduSize (co_mduSizeBytes opts) in
       if rawMduCapacity \<le> 0 then Inl ''invalid mduSizeBytes''
       else
         let maxLen = min rangeLen (fileSizeBytes - rangeStart) in
         chunk_loop (nat fileStartOffset) rawMduCapacity (co_blobSizeBytes opts)
           (nat rangeStart) (nat maxLen)))))"


section \<open>The search finds the next blob boundary\<close>

definition blob_of :: "int \<Rightarrow> nat \<Rightarrow> int" where
  "blob_of B x = encodedPosFromRawOffset (int x) div B"

lemma rawOffsetToEncodedBlobIndex_nat [simp]:
  "0 < B \<Longrightarrow> rawOffsetToEncodedBlobIndex (int x) B = Inr (blob_of B x)"
  by (simp add: rawOffsetToEncodedBlobIndex_def blob_of_def)

lemma blob_of_mono: "0 < B \<Longrightarrow> x \<le> y \<Longrightarrow> blob_of B x \<le> blob_of B y"
  unfolding blob_of_def encodedPosFromRawOffset_def Let_def
  by (intro zdiv_mono1 add_mono) auto

lemma boundary_search_spec:
  assumes "0 < B" and "lo < hi" and "blob_of B lo = b"
    and "\<forall>x. hi \<le> x \<and> x < cap \<longrightarrow> blob_of B x \<noteq> b"
  shows "\<exists>h. boundary_search b B lo hi = Inr h \<and> lo < h \<and> h \<le> hi
           \<and> (\<forall>x. lo \<le> x \<and> x < h \<longrightarrow> blob_of B x = b)
           \<and> (\<forall>x. h \<le> x \<and> x < cap \<longrightarrow> blob_of B x \<noteq> b)"
  using assms
proof (induction b B lo hi rule: boundary_search.induct)
  case (1 b B lo hi)
  show ?case
  proof (cases "lo + 1 < hi")
    case False
    then have hi: "hi = Suc lo"
      using "1.prems"(2) by simp
    have "blob_of B x = b" if "lo \<le> x" "x < hi" for x
      using that hi "1.prems"(3) by (cases "x = lo") auto
    then show ?thesis
      using "1.prems" False by (subst boundary_search.simps) simp
  next
    case True
    let ?mid = "(lo + hi) div 2"
    have mid: "lo < ?mid" "?mid < hi"
      using True by auto
    show ?thesis
    proof (cases "blob_of B ?mid = b")
      case same: True
      have "blob_of B x = b" if "lo \<le> x" "x < ?mid" for x
        using blob_of_mono [of B lo x] blob_of_mono [of B x ?mid] that same "1.prems" by auto
      moreover obtain h where h: "boundary_search b B ?mid hi = Inr h" "?mid < h" "h \<le> hi"
          "\<forall>x. ?mid \<le> x \<and> x < h \<longrightarrow> blob_of B x = b" "\<forall>x. h \<le> x \<and> x < cap \<longrightarrow> blob_of B x \<noteq> b"
        using "1.IH"(1) [OF True refl same "1.prems"(1) mid(2) same "1.prems"(4)] by blast
      ultimately have "\<forall>x. lo \<le> x \<and> x < h \<longrightarrow> blob_of B x = b"
        by (meson not_le)
      moreover have "boundary_search b B lo hi = Inr h"
        using True same "1.prems"(1) h(1) by (subst boundary_search.simps) (simp add: Let_def)
      ultimately show ?thesis
        using h mid by fastforce
    next
      case diff: False
      have far: "blob_of B x \<noteq> b" if "?mid \<le> x" for x
        using blob_of_mono [of B lo ?mid] blob_of_mono [of B ?mid x] that diff mid "1.prems" by auto
      obtain h where h: "boundary_search b B lo ?mid = Inr h" "lo < h" "h \<le> ?mid"
          "\<forall>x. lo \<le> x \<and> x < h \<longrightarrow> blob_of B x = b" "\<forall>x. h \<le> x \<and> x < cap \<longrightarrow> blob_of B x \<noteq> b"
        using "1.IH"(2) [OF True refl diff "1.prems"(1) mid(1) "1.prems"(3)] far by blast
      moreover have "boundary_search b B lo hi = Inr h"
        using True diff "1.prems"(1) h(1) by (subst boundary_search.simps) (simp add: Let_def)
      ultimately show ?thesis
        using mid by fastforce
    qed
  qed
qed

lemma nextBlobBoundary_spec:
  assumes "0 < B" and "off < cap"
  shows "\<exists>h. nextBlobBoundaryRawOffsetInMdu off cap B = Inr h \<and> off < h \<and> h \<le> cap
           \<and> (\<forall>x. off \<le> x \<and> x < h \<longrightarrow> blob_of B x = blob_of B off)
           \<and> (h < cap \<longrightarrow> blob_of B h \<noteq> blob_of B off)"
proof -
  have none: "\<forall>x. cap \<le> x \<and> x < cap \<longrightarrow> blob_of B x \<noteq> blob_of B off"
    by simp
  obtain h where h: "boundary_search (blob_of B off) B off cap = Inr h" "off < h" "h \<le> cap"
      "\<forall>x. off \<le> x \<and> x < h \<longrightarrow> blob_of B x = blob_of B off"
      "\<forall>x. h \<le> x \<and> x < cap \<longrightarrow> blob_of B x \<noteq> blob_of B off"
    using boundary_search_spec [OF assms refl none] by blast
  show ?thesis
  proof (cases "h < cap")
    case True
    then have "blob_of B h \<noteq> blob_of B off"
      using h(5) by blast
    then have "nextBlobBoundaryRawOffsetInMdu off cap B = Inr h"
      using h(1) assms by (simp add: nextBlobBoundaryRawOffsetInMdu_def)
    then show ?thesis
      using h by blast
  next
    case False
    then have "h = cap"
      using h(3) by simp
    then have "nextBlobBoundaryRawOffsetInMdu off cap B = Inr h"
      using h(1) assms by (simp add: nextBlobBoundaryRawOffsetInMdu_def)
    then show ?thesis
      using h False by blast
  qed
qed


section \<open>The plan tiles the range with pieces of one blob each\<close>

definition within_blob :: "nat \<Rightarrow> nat \<Rightarrow> int \<Rightarrow> nat \<times> nat \<Rightarrow> bool" where
  "within_blob fileStart cap B c \<longleftrightarrow>
     (\<forall>x \<in> {fst c..<fst c + snd c}.
        (fileStart + x) div cap = (fileStart + fst c) div cap
        \<and> blob_of B ((fileStart + x) mod cap) = blob_of B ((fileStart + fst c) mod cap))"

lemma same_mdu:
  assumes "0 < cap" and "(a :: nat) mod cap + d < cap"
  shows "(a + d) div cap = a div cap" and "(a + d) mod cap = a mod cap + d"
proof -
  have eq: "a + d = (a mod cap + d) + a div cap * cap"
    by simp
  have "(a mod cap + d + a div cap * cap) div cap = a div cap"
    using assms by (simp only: div_mult_self1 div_less)
  then show "(a + d) div cap = a div cap"
    by (subst eq)
  have "(a mod cap + d + a div cap * cap) mod cap = a mod cap + d"
    using assms by (simp only: mod_mult_self1 mod_less)
  then show "(a + d) mod cap = a mod cap + d"
    by (subst eq)
qed

lemma chunk_loop_spec:
  assumes "0 < cap" and "0 < B"
  shows "\<exists>cs. chunk_loop fs cap B cursor remaining = Inr cs \<and> tiles cursor (cursor + remaining) cs
           \<and> list_all (within_blob fs cap B) cs"
proof (induction remaining arbitrary: cursor rule: less_induct)
  case (less remaining)
  show ?case
  proof (cases "remaining = 0")
    case True
    then show ?thesis by (simp add: chunk_loop.simps)
  next
    case False
    let ?off = "(fs + cursor) mod cap"
    obtain h where h: "nextBlobBoundaryRawOffsetInMdu ?off cap B = Inr h" "?off < h" "h \<le> cap"
        "\<forall>x. ?off \<le> x \<and> x < h \<longrightarrow> blob_of B x = blob_of B ?off"
      using nextBlobBoundary_spec [OF assms(2) mod_less_divisor [OF assms(1)]] by blast
    define len where "len = nat (min (min (min (int remaining) (int cap - int ?off)) (int h - int ?off)) B)"
    have len: "0 < len" "len \<le> remaining" "?off + len \<le> h"
      using h(2,3) False assms by (auto simp: len_def)
    have li: "min (min (min (int remaining) (int cap - int ?off)) (int h - int ?off)) B = int len"
      using h(2,3) False assms by (simp add: len_def)
    obtain cs where cs: "chunk_loop fs cap B (cursor + len) (remaining - len) = Inr cs"
        "tiles (cursor + len) (cursor + remaining) cs" "list_all (within_blob fs cap B) cs"
      using less.IH [of "remaining - len" "cursor + len"] len by auto
    have "within_blob fs cap B (cursor, len)"
      unfolding within_blob_def
    proof (intro ballI)
      fix x
      assume "x \<in> {fst (cursor, len)..<fst (cursor, len) + snd (cursor, len)}"
      then obtain d where d: "x = cursor + d" "d < len"
        by (metis add_less_cancel_left atLeastLessThan_iff fst_conv le_Suc_ex snd_conv)
      then have "?off + d < cap" "?off + d < h"
        using len(3) h(3) by linarith+
      then show "(fs + x) div cap = (fs + fst (cursor, len)) div cap
          \<and> blob_of B ((fs + x) mod cap) = blob_of B ((fs + fst (cursor, len)) mod cap)"
        using same_mdu [OF assms(1), of "fs + cursor" d] h(4) [rule_format, of "?off + d"] d(1)
        by (simp add: add.assoc)
    qed
    moreover have "chunk_loop fs cap B cursor remaining = Inr ((cursor, len) # cs)"
      using False h(1) li len(1) cs(1) by (subst chunk_loop.simps) (simp add: Let_def)
    ultimately show ?thesis
      using cs len by auto
  qed
qed








definition sample_range :: chunk_opts where
  "sample_range = \<lparr>co_fileStartOffset = Some 100, co_fileSizeBytes = Some 150, co_rangeStart = Some 10,
     co_rangeLen = Some 200, co_mduSizeBytes = Some 128, co_blobSizeBytes = 64\<rparr>"



text \<open>
  The planner never fails on a sensible request. A finite range that starts inside a
  non-empty file, with an MDU of at least one scalar and a positive blob size, has a plan;
  in particular the search always leaves a positive chunk length.
\<close>

theorem range_chunks_total:
  assumes "co_fileStartOffset opts = Some fs" and "0 \<le> fs"
    and "co_fileSizeBytes opts = Some n" and "co_rangeStart opts = Some s" and "0 \<le> s" and "s < n"
    and "co_rangeLen opts = Some l" and "0 < l"
    and "co_mduSizeBytes opts = Some m" and "32 \<le> m" and "0 < co_blobSizeBytes opts"
  shows "\<exists>cs. planPolyfsFileRangeChunks opts = Inr cs \<and> cs \<noteq> []"
proof -
  have "1 \<le> nat m div 32"
    using assms(10) div_le_mono [of 32 "nat m" 32] by simp
  then have cap: "0 < rawMduCapacityFromMduSize (co_mduSizeBytes opts)"
    using assms by (simp add: rawMduCapacityFromMduSize_def)
  obtain cs where cs: "chunk_loop (nat fs) (rawMduCapacityFromMduSize (co_mduSizeBytes opts))
      (co_blobSizeBytes opts) (nat s) (nat (min l (n - s))) = Inr cs"
      "tiles (nat s) (nat s + nat (min l (n - s))) cs"
    using chunk_loop_spec [OF cap assms(11)] by blast
  have "planPolyfsFileRangeChunks opts = Inr cs"
    using assms cap cs(1) by (simp add: planPolyfsFileRangeChunks_def Let_def)
  moreover have "cs \<noteq> []"
    using cs(2) assms by (auto dest: tiles_sum)
  ultimately show ?thesis
    by blast
qed

theorem range_chunks_total_witness:
  "\<exists>cs. planPolyfsFileRangeChunks sample_range = Inr cs \<and> cs \<noteq> []"
  using range_chunks_total [of sample_range 100 150 10 200 128] by (simp add: sample_range_def)

end
