(* ===== verification/RetrievalValues.thy ===== *)
theory RetrievalValues
  imports PolyfsPath
begin

text \<open>
  The value parsers of \<open>lib/retrieval.ts\<close>: JSON values as the code inspects them, canonical
  64-bit decimals, bounded integers, base64, hexadecimal and account addresses. A value of
  type \<open>unknown\<close> is a \<open>json option\<close>, where \<open>None\<close> is \<open>undefined\<close>. The
  \<open>bech32\<close> package is a parameter.
\<close>


section \<open>JSON values and strings\<close>

datatype json =
    JNull
  | JBool bool
  | JNum jsnum
  | JStr js_string
  | JArr "json list"
  | JObj "(string \<times> json) list"

text \<open>\<open>value.length\<close> counts UTF-16 units.\<close>

definition js_length :: "js_string \<Rightarrow> nat" where
  "js_length t = sum_list (map (\<lambda>c. if c < 0x10000 then 1 else 2) t)"

definition is_ascii :: "js_string \<Rightarrow> bool" where
  "is_ascii t \<longleftrightarrow> list_all (\<lambda>c. c < 128) t"

definition chars :: "js_string \<Rightarrow> string" where
  "chars t = map char_of t"

definition dec_text :: "nat \<Rightarrow> js_string" where
  "dec_text n = ascii (dec_string n)"

definition record_of :: "json option \<Rightarrow> (string \<rightharpoonup> json) result" where
  "record_of value = (case value of Some (JObj fields) \<Rightarrow> Inr (map_of fields) | _ \<Rightarrow> Inl ''expected object'')"


section \<open>Bounded integers\<close>

definition U64_MAX :: nat where
  "U64_MAX = 2 ^ 64 - 1"

definition u64 :: "json option \<Rightarrow> nat result" where
  "u64 value =
     (case value of
        Some (JStr s) \<Rightarrow>
          if \<not> (is_ascii s \<and> canonical_decimal (chars s) \<and> length s \<le> 20)
          then Inl ''expected canonical uint64 string''
          else let n = dec_val (chars s) in if n > U64_MAX then Inl ''uint64 overflow'' else Inr n
      | _ \<Rightarrow> Inl ''expected canonical uint64 string'')"

definition uint_of :: "json option \<Rightarrow> nat \<Rightarrow> nat result" where
  "uint_of value bound =
     (case value of
        Some (JNum v) \<Rightarrow>
          if \<not> isSafeInteger v \<or> js_less v 0 \<or> js_floor v > int bound then Inl ''invalid bounded integer''
          else Inr (nat (js_floor v))
      | _ \<Rightarrow> Inl ''invalid bounded integer'')"

definition protoU64 :: "json option \<Rightarrow> nat result" where
  "protoU64 value = (case value of None \<Rightarrow> Inr 0 | Some v \<Rightarrow> u64 (Some v))"

definition protoUint :: "json option \<Rightarrow> nat \<Rightarrow> nat result" where
  "protoUint value bound = (case value of None \<Rightarrow> Inr 0 | Some v \<Rightarrow> uint_of (Some v) bound)"

text \<open>\<open>names.indexOf(value)\<close>; \<open>None\<close> stands for -1.\<close>

fun index_of :: "'a \<Rightarrow> 'a list \<Rightarrow> nat option" where
  "index_of x [] = None"
| "index_of x (y # ys) = (if y = x then Some 0 else map_option Suc (index_of x ys))"

definition enumeration :: "json option \<Rightarrow> string list \<Rightarrow> nat result" where
  "enumeration value names =
     (case (case value of Some (JStr s) \<Rightarrow> index_of s (map ascii names) | _ \<Rightarrow> None) of
        Some i \<Rightarrow> Inr i
      | None \<Rightarrow> protoUint value (length names - 1))"


section \<open>Base64\<close>

text \<open>
  \<open>btoa\<close> on bytes, and \<open>atob\<close>: ASCII white space is dropped, up to two trailing padding
  characters are dropped when the length is a multiple of four, then every remaining
  character must be of the alphabet and the length must not be one more than a multiple of
  four.
\<close>

definition b64_char :: "nat \<Rightarrow> nat" where
  "b64_char v =
     (if v < 26 then 65 + v else if v < 52 then 97 + (v - 26) else if v < 62 then 48 + (v - 52)
      else if v = 62 then 43 else 47)"

definition b64_sextet :: "nat \<Rightarrow> nat option" where
  "b64_sextet c =
     (if 65 \<le> c \<and> c < 91 then Some (c - 65) else if 97 \<le> c \<and> c < 123 then Some (c - 97 + 26)
      else if 48 \<le> c \<and> c < 58 then Some (c - 48 + 52) else if c = 43 then Some 62
      else if c = 47 then Some 63 else None)"

fun btoa_nats :: "nat list \<Rightarrow> js_string" where
  "btoa_nats [] = []"
| "btoa_nats [a] = [b64_char (a div 4), b64_char (a mod 4 * 16), 61, 61]"
| "btoa_nats [a, b] = [b64_char (a div 4), b64_char (a mod 4 * 16 + b div 16), b64_char (b mod 16 * 4), 61]"
| "btoa_nats (a # b # c # xs) =
     b64_char (a div 4) # b64_char (a mod 4 * 16 + b div 16) # b64_char (b mod 16 * 4 + c div 64)
     # b64_char (c mod 64) # btoa_nats xs"

definition btoa :: "bytes \<Rightarrow> js_string" where
  "btoa bs = btoa_nats (map unat bs)"

fun sextets_bytes :: "nat list \<Rightarrow> nat list" where
  "sextets_bytes (x # y # z # w # xs) =
     (x * 4 + y div 16) # (y mod 16 * 16 + z div 4) # (z mod 4 * 64 + w) # sextets_bytes xs"
| "sextets_bytes [x, y, z] = [x * 4 + y div 16, y mod 16 * 16 + z div 4]"
| "sextets_bytes [x, y] = [x * 4 + y div 16]"
| "sextets_bytes _ = []"

fun drop_padding :: "js_string \<Rightarrow> js_string" where
  "drop_padding t =
     (if length t mod 4 = 0
      then let r = rev t
           in rev (if take 2 r = [61, 61] then drop 2 r else if take 1 r = [61] then drop 1 r else r)
      else t)"

definition atob :: "js_string \<Rightarrow> bytes option" where
  "atob t =
     (let d = drop_padding (filter (\<lambda>c. c \<notin> {9, 10, 12, 13, 32}) t) in
      if length d mod 4 = 1 then None
      else
        let s = map b64_sextet d in
        if None \<in> set s then None else Some (map word_of_nat (sextets_bytes (map the s))))"

definition base64 :: "json option \<Rightarrow> nat \<Rightarrow> bytes result" where
  "base64 value len =
     (case value of
        Some (JStr s) \<Rightarrow>
          if js_length s \<noteq> 4 * ceil_div len 3 then Inl ''invalid base64 length''
          else (case atob s of
                  None \<Rightarrow> Inl ''invalid base64''
                | Some decoded \<Rightarrow>
                    if length decoded \<noteq> len \<or> btoa decoded \<noteq> s then Inl ''noncanonical base64''
                    else Inr decoded)
      | _ \<Rightarrow> Inl ''invalid base64 length'')"


section \<open>Hexadecimal\<close>

definition hex_digit :: "nat \<Rightarrow> nat" where
  "hex_digit v = (if v < 10 then 48 + v else 97 + (v - 10))"

definition hex_value :: "nat \<Rightarrow> nat option" where
  "hex_value c =
     (if 48 \<le> c \<and> c < 58 then Some (c - 48) else if 97 \<le> c \<and> c < 103 then Some (c - 97 + 10) else None)"

definition hex :: "bytes \<Rightarrow> js_string" where
  "hex bs = ascii ''0x'' @ concat (map (\<lambda>b. [hex_digit (unat b div 16), hex_digit (unat b mod 16)]) bs)"

fun hex_pairs :: "nat list \<Rightarrow> bytes" where
  "hex_pairs (a # b # xs) = word_of_nat (16 * the (hex_value a) + the (hex_value b)) # hex_pairs xs"
| "hex_pairs _ = []"

definition unhex :: "json option \<Rightarrow> nat \<Rightarrow> bytes result" where
  "unhex value len =
     (case value of
        Some (JStr s) \<Rightarrow>
          if js_length s \<noteq> 2 + len * 2 \<or> take 2 s \<noteq> ascii ''0x'' \<or> drop 2 s = []
             \<or> list_ex (\<lambda>c. hex_value c = None) (drop 2 s)
          then Inl ''invalid canonical hex''
          else Inr (hex_pairs (drop 2 s))
      | _ \<Rightarrow> Inl ''invalid canonical hex'')"

definition equal_bytes :: "bytes \<Rightarrow> bytes \<Rightarrow> bool" where
  "equal_bytes a b \<longleftrightarrow> length a = length b \<and> list_all (\<lambda>i. a ! i = b ! i) [0..<length a]"


section \<open>Accounts\<close>

text \<open>The functions of the \<open>bech32\<close> package that the code calls; \<open>None\<close> where they throw.\<close>

record bech32_lib =
  bech32_decode :: "js_string \<Rightarrow> (js_string \<times> nat list) option"
  bech32_fromWords :: "nat list \<Rightarrow> bytes option"
  bech32_encode :: "js_string \<Rightarrow> nat list \<Rightarrow> js_string"

definition account :: "bech32_lib \<Rightarrow> json option \<Rightarrow> js_string result" where
  "account lib value =
     (case value of
        Some (JStr s) \<Rightarrow>
          (case bech32_decode lib s of
             None \<Rightarrow> Inl ''invalid bech32''
           | Some (prefix, words) \<Rightarrow>
               if prefix \<noteq> ascii ''nil'' then Inl ''noncanonical account''
               else (case bech32_fromWords lib words of
                       None \<Rightarrow> Inl ''invalid bech32 words''
                     | Some b \<Rightarrow>
                         if length b \<noteq> 20 \<or> bech32_encode lib prefix words \<noteq> s
                         then Inl ''noncanonical account'' else Inr s))
      | _ \<Rightarrow> Inl ''invalid account'')"

definition accountBytes :: "bech32_lib \<Rightarrow> js_string \<Rightarrow> bytes result" where
  "accountBytes lib value =
     sbind (account lib (Some (JStr value))) (\<lambda>_.
     case bech32_decode lib value of
       None \<Rightarrow> Inl ''invalid bech32''
     | Some (prefix, words) \<Rightarrow>
         (case bech32_fromWords lib words of None \<Rightarrow> Inl ''invalid bech32 words'' | Some b \<Rightarrow> Inr b))"


section \<open>Every accepted string is canonical\<close>

lemma chars_ascii [simp]: "chars (ascii s) = s"
  by (simp add: chars_def ascii_def comp_def)

lemma length_ascii [simp]: "length (ascii s) = length s"
  by (simp add: ascii_def)

lemma ascii_chars: "is_ascii t \<Longrightarrow> ascii (chars t) = t"
  by (induction t) (auto simp: is_ascii_def ascii_def chars_def)

lemma digits_ascii: "list_all digit s \<Longrightarrow> is_ascii (ascii s)"
  by (auto simp: is_ascii_def ascii_def list_all_iff digit_def)

lemma js_length_ascii: "is_ascii t \<Longrightarrow> js_length t = length t"
  by (induction t) (auto simp: is_ascii_def js_length_def)

lemma is_ascii_append [simp]: "is_ascii (s @ t) \<longleftrightarrow> is_ascii s \<and> is_ascii t"
  by (simp add: is_ascii_def)

lemma u64_dec_text: "n < 2 ^ 64 \<Longrightarrow> u64 (Some (JStr (dec_text n))) = Inr n"
proof -
  assume n: "n < 2 ^ 64"
  then have "length (dec_string n) \<le> Suc 19"
    by (intro length_dec_string) simp
  then show ?thesis
    using n by (simp add: u64_def dec_text_def digits_ascii [OF dec_string_digits] U64_MAX_def)
qed

lemma u64_Inr: "u64 v = Inr n \<longleftrightarrow> n < 2 ^ 64 \<and> v = Some (JStr (dec_text n))"
proof
  assume u: "u64 v = Inr n"
  then obtain s where s: "v = Some (JStr s)" "is_ascii s" "canonical_decimal (chars s)"
      "n = dec_val (chars s)" "n \<le> U64_MAX"
    by (auto simp: u64_def Let_def split: option.splits json.splits if_splits)
  have "dec_text n = s"
    using dec_string_dec_val [OF s(3)] ascii_chars [OF s(2)] s(4) by (simp add: dec_text_def)
  then show "n < 2 ^ 64 \<and> v = Some (JStr (dec_text n))"
    using s by (simp add: U64_MAX_def)
next
  assume "n < 2 ^ 64 \<and> v = Some (JStr (dec_text n))"
  then show "u64 v = Inr n"
    using u64_dec_text by simp
qed

lemma uint_of_Inr:
  "uint_of v b = Inr n \<Longrightarrow> n \<le> b \<and> n \<le> 9007199254740991 \<and> v = Some (JNum (num n))"
proof -
  assume "uint_of v b = Inr n"
  then obtain x where x: "v = Some (JNum x)" "isSafeInteger x" "\<not> js_less x 0" "js_floor x \<le> int b"
      "n = nat (js_floor x)"
    by (auto simp: uint_of_def split: option.splits json.splits if_splits)
  then obtain r where r: "x = Fin r"
    by (cases x) auto
  have i: "of_int \<lfloor>r\<rfloor> = r" "0 \<le> r"
    using x r by (auto simp: integral_def)
  then have "0 \<le> \<lfloor>r\<rfloor>"
    by simp
  then have "of_nat n = r"
    using i x r by simp
  then have "x = num n"
    using r by (simp add: num_def)
  then show ?thesis
    using x(1,2,4) by (simp add: nat_le_iff)
qed

lemma uint_of_num [simp]: "n \<le> b \<Longrightarrow> n \<le> 9007199254740991 \<Longrightarrow> uint_of (Some (JNum (num n))) b = Inr n"
  by (simp add: uint_of_def)

text \<open>Base64: the decoder accepts the encoding of the bytes it returns and nothing else.\<close>

lemma b64_sextet_char [simp]: "v < 64 \<Longrightarrow> b64_sextet (b64_char v) = Some v"
  by (auto simp: b64_sextet_def b64_char_def)

lemma b64_char_facts:
  "v < 64 \<Longrightarrow> b64_char v \<noteq> 61 \<and> b64_char v \<notin> {9, 10, 12, 13, 32} \<and> b64_char v < 128"
  by (auto simp: b64_char_def)

lemma btoa_ascii: "list_all (\<lambda>x. x < 256) xs \<Longrightarrow> is_ascii (btoa_nats xs)"
proof (induction xs rule: btoa_nats.induct)
  case (2 a)
  then have "a div 4 < 64" "a mod 4 * 16 < 64"
    by auto
  then show ?case by (simp add: is_ascii_def b64_char_facts)
next
  case (3 a b)
  then have "a div 4 < 64" "a mod 4 * 16 + b div 16 < 64" "b mod 16 * 4 < 64"
    by auto
  then show ?case by (simp add: is_ascii_def b64_char_facts)
next
  case (4 a b c xs)
  then have "a div 4 < 64" "a mod 4 * 16 + b div 16 < 64" "b mod 16 * 4 + c div 64 < 64" "c mod 64 < 64"
    by auto
  then show ?case using 4 by (simp add: is_ascii_def b64_char_facts)
qed (simp add: is_ascii_def)

lemma length_btoa: "length (btoa_nats xs) = 4 * ceil_div (length xs) 3"
  by (induction xs rule: btoa_nats.induct) (simp_all add: ceil_div_def, presburger)

fun sextets :: "nat list \<Rightarrow> nat list" where
  "sextets [] = []"
| "sextets [a] = [a div 4, a mod 4 * 16]"
| "sextets [a, b] = [a div 4, a mod 4 * 16 + b div 16, b mod 16 * 4]"
| "sextets (a # b # c # xs) =
     (a div 4) # (a mod 4 * 16 + b div 16) # (b mod 16 * 4 + c div 64) # (c mod 64) # sextets xs"

fun padding :: "nat list \<Rightarrow> nat list" where
  "padding [] = []"
| "padding [a] = [61, 61]"
| "padding [a, b] = [61]"
| "padding (a # b # c # xs) = padding xs"

lemma btoa_sextets: "btoa_nats xs = map b64_char (sextets xs) @ padding xs"
  by (induction xs rule: btoa_nats.induct) auto

lemma sextets_less: "list_all (\<lambda>x. x < 256) xs \<Longrightarrow> list_all (\<lambda>x. x < 64) (sextets xs)"
  by (induction xs rule: sextets.induct) auto

lemma sextets_length: "length (sextets xs) mod 4 \<noteq> 1"
  by (induction xs rule: sextets.induct) (auto simp: mod_Suc)

lemma sextets_bytes_sextets: "list_all (\<lambda>x. x < 256) xs \<Longrightarrow> sextets_bytes (sextets xs) = xs"
  by (induction xs rule: sextets.induct) auto

lemma padding_cases: "padding xs = [] \<or> padding xs = [61] \<or> padding xs = [61, 61]"
  by (induction xs rule: padding.induct) auto

lemma drop_padding_btoa:
  assumes "61 \<notin> set b" and "p = [] \<or> p = [61] \<or> p = [61, 61]" and "length (b @ p) mod 4 = 0"
  shows "drop_padding (b @ p) = b"
proof -
  have r: "take 2 (rev b) \<noteq> [61, 61]" "take 1 (rev b) \<noteq> [61]"
    using assms(1) by (metis in_set_takeD list.set_intros(1) set_rev)+
  show ?thesis
    using assms(2)
  proof (elim disjE)
    assume p: "p = []"
    then show ?thesis
      using assms(3) r by (simp add: Let_def)
  next
    assume p: "p = [61]"
    have "take 2 (61 # rev b) \<noteq> [61, 61]"
      using r(2) by (simp add: numeral_2_eq_2)
    then show ?thesis
      using assms(3) p by (simp add: Let_def)
  next
    assume p: "p = [61, 61]"
    then show ?thesis
      using assms(3) by (simp add: Let_def)
  qed
qed

lemma atob_btoa: "atob (btoa bs) = Some bs"
proof -
  let ?xs = "map unat bs"
  have small: "list_all (\<lambda>x. x < 256) ?xs"
    by (simp add: list_all_iff)
  note s = sextets_less [OF small]
  have body: "61 \<notin> set (map b64_char (sextets ?xs))"
    and keep: "filter (\<lambda>c. c \<notin> {9, 10, 12, 13, 32}) (map b64_char (sextets ?xs)) = map b64_char (sextets ?xs)"
    using s b64_char_facts by (auto simp: list_all_iff filter_id_conv)
  have pad: "filter (\<lambda>c. c \<notin> {9, 10, 12, 13, 32}) (padding ?xs) = padding ?xs"
    using padding_cases [of ?xs] by auto
  have "length (btoa_nats ?xs) mod 4 = 0"
    by (simp only: length_btoa) simp
  then have "drop_padding (map b64_char (sextets ?xs) @ padding ?xs) = map b64_char (sextets ?xs)"
    using body padding_cases [of ?xs] by (intro drop_padding_btoa) (simp_all add: btoa_sextets)
  then have d: "drop_padding (filter (\<lambda>c. c \<notin> {9, 10, 12, 13, 32}) (btoa bs)) = map b64_char (sextets ?xs)"
    unfolding btoa_def btoa_sextets filter_append keep pad .
  have m: "map b64_sextet (map b64_char (sextets ?xs)) = map Some (sextets ?xs)"
    using s by (simp add: list_all_iff)
  have "map word_of_nat (sextets_bytes (sextets ?xs)) = bs"
    by (simp add: sextets_bytes_sextets [OF small] comp_def)
  then show ?thesis
    unfolding atob_def d m Let_def using sextets_length [of ?xs] by (auto simp: comp_def)
qed

lemma base64_Inr: "base64 v n = Inr bs \<longleftrightarrow> length bs = n \<and> v = Some (JStr (btoa bs))"
proof -
  have len: "js_length (btoa bs) = 4 * ceil_div (length bs) 3"
    unfolding btoa_def by (simp add: js_length_ascii btoa_ascii length_btoa list_all_iff)
  show ?thesis
    by (auto simp: base64_def atob_btoa len split: option.splits json.splits if_splits)
qed

text \<open>Hexadecimal: lower case, two digits per byte, never empty.\<close>

lemma hex_value_digit [simp]: "v < 16 \<Longrightarrow> hex_value (hex_digit v) = Some v"
  by (auto simp: hex_value_def hex_digit_def)

lemma hex_digit_value: "hex_value c = Some v \<Longrightarrow> hex_digit v = c \<and> v < 16 \<and> c < 128"
  by (auto simp: hex_value_def hex_digit_def split: if_splits)

definition hex_body :: "bytes \<Rightarrow> nat list" where
  "hex_body bs = concat (map (\<lambda>b. [hex_digit (unat b div 16), hex_digit (unat b mod 16)]) bs)"

lemma byte_nibbles: "unat (b :: byte) div 16 < 16" "unat b mod 16 < 16"
  using unat_byte_less [of b] by (auto simp: less_mult_imp_div_less)

lemma hex_pairs_body: "hex_pairs (hex_body bs) = bs"
proof (induction bs)
  case Nil
  then show ?case by (simp add: hex_body_def)
next
  case (Cons b bs)
  have "(word_of_nat (16 * (unat b div 16) + unat b mod 16) :: byte) = b"
    by (simp only: mult_div_mod_eq) simp
  then show ?case
    using Cons byte_nibbles [of b] by (simp add: hex_body_def)
qed

lemma unat_nibbles:
  assumes "u < 16" and "v < 16"
  shows "unat (16 * word_of_nat u + word_of_nat v :: byte) = 16 * u + v"
proof -
  have "(16 * word_of_nat u + word_of_nat v :: byte) = word_of_nat (16 * u + v)"
    by simp
  moreover have "16 * u + v < 2 ^ LENGTH(8)"
    using assms by simp
  ultimately show ?thesis
    by (simp only: unat_of_nat mod_less)
qed

lemma hex_body_pairs:
  "even (length t) \<Longrightarrow> list_all (\<lambda>c. hex_value c \<noteq> None) t \<Longrightarrow> hex_body (hex_pairs t) = t"
proof (induction t rule: hex_pairs.induct)
  case (1 a b xs)
  then obtain u v where uv: "hex_value a = Some u" "hex_value b = Some v"
    by auto
  then have d: "hex_digit u = a" "hex_digit v = b" "u < 16" "v < 16"
    using hex_digit_value by blast+
  then show ?case
    using 1 uv unat_nibbles [OF d(3,4)] by (simp add: hex_body_def)
qed (simp_all add: hex_body_def)

lemma hex_body_facts:
  "list_all (\<lambda>c. hex_value c \<noteq> None) (hex_body bs) \<and> length (hex_body bs) = 2 * length bs"
  using byte_nibbles by (induction bs) (simp_all add: hex_body_def)

lemma hex_chars_ascii: "list_all (\<lambda>c. hex_value c \<noteq> None) t \<Longrightarrow> is_ascii t"
  using hex_digit_value by (fastforce simp: is_ascii_def list_all_iff)

lemma hex_prefix: "hex bs = ascii ''0x'' @ hex_body bs" "is_ascii (ascii ''0x'')"
  by (simp_all add: hex_def hex_body_def is_ascii_def ascii_def)

lemma unhex_Inr: "unhex v n = Inr bs \<longleftrightarrow> length bs = n \<and> 0 < n \<and> v = Some (JStr (hex bs))"
proof
  assume "unhex v n = Inr bs"
  then obtain s where s: "v = Some (JStr s)" "js_length s = 2 + n * 2" "take 2 s = ascii ''0x''"
      "drop 2 s \<noteq> []" "list_all (\<lambda>c. hex_value c \<noteq> None) (drop 2 s)" "bs = hex_pairs (drop 2 s)"
    by (auto simp: unhex_def list_ex_iff list_all_iff split: option.splits json.splits if_splits)
  have split: "s = ascii ''0x'' @ drop 2 s"
    using s(3) by (metis append_take_drop_id)
  then have "is_ascii s"
    using hex_chars_ascii [OF s(5)] hex_prefix(2) by (metis is_ascii_append)
  then have len: "length s = 2 + n * 2"
    using s(2) js_length_ascii by simp
  then have "hex_body bs = drop 2 s"
    using s(5,6) by (simp add: hex_body_pairs)
  then have "s = hex bs" "n * 2 = 2 * length bs"
    using split hex_body_facts [of bs] len by (simp_all add: hex_prefix(1))
  then show "length bs = n \<and> 0 < n \<and> v = Some (JStr (hex bs))"
    using s(1,4) len by auto
next
  assume a: "length bs = n \<and> 0 < n \<and> v = Some (JStr (hex bs))"
  note b = hex_body_facts [of bs]
  have "js_length (hex bs) = 2 + n * 2"
    using a b hex_chars_ascii [of "hex_body bs"] hex_prefix by (simp add: js_length_ascii)
  moreover have "take 2 (hex bs) = ascii ''0x''" "drop 2 (hex bs) = hex_body bs"
    by (simp_all add: hex_prefix(1))
  moreover have "hex_body bs \<noteq> []"
    using a b by auto
  ultimately show "unhex v n = Inr bs"
    using a b hex_pairs_body by (auto simp: unhex_def list_ex_iff list_all_iff)
qed

text \<open>The three formats as codecs over the strings of a JSON document.\<close>

definition u64_enc :: "nat \<Rightarrow> json option result" where
  "u64_enc n = (if n < 2 ^ 64 then Inr (Some (JStr (dec_text n))) else Inl ''range'')"

definition base64_enc :: "nat \<Rightarrow> bytes \<Rightarrow> json option result" where
  "base64_enc len bs = (if length bs = len then Inr (Some (JStr (btoa bs))) else Inl ''length'')"

definition hex_enc :: "nat \<Rightarrow> bytes \<Rightarrow> json option result" where
  "hex_enc len bs = (if length bs = len \<and> 0 < len then Inr (Some (JStr (hex bs))) else Inl ''length'')"

interpretation u64_codec: canonical_codec u64_enc u64
  by unfold_locales (auto simp: u64_enc_def u64_Inr split: if_splits)

interpretation base64_codec: canonical_codec "base64_enc len" "\<lambda>v. base64 v len" for len
  by unfold_locales (auto simp: base64_enc_def base64_Inr split: if_splits)

interpretation hex_codec: canonical_codec "hex_enc len" "\<lambda>v. unhex v len" for len
  by unfold_locales (auto simp: hex_enc_def unhex_Inr split: if_splits)

text \<open>
  C23: the value parsers accept exactly one string per value: a 64-bit integer only in
  canonical decimal, bytes only in padded canonical base64 or in lower-case hexadecimal
  of the expected length, and each returns the value that the string encodes.
\<close>

theorem wire_values_canonical:
  "(u64 v = Inr n \<longleftrightarrow> n < 2 ^ 64 \<and> v = Some (JStr (dec_text n)))
   \<and> (base64 v len = Inr bs \<longleftrightarrow> length bs = len \<and> v = Some (JStr (btoa bs)))
   \<and> (unhex v len = Inr bs \<longleftrightarrow> length bs = len \<and> 0 < len \<and> v = Some (JStr (hex bs)))"
  using u64_Inr base64_codec.enc_iff_dec [of len bs v] hex_codec.enc_iff_dec [of len bs v]
  by (auto simp: base64_enc_def hex_enc_def)

end
