(* ===== verification/RetrievalPlan.thy ===== *)
theory RetrievalPlan
  imports PolyfsLayout RetrievalValues "HOL-Library.AList" "HOL-Library.Multiset"
begin

text \<open>
  The pinned generation of a deal and the plan of retrieval windows (\<open>lib/retrieval.ts\<close>).
  A \<open>bigint\<close> that the code checks for a negative sign is an \<open>int\<close>; heights, identifiers
  and counts that come from the 64-bit parser are \<open>nat\<close>.
\<close>

definition RAW_BLOB_BYTES :: nat where
  "RAW_BLOB_BYTES = 126976"

definition RAW_MDU :: nat where
  "RAW_MDU = RAW_MDU_CAPACITY_BYTES"

lemma raw_values [simp]: "RAW_BLOB_BYTES = 126976" "RAW_MDU = 8126464"
  by (simp_all add: RAW_BLOB_BYTES_def RAW_MDU_def)


section \<open>The pinned generation\<close>

record assignment =
  as_provider :: js_string
  as_active :: bool

record pinned_generation =
  pg_chainId :: js_string
  pg_height :: nat
  pg_dealId :: nat
  pg_generation :: nat
  pg_root :: js_string
  pg_owner :: js_string
  pg_endHeight :: nat
  pg_layout :: nat
  pg_k :: nat
  pg_m :: nat
  pg_rows :: nat
  pg_leafCount :: nat
  pg_metadataMdus :: nat
  pg_userMdus :: nat
  pg_totalMdus :: nat
  pg_assignments :: "assignment list"

definition slot_assignment :: "bech32_lib \<Rightarrow> json \<times> nat \<Rightarrow> assignment result" where
  "slot_assignment lib entry =
     (let (raw, slot) = entry in
      sbind (record_of (Some raw)) (\<lambda>s.
      sbind (protoUint (s ''slot'') 255) (\<lambda>n.
      if n \<noteq> slot then Inl ''unordered assignments''
      else
      sbind (enumeration (s ''status'')
               [''SLOT_STATUS_UNSPECIFIED'', ''SLOT_STATUS_ACTIVE'', ''SLOT_STATUS_REPAIRING'']) (\<lambda>status.
      if status = 0 then Inl ''unknown assignment status''
      else
      sbind (account lib (s ''provider'')) (\<lambda>p.
      Inr \<lparr>as_provider = p, as_active = (status = 1)\<rparr>)))))"

definition parse_assignments ::
  "bech32_lib \<Rightarrow> (string \<rightharpoonup> json) \<Rightarrow> nat \<Rightarrow> nat \<Rightarrow> nat \<Rightarrow> assignment list result" where
  "parse_assignments lib d layout k m =
     (if layout = 2 then
        (case d ''mode2_slots'' of
           Some (JArr slots) \<Rightarrow>
             if length slots \<noteq> k + m then Inl ''incomplete assignments''
             else smap (slot_assignment lib) (zip slots [0..<length slots])
         | _ \<Rightarrow> Inl ''incomplete assignments'')
      else
        (case d ''providers'' of
           Some (JArr providers) \<Rightarrow>
             if providers = [] \<or> length providers > 256 then Inl ''invalid replica assignments''
             else
             sbind (smap (\<lambda>p. sbind (account lib (Some p)) (\<lambda>a. Inr \<lparr>as_provider = a, as_active = True\<rparr>)) providers) (\<lambda>as.
             if card (set (map as_provider as)) \<noteq> length as then Inl ''duplicate replica assignment'' else Inr as)
         | _ \<Rightarrow> Inl ''invalid replica assignments''))"

definition parsePinnedGeneration ::
  "bech32_lib \<Rightarrow> json option \<Rightarrow> js_string \<Rightarrow> nat \<Rightarrow> nat \<Rightarrow> pinned_generation result" where
  "parsePinnedGeneration lib payload chainId height dealId =
     (if chainId = [] \<or> length (utf8_encode chainId) > 50 \<or> 0 \<in> set chainId \<or> height < 1
      then Inl ''invalid committed chain identity''
      else
      sbind (record_of payload) (\<lambda>p.
      sbind (record_of (p ''deal'')) (\<lambda>d.
      sbind (protoU64 (d ''id'')) (\<lambda>id.
      if id \<noteq> dealId then Inl ''wrong deal''
      else
      sbind (protoUint (d ''redundancy_mode'') 2) (\<lambda>layout.
      if layout \<noteq> 1 \<and> layout \<noteq> 2 then Inl ''unsupported layout''
      else
      sbind (if layout = 2 then record_of (d ''mode2_profile'')
             else Inr [''k'' \<mapsto> JNum (num 1), ''m'' \<mapsto> JNum (num 0)]) (\<lambda>profile.
      sbind (uint_of (profile ''k'') 64) (\<lambda>k.
      sbind (uint_of (profile ''m'') 255) (\<lambda>m.
      if k = 0 \<or> 64 mod k \<noteq> 0 \<or> (layout = 2 \<and> (m = 0 \<or> k + m > 256)) then Inl ''invalid stripe geometry''
      else
      sbind (protoU64 (d ''total_mdus'')) (\<lambda>totalMdus.
      sbind (protoU64 (d ''witness_mdus'')) (\<lambda>witness.
      let metadataMdus = 1 + witness in
      if metadataMdus > totalMdus \<or> totalMdus > 65537 then Inl ''invalid MDU bounds''
      else
      sbind (protoU64 (d ''end_block'')) (\<lambda>endHeight.
      if height \<ge> endHeight then Inl ''deal expired''
      else
      sbind (parse_assignments lib d layout k m) (\<lambda>assignments.
      sbind (protoU64 (d ''current_gen'')) (\<lambda>generation.
      sbind (base64 (d ''manifest_root'') 32) (\<lambda>root.
      sbind (account lib (d ''owner'')) (\<lambda>owner.
      Inr \<lparr>pg_chainId = chainId, pg_height = height, pg_dealId = dealId, pg_generation = generation,
           pg_root = hex root, pg_owner = owner, pg_endHeight = endHeight, pg_layout = layout,
           pg_k = k, pg_m = m, pg_rows = 64 div k, pg_leafCount = 64 div k * (k + m),
           pg_metadataMdus = metadataMdus, pg_userMdus = totalMdus - metadataMdus,
           pg_totalMdus = totalMdus, pg_assignments = assignments\<rparr>)))))))))))))))"


section \<open>Retrieval windows\<close>

record retrieval_file =
  rf_path :: js_string
  rf_start_offset :: int
  rf_size_bytes :: int
  rf_flags :: nat

record window_slice =
  sl_encodedBlobIndex :: nat
  sl_rawOffset :: nat
  sl_length :: nat
  sl_outputOffset :: nat

record retrieval_window =
  rw_mduIndex :: nat
  rw_slot :: nat
  rw_provider :: js_string
  rw_startBlobIndex :: nat
  rw_blobCount :: nat
  rw_slices :: "window_slice list"

text \<open>
  One pass of the inner loop of \<open>planRetrievalWindows\<close> at \<open>cursor\<close>: the slice up to
  the end of the blob or of the range joins the group of its slot. The groups are a \<open>Map\<close>
  in insertion order, an association list that \<open>AList.update\<close> changes in place.
\<close>

definition slice_stop :: "nat \<Rightarrow> nat \<Rightarrow> nat" where
  "slice_stop end_pos cursor =
     (let inMdu = cursor mod RAW_MDU;
          next_pos = cursor + (RAW_BLOB_BYTES - inMdu mod RAW_BLOB_BYTES)
      in if next_pos < end_pos then next_pos else end_pos)"

definition window_step ::
  "pinned_generation \<Rightarrow> bool \<Rightarrow> nat \<Rightarrow> nat \<Rightarrow> nat \<Rightarrow> nat \<Rightarrow> (nat \<times> retrieval_window) list
   \<Rightarrow> (nat \<times> retrieval_window) list result" where
  "window_step pin allowInactive first end_pos ordinal cursor groups =
     (let inMdu = cursor mod RAW_MDU;
          blob = inMdu div RAW_BLOB_BYTES;
          slot = if pg_layout pin = 2 then blob mod pg_k pin else 0;
          row = if pg_layout pin = 2 then blob div pg_k pin else blob
      in
      if slot \<ge> length (pg_assignments pin) \<or> (\<not> as_active (pg_assignments pin ! slot) \<and> \<not> allowInactive)
      then Inl ''required assignment unavailable; deputy or parity must be explicitly authorized before payment''
      else
      let leaf = slot * pg_rows pin + row;
          group = (case map_of groups slot of
                     Some g \<Rightarrow> g
                   | None \<Rightarrow> \<lparr>rw_mduIndex = pg_metadataMdus pin + ordinal, rw_slot = slot,
                              rw_provider = as_provider (pg_assignments pin ! slot),
                              rw_startBlobIndex = leaf, rw_blobCount = 0, rw_slices = []\<rparr>)
      in
      if leaf \<noteq> rw_startBlobIndex group + rw_blobCount group then Inl ''noncontiguous slot range''
      else
        Inr (AList.update slot
               (group\<lparr>rw_slices := rw_slices group @
                        [\<lparr>sl_encodedBlobIndex = blob, sl_rawOffset = inMdu mod RAW_BLOB_BYTES,
                          sl_length = slice_stop end_pos cursor - cursor, sl_outputOffset = cursor - first\<rparr>],
                      rw_blobCount := rw_blobCount group + 1\<rparr>) groups))"

lemma slice_stop_progress: "cursor < e \<Longrightarrow> cursor < slice_stop e cursor \<and> slice_stop e cursor \<le> e"
  using mod_less_divisor [of RAW_BLOB_BYTES "cursor mod RAW_MDU"]
  by (auto simp: slice_stop_def Let_def)

function mdu_windows ::
  "pinned_generation \<Rightarrow> bool \<Rightarrow> nat \<Rightarrow> nat \<Rightarrow> nat \<Rightarrow> nat \<Rightarrow> (nat \<times> retrieval_window) list
   \<Rightarrow> ((nat \<times> retrieval_window) list \<times> nat) result" where
  "mdu_windows pin allowInactive first end_pos ordinal cursor groups =
     (if cursor < end_pos \<and> cursor < (ordinal + 1) * RAW_MDU then
        sbind (window_step pin allowInactive first end_pos ordinal cursor groups) (\<lambda>groups'.
        mdu_windows pin allowInactive first end_pos ordinal (slice_stop end_pos cursor) groups')
      else Inr (groups, cursor))"
  by auto
termination
proof (relation "measure (\<lambda>(_, _, _, end_pos, _, cursor, _). end_pos - cursor)")
  fix pin :: pinned_generation and allow :: bool and first e ordinal cursor :: nat
    and groups g' :: "(nat \<times> retrieval_window) list"
  assume "cursor < e \<and> cursor < (ordinal + 1) * RAW_MDU"
  then show "((pin, allow, first, e, ordinal, slice_stop e cursor, g'), pin, allow, first, e, ordinal, cursor, groups)
      \<in> measure (\<lambda>(_, _, _, end_pos, _, cursor, _). end_pos - cursor)"
    using slice_stop_progress [of cursor e] by auto
qed simp

declare mdu_windows.simps [simp del]

lemma mdu_windows_done:
  "\<not> (cursor < e \<and> cursor < (ordinal + 1) * RAW_MDU) \<Longrightarrow>
   mdu_windows pin allow first e ordinal cursor groups = Inr (groups, cursor)"
  by (subst mdu_windows.simps) (simp only: if_False)

lemma mdu_windows_step:
  "cursor < e \<and> cursor < (ordinal + 1) * RAW_MDU \<Longrightarrow>
   mdu_windows pin allow first e ordinal cursor groups =
     sbind (window_step pin allow first e ordinal cursor groups)
       (mdu_windows pin allow first e ordinal (slice_stop e cursor))"
  by (subst mdu_windows.simps) (simp only: if_True simp_thms)

lemma mdu_windows_progress:
  "mdu_windows pin allow first e ordinal cursor groups = Inr (g, c) \<Longrightarrow>
   cursor \<le> c \<and> (cursor < e \<and> cursor < (ordinal + 1) * RAW_MDU \<longrightarrow> cursor < c)"
proof (induction pin allow first e ordinal cursor groups rule: mdu_windows.induct)
  case (1 pin allow first e ordinal cursor groups)
  show ?case
  proof (cases "cursor < e \<and> cursor < (ordinal + 1) * RAW_MDU")
    case False
    then show ?thesis
      using "1.prems" mdu_windows_done by force
  next
    case True
    then obtain groups' where "mdu_windows pin allow first e ordinal (slice_stop e cursor) groups' = Inr (g, c)"
      using "1.prems" unfolding mdu_windows_step [OF True] sbind_eq_Inr by blast
    then have "slice_stop e cursor \<le> c"
      using "1.IH" True by blast
    then show ?thesis
      using slice_stop_progress [of cursor e] True by linarith
  qed
qed

text \<open>
  The generator: the windows it yields before it ends or throws, and the error it throws.
\<close>

function window_loop ::
  "pinned_generation \<Rightarrow> bool \<Rightarrow> nat \<Rightarrow> nat \<Rightarrow> nat \<Rightarrow> retrieval_window list \<times> string option" where
  "window_loop pin allowInactive first end_pos cursor =
     (if cursor < end_pos then
        let ordinal = cursor div RAW_MDU in
        (case mdu_windows pin allowInactive first end_pos ordinal cursor [] of
           Inl e \<Rightarrow> ([], Some e)
         | Inr r \<Rightarrow>
             let (ws, err) = window_loop pin allowInactive first end_pos (snd r)
             in (map snd (fst r) @ ws, err))
      else ([], None))"
  by auto
termination
proof (relation "measure (\<lambda>(_, _, _, end_pos, cursor). end_pos - cursor)")
  fix pin :: pinned_generation and allow :: bool and first e cursor ordinal :: nat
    and r :: "(nat \<times> retrieval_window) list \<times> nat"
  assume "cursor < e" and "ordinal = cursor div RAW_MDU"
    and "mdu_windows pin allow first e ordinal cursor [] = Inr r"
  moreover have "cursor < (cursor div RAW_MDU + 1) * RAW_MDU"
    using dividend_less_div_times [of RAW_MDU cursor] by simp
  ultimately have "cursor < snd r"
    using mdu_windows_progress [of pin allow first e ordinal cursor "[]" "fst r" "snd r"] by simp
  then show "((pin, allow, first, e, snd r), pin, allow, first, e, cursor)
      \<in> measure (\<lambda>(_, _, _, end_pos, cursor). end_pos - cursor)"
    using \<open>cursor < e\<close> by simp
qed simp

declare window_loop.simps [simp del]

definition planRetrievalWindows ::
  "pinned_generation \<Rightarrow> retrieval_file \<Rightarrow> int \<Rightarrow> int \<Rightarrow> bool \<Rightarrow> retrieval_window list \<times> string option" where
  "planRetrievalWindows pin file rangeStart rangeLength allowInactive =
     (if rf_flags file \<noteq> 0
      then ([], Some ''transformed/encrypted retrieval requires a supported bounded decoder before payment'')
      else if rf_start_offset file < 0 \<or> rf_size_bytes file < 0
              \<or> rf_start_offset file + rf_size_bytes file > int (pg_userMdus pin) * int RAW_MDU
              \<or> rangeStart < 0 \<or> rangeLength \<le> 0 \<or> rangeStart + rangeLength > rf_size_bytes file
      then ([], Some ''invalid file range'')
      else
        let first = nat (rf_start_offset file + rangeStart); end_pos = first + nat rangeLength
        in window_loop pin allowInactive first end_pos first)"


section \<open>The windows of one MDU\<close>

text \<open>A pin with the geometry that \<open>parsePinnedGeneration\<close> accepts.\<close>

definition wf_pin :: "pinned_generation \<Rightarrow> bool" where
  "wf_pin pin \<longleftrightarrow>
     0 < pg_k pin \<and> pg_rows pin * pg_k pin = 64 \<and> (pg_layout pin = 2 \<or> pg_layout pin = 1 \<and> pg_k pin = 1)"

lemma wf_pin_slot_row:
  assumes "wf_pin pin"
  shows "(if pg_layout pin = 2 then blob mod pg_k pin else 0) = blob mod pg_k pin"
    and "(if pg_layout pin = 2 then blob div pg_k pin else blob) = blob div pg_k pin"
  using assms by (auto simp: wf_pin_def)

text \<open>A slice is the part of one blob that it says it is.\<close>

definition slice_ok :: "pinned_generation \<Rightarrow> nat \<Rightarrow> retrieval_window \<Rightarrow> window_slice \<Rightarrow> bool" where
  "slice_ok pin first w s \<longleftrightarrow>
     0 < sl_length s \<and> sl_rawOffset s + sl_length s \<le> RAW_BLOB_BYTES \<and> sl_encodedBlobIndex s < BLOBS_PER_MDU
     \<and> sl_encodedBlobIndex s mod pg_k pin = rw_slot w
     \<and> pg_metadataMdus pin \<le> rw_mduIndex w
     \<and> (rw_mduIndex w - pg_metadataMdus pin) * RAW_MDU + sl_encodedBlobIndex s * RAW_BLOB_BYTES + sl_rawOffset s
         = first + sl_outputOffset s"

text \<open>
  A window is a contiguous run of leaves of its slot: its \<open>i\<close>-th slice is the leaf
  \<open>startBlobIndex + i\<close>, and the assigned provider serves it.
\<close>

definition window_ok :: "pinned_generation \<Rightarrow> bool \<Rightarrow> nat \<Rightarrow> retrieval_window \<Rightarrow> bool" where
  "window_ok pin allow first w \<longleftrightarrow>
     rw_slot w < length (pg_assignments pin)
     \<and> rw_provider w = as_provider (pg_assignments pin ! rw_slot w)
     \<and> (as_active (pg_assignments pin ! rw_slot w) \<or> allow)
     \<and> rw_slot w < pg_k pin
     \<and> rw_blobCount w = length (rw_slices w) \<and> 0 < rw_blobCount w
     \<and> (\<forall>i < length (rw_slices w).
          rw_slot w * pg_rows pin + sl_encodedBlobIndex (rw_slices w ! i) div pg_k pin = rw_startBlobIndex w + i
          \<and> slice_ok pin first w (rw_slices w ! i))"

text \<open>The row that slot \<open>s\<close> reaches next when \<open>b\<close> is the next blob.\<close>

definition next_row :: "nat \<Rightarrow> nat \<Rightarrow> nat \<Rightarrow> nat" where
  "next_row k b s = (b + k - 1 - s) div k"

lemma next_row_same: "0 < k \<Longrightarrow> next_row k b (b mod k) = b div k"
proof -
  assume k: "0 < k"
  obtain q r where b: "b = k * q + r" "r < k"
    using k by (metis mod_less_divisor mult_div_mod_eq)
  have "(k * q + r + k - 1 - r) div k = q"
    using b(2) by (intro div_nat_eqI) auto
  then show ?thesis
    using b by (simp add: next_row_def)
qed

lemma next_row_Suc:
  assumes "0 < k" and "s < k"
  shows "next_row k (Suc b) s = (if s = b mod k then Suc (b div k) else next_row k b s)"
proof -
  obtain q r where b: "b = k * q + r" "r < k"
    using assms(1) by (metis mod_less_divisor mult_div_mod_eq)
  consider "s = r" | "r < s" | "s < r"
    by linarith
  then show ?thesis
  proof cases
    case 1
    have "(Suc (k * q + r) + k - 1 - r) div k = Suc q"
      using b(2) by (intro div_nat_eqI) auto
    then show ?thesis
      using b 1 by (simp add: next_row_def)
  next
    case 2
    have "(Suc (k * q + r) + k - 1 - s) div k = q" "(k * q + r + k - 1 - s) div k = q"
      using b(2) 2 assms by (auto intro!: div_nat_eqI)
    then show ?thesis
      using b 2 by (simp add: next_row_def)
  next
    case 3
    have "(Suc (k * q + r) + k - 1 - s) div k = Suc q" "(k * q + r + k - 1 - s) div k = Suc q"
      using b(2) 3 assms by (auto intro!: div_nat_eqI)
    then show ?thesis
      using b 3 by (simp add: next_row_def)
  qed
qed

text \<open>The groups when the blobs before \<open>b\<close> have been visited.\<close>

definition groups_inv ::
  "pinned_generation \<Rightarrow> bool \<Rightarrow> nat \<Rightarrow> nat \<Rightarrow> nat \<Rightarrow> (nat \<times> retrieval_window) list \<Rightarrow> bool" where
  "groups_inv pin allow first ordinal b groups \<longleftrightarrow>
     distinct (map fst groups)
     \<and> (\<forall>(s, w) \<in> set groups.
          rw_slot w = s \<and> rw_mduIndex w = pg_metadataMdus pin + ordinal \<and> window_ok pin allow first w
          \<and> rw_startBlobIndex w + rw_blobCount w = s * pg_rows pin + next_row (pg_k pin) b s)"

text \<open>The slice that a pass at \<open>cursor\<close> adds.\<close>

definition slice_at :: "nat \<Rightarrow> nat \<Rightarrow> nat \<Rightarrow> window_slice" where
  "slice_at first e cursor =
     \<lparr>sl_encodedBlobIndex = cursor mod RAW_MDU div RAW_BLOB_BYTES,
      sl_rawOffset = cursor mod RAW_MDU mod RAW_BLOB_BYTES,
      sl_length = slice_stop e cursor - cursor, sl_outputOffset = cursor - first\<rparr>"

definition group_at ::
  "pinned_generation \<Rightarrow> nat \<Rightarrow> nat \<Rightarrow> (nat \<times> retrieval_window) list \<Rightarrow> retrieval_window" where
  "group_at pin ordinal blob groups =
     (case map_of groups (blob mod pg_k pin) of
        Some g \<Rightarrow> g
      | None \<Rightarrow> \<lparr>rw_mduIndex = pg_metadataMdus pin + ordinal, rw_slot = blob mod pg_k pin,
                 rw_provider = as_provider (pg_assignments pin ! (blob mod pg_k pin)),
                 rw_startBlobIndex = blob mod pg_k pin * pg_rows pin + blob div pg_k pin,
                 rw_blobCount = 0, rw_slices = []\<rparr>)"

definition add_slice :: "window_slice \<Rightarrow> retrieval_window \<Rightarrow> retrieval_window" where
  "add_slice s g = g\<lparr>rw_slices := rw_slices g @ [s], rw_blobCount := rw_blobCount g + 1\<rparr>"

lemma window_step_wf:
  assumes "wf_pin pin"
  shows "window_step pin allow first e ordinal cursor groups =
     (let blob = cursor mod RAW_MDU div RAW_BLOB_BYTES; slot = blob mod pg_k pin; g = group_at pin ordinal blob groups in
      if slot \<ge> length (pg_assignments pin) \<or> (\<not> as_active (pg_assignments pin ! slot) \<and> \<not> allow)
      then Inl ''required assignment unavailable; deputy or parity must be explicitly authorized before payment''
      else if slot * pg_rows pin + blob div pg_k pin \<noteq> rw_startBlobIndex g + rw_blobCount g
      then Inl ''noncontiguous slot range''
      else Inr (AList.update slot (add_slice (slice_at first e cursor) g) groups))"
  unfolding window_step_def Let_def wf_pin_slot_row [OF assms] group_at_def slice_at_def add_slice_def ..

lemma group_at_next:
  assumes "wf_pin pin" and "groups_inv pin allow first ordinal b groups"
  shows "b mod pg_k pin * pg_rows pin + b div pg_k pin
         = rw_startBlobIndex (group_at pin ordinal b groups) + rw_blobCount (group_at pin ordinal b groups)"
proof (cases "map_of groups (b mod pg_k pin)")
  case None
  then show ?thesis by (simp add: group_at_def)
next
  case (Some g)
  then have "(b mod pg_k pin, g) \<in> set groups"
    by (rule map_of_SomeD)
  then show ?thesis
    using assms Some next_row_same [of "pg_k pin" b] by (auto simp: groups_inv_def group_at_def wf_pin_def)
qed

lemma update_new: "map_of al k = None \<Longrightarrow> AList.update k v al = al @ [(k, v)]"
  by (induction al) (auto split: if_splits)

lemma update_mset:
  "map_of al k = Some g \<Longrightarrow>
   mset (concat (map (\<lambda>x. h (snd x)) (AList.update k v al))) + mset (h g)
   = mset (concat (map (\<lambda>x. h (snd x)) al)) + mset (h v)"
  by (induction al) (auto split: if_splits)

definition slices_of :: "(nat \<times> retrieval_window) list \<Rightarrow> window_slice list" where
  "slices_of groups = concat (map (\<lambda>x. rw_slices (snd x)) groups)"

lemma slices_of_update:
  "mset (slices_of (AList.update (b mod pg_k pin) (add_slice s (group_at pin ordinal b groups)) groups))
   = mset (slices_of groups) + {#s#}"
proof (cases "map_of groups (b mod pg_k pin)")
  case None
  then show ?thesis
    by (simp add: slices_of_def update_new group_at_def add_slice_def)
next
  case (Some g)
  then show ?thesis
    using update_mset [OF Some, of rw_slices "add_slice s g"]
    by (simp add: slices_of_def group_at_def add_slice_def)
qed

text \<open>Positions: the blob of a cursor, and where the next pass starts.\<close>

definition blob_at :: "nat \<Rightarrow> nat" where
  "blob_at cursor = cursor mod RAW_MDU div RAW_BLOB_BYTES"

lemma blob_at_less: "blob_at cursor < 64"
  using mod_less_divisor [of RAW_MDU cursor] by (simp add: blob_at_def less_mult_imp_div_less)

lemma cursor_split:
  "cursor = cursor div RAW_MDU * RAW_MDU + blob_at cursor * RAW_BLOB_BYTES + cursor mod RAW_MDU mod RAW_BLOB_BYTES"
  unfolding blob_at_def by (metis add.assoc div_mult_mod_eq)

lemma slice_stop_le: "slice_stop e cursor \<le> cursor + (RAW_BLOB_BYTES - cursor mod RAW_MDU mod RAW_BLOB_BYTES)"
  by (simp add: slice_stop_def Let_def)

lemma slice_stop_next:
  assumes "slice_stop e cursor < e"
  shows "slice_stop e cursor = cursor div RAW_MDU * RAW_MDU + Suc (blob_at cursor) * RAW_BLOB_BYTES"
proof -
  have "slice_stop e cursor = cursor + (RAW_BLOB_BYTES - cursor mod RAW_MDU mod RAW_BLOB_BYTES)"
    using assms by (auto simp: slice_stop_def Let_def split: if_splits)
  moreover have "cursor mod RAW_MDU mod RAW_BLOB_BYTES < RAW_BLOB_BYTES"
    by simp
  ultimately show ?thesis
    using cursor_split [of cursor] by (simp only: mult_Suc)
qed

lemma slice_at_ok:
  assumes "first \<le> cursor" and "cursor < e" and "cursor div RAW_MDU = ordinal"
    and "rw_slot w = blob_at cursor mod pg_k pin" and "rw_mduIndex w = pg_metadataMdus pin + ordinal"
  shows "slice_ok pin first w (slice_at first e cursor)"
proof -
  have "slice_stop e cursor - cursor \<le> RAW_BLOB_BYTES - cursor mod RAW_MDU mod RAW_BLOB_BYTES"
    using slice_stop_le [of e cursor] by linarith
  moreover have "cursor mod RAW_MDU mod RAW_BLOB_BYTES < RAW_BLOB_BYTES"
    by simp
  ultimately have "cursor mod RAW_MDU mod RAW_BLOB_BYTES + (slice_stop e cursor - cursor) \<le> RAW_BLOB_BYTES"
    by linarith
  then show ?thesis
    using assms slice_stop_progress [OF assms(2)] blob_at_less [of cursor] cursor_split [of cursor]
    unfolding slice_ok_def slice_at_def blob_at_def [symmetric] by simp
qed

definition available :: "pinned_generation \<Rightarrow> bool \<Rightarrow> nat \<Rightarrow> bool" where
  "available pin allow slot \<longleftrightarrow>
     slot < length (pg_assignments pin) \<and> (as_active (pg_assignments pin ! slot) \<or> allow)"

lemma window_ok_add:
  assumes pin: "wf_pin pin" and inv: "groups_inv pin allow first ordinal (blob_at cursor) groups"
    and pos: "first \<le> cursor" "cursor < e" "cursor div RAW_MDU = ordinal"
    and av: "available pin allow (blob_at cursor mod pg_k pin)"
    and w: "w = add_slice (slice_at first e cursor) (group_at pin ordinal (blob_at cursor) groups)"
  shows "rw_slot w = blob_at cursor mod pg_k pin \<and> rw_mduIndex w = pg_metadataMdus pin + ordinal
         \<and> window_ok pin allow first w
         \<and> rw_startBlobIndex w + rw_blobCount w
             = rw_slot w * pg_rows pin + next_row (pg_k pin) (Suc (blob_at cursor)) (rw_slot w)"
proof -
  let ?b = "blob_at cursor" and ?s = "blob_at cursor mod pg_k pin"
  let ?g = "group_at pin ordinal ?b groups"
  have k: "0 < pg_k pin" "?s < pg_k pin"
    using pin by (auto simp: wf_pin_def)
  have g: "rw_slot ?g = ?s \<and> rw_mduIndex ?g = pg_metadataMdus pin + ordinal
      \<and> rw_provider ?g = as_provider (pg_assignments pin ! ?s) \<and> rw_blobCount ?g = length (rw_slices ?g)
      \<and> (\<forall>i < length (rw_slices ?g).
          ?s * pg_rows pin + sl_encodedBlobIndex (rw_slices ?g ! i) div pg_k pin = rw_startBlobIndex ?g + i
          \<and> slice_ok pin first ?g (rw_slices ?g ! i))"
  proof (cases "map_of groups ?s")
    case None
    then show ?thesis by (simp add: group_at_def)
  next
    case (Some g)
    then have "(?s, g) \<in> set groups"
      by (rule map_of_SomeD)
    then show ?thesis
      using inv Some by (auto simp: groups_inv_def window_ok_def group_at_def)
  qed
  have nxt: "?s * pg_rows pin + ?b div pg_k pin = rw_startBlobIndex ?g + rw_blobCount ?g"
    by (rule group_at_next [OF pin inv])
  have new: "slice_ok pin first w (slice_at first e cursor)"
    using pos g w by (intro slice_at_ok) (auto simp: add_slice_def)
  have ok: "slice_ok pin first w = slice_ok pin first ?g"
    using w by (intro ext) (simp add: slice_ok_def add_slice_def)
  have blob: "sl_encodedBlobIndex (slice_at first e cursor) = ?b"
    by (simp add: slice_at_def blob_at_def)
  have "window_ok pin allow first w"
    unfolding window_ok_def
  proof (intro conjI allI impI)
    fix i
    assume i: "i < length (rw_slices w)"
    have slices: "rw_slices w = rw_slices ?g @ [slice_at first e cursor]" "rw_slot w = ?s"
        "rw_startBlobIndex w = rw_startBlobIndex ?g"
      using g w by (simp_all add: add_slice_def)
    show "rw_slot w * pg_rows pin + sl_encodedBlobIndex (rw_slices w ! i) div pg_k pin = rw_startBlobIndex w + i"
      and "slice_ok pin first w (rw_slices w ! i)"
      using i g nxt new blob unfolding ok slices by (auto simp: nth_append less_Suc_eq)
  qed (use g w av k in \<open>auto simp: add_slice_def available_def\<close>)
  moreover have "next_row (pg_k pin) (Suc ?b) ?s = Suc (?b div pg_k pin)"
    using next_row_Suc [OF k, of ?b] by simp
  ultimately show ?thesis
    using g nxt w by (simp add: add_slice_def)
qed

lemma groups_inv_step:
  assumes pin: "wf_pin pin" and inv: "groups_inv pin allow first ordinal (blob_at cursor) groups"
    and pos: "first \<le> cursor" "cursor < e" "cursor div RAW_MDU = ordinal"
    and av: "available pin allow (blob_at cursor mod pg_k pin)"
  shows "groups_inv pin allow first ordinal (Suc (blob_at cursor))
           (AList.update (blob_at cursor mod pg_k pin)
              (add_slice (slice_at first e cursor) (group_at pin ordinal (blob_at cursor) groups)) groups)"
    (is "groups_inv _ _ _ _ _ ?new")
proof -
  let ?s = "blob_at cursor mod pg_k pin"
  let ?w = "add_slice (slice_at first e cursor) (group_at pin ordinal (blob_at cursor) groups)"
  have d: "distinct (map fst groups)"
    using inv by (simp add: groups_inv_def)
  then have dn: "distinct (map fst ?new)"
    by (rule distinct_update)
  have cases: "(t = ?s \<and> v = ?w) \<or> (t \<noteq> ?s \<and> (t, v) \<in> set groups)" if "(t, v) \<in> set ?new" for t v
  proof -
    have "map_of ?new t = Some v"
      using dn that by (rule map_of_is_SomeI)
    then show ?thesis
      by (auto simp: update_conv' split: if_splits dest: map_of_SomeD)
  qed
  have k: "0 < pg_k pin"
    using pin by (simp add: wf_pin_def)
  note w = window_ok_add [OF pin inv pos av refl]
  show ?thesis
    unfolding groups_inv_def
  proof (intro conjI ballI)
    show "distinct (map fst ?new)"
      by (rule dn)
    fix x
    assume x: "x \<in> set ?new"
    obtain t v where tv: "x = (t, v)"
      by (cases x)
    show "case x of (s, w) \<Rightarrow> rw_slot w = s \<and> rw_mduIndex w = pg_metadataMdus pin + ordinal
        \<and> window_ok pin allow first w
        \<and> rw_startBlobIndex w + rw_blobCount w = s * pg_rows pin + next_row (pg_k pin) (Suc (blob_at cursor)) s"
    proof (cases "t = ?s")
      case True
      then show ?thesis
        using cases [of t v] x tv w by simp
    next
      case False
      then have m: "(t, v) \<in> set groups"
        using cases [of t v] x tv by simp
      then have "t < pg_k pin"
        using inv by (auto simp: groups_inv_def window_ok_def)
      then show ?thesis
        using m inv tv next_row_Suc [OF k, of t "blob_at cursor"] False by (auto simp: groups_inv_def)
    qed
  qed
qed

definition piece :: "window_slice \<Rightarrow> nat \<times> nat" where
  "piece s = (sl_outputOffset s, sl_length s)"

definition unavailable_error :: string where
  "unavailable_error =
     ''required assignment unavailable; deputy or parity must be explicitly authorized before payment''"

definition mdu_result ::
  "pinned_generation \<Rightarrow> bool \<Rightarrow> nat \<Rightarrow> nat \<Rightarrow> nat \<Rightarrow> nat \<Rightarrow> (nat \<times> retrieval_window) list
   \<Rightarrow> ((nat \<times> retrieval_window) list \<times> nat) result \<Rightarrow> bool" where
  "mdu_result pin allow first e ordinal cursor groups r \<longleftrightarrow>
     (case r of
        Inl err \<Rightarrow> err = unavailable_error \<and> (\<exists>slot < pg_k pin. \<not> available pin allow slot)
      | Inr (g, c) \<Rightarrow>
          c = min e ((ordinal + 1) * RAW_MDU) \<and> (\<forall>x \<in> set g. window_ok pin allow first (snd x))
          \<and> (\<exists>ss. mset (slices_of g) = mset (slices_of groups) + mset ss
                 \<and> tiles (cursor - first) (c - first) (map piece ss)))"

lemma window_step_cases:
  assumes "wf_pin pin" and "groups_inv pin allow first ordinal (blob_at cursor) groups"
  shows "window_step pin allow first e ordinal cursor groups =
     (if available pin allow (blob_at cursor mod pg_k pin)
      then Inr (AList.update (blob_at cursor mod pg_k pin)
              (add_slice (slice_at first e cursor) (group_at pin ordinal (blob_at cursor) groups)) groups)
      else Inl unavailable_error)"
  using group_at_next [OF assms]
  unfolding window_step_wf [OF assms(1)] Let_def blob_at_def [symmetric] available_def unavailable_error_def
  by auto

lemma slice_stop_cases:
  assumes "cursor < e" and "cursor div RAW_MDU = ordinal"
  defines "c \<equiv> slice_stop e cursor"
  shows "(c = min e ((ordinal + 1) * RAW_MDU))
         \<or> (c < e \<and> c < (ordinal + 1) * RAW_MDU \<and> c div RAW_MDU = ordinal \<and> blob_at c = Suc (blob_at cursor))"
proof (cases "c < e")
  case False
  then have c: "c = e"
    using slice_stop_progress [OF assms(1)] unfolding c_def by simp
  have "c \<le> cursor + (RAW_BLOB_BYTES - cursor mod RAW_MDU mod RAW_BLOB_BYTES)"
    unfolding c_def by (rule slice_stop_le)
  moreover have "cursor mod RAW_MDU mod RAW_BLOB_BYTES < RAW_BLOB_BYTES"
    by simp
  moreover have "Suc (blob_at cursor) * RAW_BLOB_BYTES \<le> 64 * RAW_BLOB_BYTES"
    using blob_at_less [of cursor] by (intro mult_le_mono1) simp
  ultimately have "c \<le> ordinal * RAW_MDU + 64 * RAW_BLOB_BYTES"
    using cursor_split [of cursor, unfolded assms(2)] unfolding mult_Suc by linarith
  then show ?thesis
    using c by simp
next
  case True
  then have c: "c = ordinal * RAW_MDU + Suc (blob_at cursor) * RAW_BLOB_BYTES"
    using slice_stop_next [of e cursor] assms(2) unfolding c_def by simp
  show ?thesis
  proof (cases "Suc (blob_at cursor) < 64")
    case small: True
    then have less: "Suc (blob_at cursor) * RAW_BLOB_BYTES < RAW_MDU"
      by simp
    then have "c div RAW_MDU = ordinal" "c mod RAW_MDU = Suc (blob_at cursor) * RAW_BLOB_BYTES"
      unfolding c by (simp_all del: raw_values mult_Suc)
    moreover have "c < (ordinal + 1) * RAW_MDU"
      using less c by simp
    ultimately show ?thesis
      using True by (simp add: blob_at_def del: mult_Suc)
  next
    case False
    then have "Suc (blob_at cursor) = 64"
      using blob_at_less [of cursor] by simp
    then show ?thesis
      using True c by simp
  qed
qed

lemma mdu_windows_spec:
  assumes pin: "wf_pin pin"
  shows "first \<le> cursor \<Longrightarrow> cursor < e \<Longrightarrow> cursor div RAW_MDU = ordinal \<Longrightarrow>
    groups_inv pin allow first ordinal (blob_at cursor) groups \<Longrightarrow>
    mdu_result pin allow first e ordinal cursor groups (mdu_windows pin allow first e ordinal cursor groups)"
proof (induction "e - cursor" arbitrary: cursor groups rule: less_induct)
  case less
  let ?s = "blob_at cursor mod pg_k pin"
  let ?c = "slice_stop e cursor"
  let ?new = "AList.update ?s (add_slice (slice_at first e cursor) (group_at pin ordinal (blob_at cursor) groups)) groups"
  have in_mdu: "cursor < e \<and> cursor < (ordinal + 1) * RAW_MDU"
    using less.prems(2,3) dividend_less_div_times [of RAW_MDU cursor] by auto
  have k: "?s < pg_k pin"
    using pin by (simp add: wf_pin_def)
  note run = mdu_windows_step [OF in_mdu, of pin allow first groups]
    window_step_cases [OF pin less.prems(4), of e]
  show ?case
  proof (cases "available pin allow ?s")
    case False
    then show ?thesis
      using k unfolding run mdu_result_def by auto
  next
    case True
    have inv: "groups_inv pin allow first ordinal (Suc (blob_at cursor)) ?new"
      using pin less.prems(4,1,2,3) True by (rule groups_inv_step)
    have eq: "mdu_windows pin allow first e ordinal cursor groups = mdu_windows pin allow first e ordinal ?c ?new"
      using True unfolding run by simp
    have ms: "mset (slices_of ?new) = mset (slices_of groups) + {#slice_at first e cursor#}"
      by (rule slices_of_update)
    have c: "cursor < ?c" "?c \<le> e"
      using slice_stop_progress [OF less.prems(2)] by auto
    have pc: "piece (slice_at first e cursor) = (cursor - first, ?c - cursor)"
      by (simp add: piece_def slice_at_def)
    have off: "cursor - first + (?c - cursor) = ?c - first"
      using c less.prems(1) by simp
    consider "?c = min e ((ordinal + 1) * RAW_MDU)"
      | "?c < e" "?c < (ordinal + 1) * RAW_MDU" "?c div RAW_MDU = ordinal" "blob_at ?c = Suc (blob_at cursor)"
      using slice_stop_cases [OF less.prems(2,3)] by blast
    then show ?thesis
    proof cases
      case 1
      then have "\<not> (?c < e \<and> ?c < (ordinal + 1) * RAW_MDU)"
        by linarith
      then have r: "mdu_windows pin allow first e ordinal cursor groups = Inr (?new, ?c)"
        unfolding eq by (rule mdu_windows_done)
      have "\<forall>x \<in> set ?new. window_ok pin allow first (snd x)"
        using inv by (auto simp: groups_inv_def)
      moreover have "tiles (cursor - first) (?c - first) (map piece [slice_at first e cursor])"
        using c off by (simp add: pc)
      ultimately show ?thesis
        using 1 ms unfolding r mdu_result_def by (auto intro!: exI [of _ "[slice_at first e cursor]"])
    next
      case 2
      have "mdu_result pin allow first e ordinal ?c ?new (mdu_windows pin allow first e ordinal ?c ?new)"
        using c less.prems(1) 2 inv by (intro less.hyps) auto
      then show ?thesis
        unfolding eq
      proof (cases "mdu_windows pin allow first e ordinal ?c ?new")
        case (Inl err)
        then show "mdu_result pin allow first e ordinal cursor groups (mdu_windows pin allow first e ordinal ?c ?new)"
          using \<open>mdu_result _ _ _ _ _ ?c _ _\<close> by (simp add: mdu_result_def)
      next
        case (Inr gc)
        obtain g c' where gc: "gc = (g, c')"
          by (cases gc)
        then obtain ss where ss: "mset (slices_of g) = mset (slices_of ?new) + mset ss"
            "tiles (?c - first) (c' - first) (map piece ss)"
          using \<open>mdu_result _ _ _ _ _ ?c _ _\<close> Inr by (auto simp: mdu_result_def)
        have "tiles (cursor - first) (c' - first) (map piece (slice_at first e cursor # ss))"
          using ss(2) c off by (simp add: pc)
        moreover have "mset (slices_of g) = mset (slices_of groups) + mset (slice_at first e cursor # ss)"
          using ss(1) ms by simp
        moreover have "c' = min e ((ordinal + 1) * RAW_MDU)" "\<forall>x \<in> set g. window_ok pin allow first (snd x)"
          using \<open>mdu_result _ _ _ _ _ ?c _ _\<close> unfolding Inr gc mdu_result_def sum.case prod.case by blast+
        ultimately show "mdu_result pin allow first e ordinal cursor groups (mdu_windows pin allow first e ordinal ?c ?new)"
          unfolding Inr gc mdu_result_def sum.case prod.case by blast
      qed
    qed
  qed
qed


section \<open>The windows of a range\<close>

lemma window_loop_spec:
  assumes pin: "wf_pin pin"
  shows "first \<le> cursor \<Longrightarrow> cursor \<le> e \<Longrightarrow> window_loop pin allow first e cursor = (ws, err) \<Longrightarrow>
    (\<forall>w \<in> set ws. window_ok pin allow first w)
    \<and> (case err of
         Some msg \<Rightarrow> msg = unavailable_error \<and> (\<exists>slot < pg_k pin. \<not> available pin allow slot)
       | None \<Rightarrow> \<exists>ss. mset (concat (map rw_slices ws)) = mset ss \<and> tiles (cursor - first) (e - first) (map piece ss))"
proof (induction "e - cursor" arbitrary: cursor ws rule: less_induct)
  case less
  let ?o = "cursor div RAW_MDU"
  let ?r = "mdu_windows pin allow first e ?o cursor []"
  show ?case
  proof (cases "cursor < e")
    case False
    then have "ws = []" "err = None"
      using less.prems(3) by (auto simp: window_loop.simps [of _ _ _ _ cursor])
    then show ?thesis
      using False less.prems by (auto intro!: exI [of _ "[]"])
  next
    case True
    have "groups_inv pin allow first ?o (blob_at cursor) []"
      by (simp add: groups_inv_def)
    then have r: "mdu_result pin allow first e ?o cursor [] ?r"
      using True less.prems by (intro mdu_windows_spec [OF pin]) auto
    have run: "window_loop pin allow first e cursor =
        (case ?r of Inl err \<Rightarrow> ([], Some err)
         | Inr r \<Rightarrow> let (ws, err) = window_loop pin allow first e (snd r) in (map snd (fst r) @ ws, err))"
      using True by (subst window_loop.simps) (simp only: if_True Let_def)
    show ?thesis
    proof (cases ?r)
      case (Inl msg)
      then show ?thesis
        using r less.prems(3) unfolding run by (auto simp: mdu_result_def)
    next
      case (Inr gc)
      obtain g c where gc: "gc = (g, c)"
        by (cases gc)
      obtain ws' where ws': "window_loop pin allow first e c = (ws', err)" "ws = map snd g @ ws'"
        using less.prems(3) unfolding run Inr gc by (auto split: prod.splits)
      obtain ss where ss: "c = min e ((?o + 1) * RAW_MDU)" "\<forall>x \<in> set g. window_ok pin allow first (snd x)"
          "mset (slices_of g) = mset ss" "tiles (cursor - first) (c - first) (map piece ss)"
        using r unfolding Inr gc mdu_result_def sum.case prod.case by (auto simp: slices_of_def)
      have c: "cursor < c" "c \<le> e"
        using ss(1) True dividend_less_div_times [of RAW_MDU cursor] by auto
      have IH: "(\<forall>w \<in> set ws'. window_ok pin allow first w)
          \<and> (case err of
               Some msg \<Rightarrow> msg = unavailable_error \<and> (\<exists>slot < pg_k pin. \<not> available pin allow slot)
             | None \<Rightarrow> \<exists>ss. mset (concat (map rw_slices ws')) = mset ss \<and> tiles (c - first) (e - first) (map piece ss))"
        using c True less.prems ws'(1) by (intro less.hyps) auto
      have all: "\<forall>w \<in> set ws. window_ok pin allow first w"
        using IH ss(2) ws'(2) by auto
      have sl: "mset (concat (map rw_slices ws)) = mset ss + mset (concat (map rw_slices ws'))"
        using ss(3) ws'(2) by (simp add: slices_of_def comp_def)
      show ?thesis
      proof (cases err)
        case (Some msg)
        then show ?thesis
          using all IH by simp
      next
        case None
        then obtain ss' where "mset (concat (map rw_slices ws')) = mset ss'" "tiles (c - first) (e - first) (map piece ss')"
          using IH by auto
        then have "mset (concat (map rw_slices ws)) = mset (ss @ ss')"
            "tiles (cursor - first) (e - first) (map piece (ss @ ss'))"
          using sl ss(4) tiles_append by auto
        then show ?thesis
          using all unfolding None option.case by blast
      qed
    qed
  qed
qed

lemma plan_run:
  assumes "planRetrievalWindows pin file rs rl allow = (ws, err)" and "err \<noteq> Some ''invalid file range''"
    and "rf_flags file = 0"
  shows "0 \<le> rf_start_offset file \<and> 0 \<le> rs \<and> 0 < rl \<and> rs + rl \<le> rf_size_bytes file
    \<and> window_loop pin allow (nat (rf_start_offset file + rs))
        (nat (rf_start_offset file + rs) + nat rl) (nat (rf_start_offset file + rs)) = (ws, err)"
  using assms by (auto simp: planRetrievalWindows_def Let_def split: if_splits)

text \<open>
  C10: a complete plan of retrieval windows is exact. Every window is a contiguous run of
  leaves of one slot of one MDU, served by the slot's assigned provider, every slice lies
  inside its blob at the position it names, and the slices of all windows together cover
  each byte of the requested range exactly once.
\<close>

theorem retrieval_windows_exact:
  assumes "wf_pin pin" and "planRetrievalWindows pin file rangeStart rangeLength allow = (ws, None)"
  shows "(\<forall>w \<in> set ws. window_ok pin allow (nat (rf_start_offset file + rangeStart)) w)
         \<and> (\<exists>ss. mset (concat (map rw_slices ws)) = mset ss \<and> tiles 0 (nat rangeLength) (map piece ss))"
proof -
  have "rf_flags file = 0"
    using assms(2) by (auto simp: planRetrievalWindows_def split: if_splits)
  then have "window_loop pin allow (nat (rf_start_offset file + rangeStart))
      (nat (rf_start_offset file + rangeStart) + nat rangeLength) (nat (rf_start_offset file + rangeStart)) = (ws, None)"
    using plan_run [OF assms(2)] by simp
  from window_loop_spec [OF assms(1) _ _ this] show ?thesis
    by simp
qed

definition sample_pin :: pinned_generation where
  "sample_pin = \<lparr>pg_chainId = ascii ''c'', pg_height = 1, pg_dealId = 7, pg_generation = 1, pg_root = [],
     pg_owner = [], pg_endHeight = 9, pg_layout = 2, pg_k = 2, pg_m = 1, pg_rows = 32, pg_leafCount = 96,
     pg_metadataMdus = 2, pg_userMdus = 3, pg_totalMdus = 5,
     pg_assignments = map (\<lambda>c. \<lparr>as_provider = ascii [c], as_active = True\<rparr>) ''xyz''\<rparr>"

definition sample_file :: retrieval_file where
  "sample_file = \<lparr>rf_path = ascii ''f'', rf_start_offset = 8000000, rf_size_bytes = 400000, rf_flags = 0\<rparr>"

lemma sample_plan_run:
  "snd (planRetrievalWindows sample_pin sample_file 100000 200000 False) = None"
  by (simp add: planRetrievalWindows_def sample_pin_def sample_file_def window_loop.simps mdu_windows.simps
      window_step_def slice_stop_def Let_def)

theorem retrieval_windows_exact_witness:
  "wf_pin sample_pin
   \<and> (\<exists>ws ss. planRetrievalWindows sample_pin sample_file 100000 200000 False = (ws, None)
        \<and> mset (concat (map rw_slices ws)) = mset ss \<and> tiles 0 200000 (map piece ss))"
proof -
  have wf: "wf_pin sample_pin"
    by (simp add: wf_pin_def sample_pin_def)
  obtain ws where run: "planRetrievalWindows sample_pin sample_file 100000 200000 False = (ws, None)"
    using sample_plan_run by (metis prod.collapse)
  show ?thesis
    using wf run retrieval_windows_exact [OF wf run] by auto
qed




section \<open>What an accepted generation is\<close>

lemma protoU64_less: "protoU64 v = Inr n \<Longrightarrow> n < 2 ^ 64"
  by (auto simp: protoU64_def u64_Inr split: option.splits)

lemma parse_assignments_shape:
  assumes "parse_assignments lib d layout k m = Inr as"
  shows "(layout = 2 \<longrightarrow> length as = k + m) \<and> (layout \<noteq> 2 \<longrightarrow> 0 < length as \<and> length as \<le> 256 \<and>
           distinct (map as_provider as) \<and> (\<forall>a \<in> set as. as_active a))"
proof (cases "layout = 2")
  case True
  then obtain slots where "length slots = k + m" "smap (slot_assignment lib) (zip slots [0..<length slots]) = Inr as"
    using assms by (auto simp: parse_assignments_def split: option.splits json.splits if_splits)
  then show ?thesis
    using True smap_length by fastforce
next
  case False
  let ?f = "\<lambda>p. sbind (account lib (Some p)) (\<lambda>a. Inr \<lparr>as_provider = a, as_active = True\<rparr>)"
  obtain ps where ps: "ps \<noteq> []" "length ps \<le> 256" "smap ?f ps = Inr as"
      "card (set (map as_provider as)) = length as"
    using False assms by (auto simp: parse_assignments_def sbind_eq_Inr split: option.splits json.splits if_splits)
  have "length as = length ps"
    using ps(3) by (rule smap_length)
  moreover have "\<forall>a \<in> set as. as_active a"
    using ps(3) by (fastforce simp: smap_Inr_iff sbind_eq_Inr list_all2_conv_all_nth in_set_conv_nth
        dest!: arg_cong [where f = as_active])
  moreover have "distinct (map as_provider as)"
    using ps(4) by (intro card_distinct) simp
  ultimately show ?thesis
    using False ps by auto
qed

lemma parsePinnedGeneration_Inr:
  assumes "parsePinnedGeneration lib payload chainId height dealId = Inr pin"
  shows "0 < pg_k pin \<and> 64 mod pg_k pin = 0 \<and> pg_rows pin = 64 div pg_k pin
    \<and> pg_leafCount pin = pg_rows pin * (pg_k pin + pg_m pin)
    \<and> (pg_layout pin = 1 \<and> pg_k pin = 1 \<or> pg_layout pin = 2 \<and> 0 < pg_m pin \<and> pg_k pin + pg_m pin \<le> 256)
    \<and> pg_metadataMdus pin + pg_userMdus pin = pg_totalMdus pin \<and> pg_totalMdus pin \<le> 65537
    \<and> 1 \<le> pg_metadataMdus pin \<and> 1 \<le> pg_height pin \<and> pg_height pin < pg_endHeight pin
    \<and> pg_dealId pin = dealId \<and> pg_chainId pin = chainId \<and> pg_height pin = height
    \<and> (\<exists>d. parse_assignments lib d (pg_layout pin) (pg_k pin) (pg_m pin) = Inr (pg_assignments pin))
    \<and> (\<exists>root. length root = 32 \<and> pg_root pin = hex root)"
proof -
  note unf = assms [unfolded parsePinnedGeneration_def if_Inl_eq_Inr sbind_eq_Inr Let_def]
  then obtain p d id layout profile k m total witness endH as gen root owner where
    h: "\<not> height < 1" and lay: "layout = 1 \<or> layout = 2"
    and prof: "(if layout = 2 then record_of (d ''mode2_profile'')
             else Inr [''k'' \<mapsto> JNum (num 1), ''m'' \<mapsto> JNum (num 0)]) = Inr profile"
    and k: "uint_of (profile ''k'') 64 = Inr k" and m: "uint_of (profile ''m'') 255 = Inr m"
    and geo: "\<not> (k = 0 \<or> 64 mod k \<noteq> 0 \<or> (layout = 2 \<and> (m = 0 \<or> k + m > 256)))"
    and mdus: "\<not> (1 + witness > total \<or> total > 65537)" and exp: "\<not> height \<ge> endH"
    and as: "parse_assignments lib d layout k m = Inr as"
    and root: "base64 (d ''manifest_root'') 32 = Inr root"
    and pin: "pin = \<lparr>pg_chainId = chainId, pg_height = height, pg_dealId = dealId, pg_generation = gen,
           pg_root = hex root, pg_owner = owner, pg_endHeight = endH, pg_layout = layout,
           pg_k = k, pg_m = m, pg_rows = 64 div k, pg_leafCount = 64 div k * (k + m),
           pg_metadataMdus = 1 + witness, pg_userMdus = total - (1 + witness),
           pg_totalMdus = total, pg_assignments = as\<rparr>"
    by blast
  have "layout \<noteq> 2 \<Longrightarrow> k = 1"
    using prof k by (auto simp: uint_of_def)
  then show ?thesis
    using h lay geo mdus exp as root by (auto simp: pin base64_Inr)
qed

text \<open>
  C12: an accepted deal response has a sound geometry. The pin satisfies the planner's
  invariant, the metadata and user MDUs add up to at most 65537, the deal has not expired
  at the committed height, every data slot has an assignment in order, and the replicas of
  a replicated deal are distinct active providers.
\<close>

theorem pinned_generation_sound:
  assumes "parsePinnedGeneration lib payload chainId height dealId = Inr pin"
  shows "wf_pin pin
         \<and> pg_metadataMdus pin + pg_userMdus pin = pg_totalMdus pin \<and> pg_totalMdus pin \<le> 65537
         \<and> 1 \<le> pg_metadataMdus pin \<and> height < pg_endHeight pin \<and> pg_dealId pin = dealId
         \<and> pg_k pin \<le> length (pg_assignments pin) \<and> length (pg_assignments pin) \<le> 256
         \<and> (pg_layout pin = 2 \<longrightarrow> length (pg_assignments pin) = pg_k pin + pg_m pin)
         \<and> (pg_layout pin = 1 \<longrightarrow> distinct (map as_provider (pg_assignments pin))
              \<and> (\<forall>a \<in> set (pg_assignments pin). as_active a))"
proof -
  note p = parsePinnedGeneration_Inr [OF assms]
  obtain d where "parse_assignments lib d (pg_layout pin) (pg_k pin) (pg_m pin) = Inr (pg_assignments pin)"
    using p by blast
  note a = parse_assignments_shape [OF this]
  have "64 div pg_k pin * pg_k pin = 64"
    using p by (metis add.right_neutral div_mult_mod_eq)
  then have "wf_pin pin"
    using p by (auto simp: wf_pin_def)
  then show ?thesis
    using p a by (auto simp: Suc_le_eq)
qed

definition sample_bech32 :: bech32_lib where
  "sample_bech32 = \<lparr>bech32_decode = \<lambda>s. Some (take 3 s, drop 4 s),
     bech32_fromWords = \<lambda>w. Some (map word_of_nat w),
     bech32_encode = \<lambda>p w. p @ ascii ''1'' @ w\<rparr>"

definition sample_account :: js_string where
  "sample_account = ascii ''nil1'' @ replicate 20 97"

definition sample_deal :: "json option" where
  "sample_deal = Some (JObj [(''deal'', JObj
     [(''id'', JStr (dec_text 7)), (''redundancy_mode'', JNum (num 1)), (''total_mdus'', JStr (dec_text 4)),
      (''witness_mdus'', JStr (dec_text 1)), (''end_block'', JStr (dec_text 90)),
      (''providers'', JArr [JStr sample_account]), (''manifest_root'', JStr (btoa (replicate 32 0))),
      (''owner'', JStr sample_account)])])"

lemma base64_btoa [simp]: "length bs = n \<Longrightarrow> base64 (Some (JStr (btoa bs))) n = Inr bs"
  by (simp add: base64_Inr)

lemma account_sample [simp]: "account sample_bech32 (Some (JStr sample_account)) = Inr sample_account"
  by (simp add: account_def sample_bech32_def sample_account_def ascii_def)

lemma sample_deal_run:
  "\<exists>pin. parsePinnedGeneration sample_bech32 sample_deal (ascii ''chain-1'') 10 7 = Inr pin"
  by (simp add: parsePinnedGeneration_def sample_deal_def record_of_def protoU64_def protoUint_def u64_dec_text
      parse_assignments_def ascii_def utf8_encode_def utf8_nats_def utf8_char_def surrogate_def)

theorem pinned_generation_sound_witness:
  "\<exists>pin. parsePinnedGeneration sample_bech32 sample_deal (ascii ''chain-1'') 10 7 = Inr pin
     \<and> wf_pin pin \<and> pg_dealId pin = 7"
proof -
  obtain pin where run: "parsePinnedGeneration sample_bech32 sample_deal (ascii ''chain-1'') 10 7 = Inr pin"
    using sample_deal_run by blast
  show ?thesis
    using run pinned_generation_sound [OF run] by blast
qed

end
