(* ===== verification/RetrievalSession.thy ===== *)
theory RetrievalSession
  imports RetrievalPlan
begin

text \<open>
  The frozen session of a retrieval window and the bounded reader of chain responses
  (\<open>lib/retrieval.ts\<close>). \<open>scalarBytes\<close> writes big-endian scalars and \<open>lp\<close> a length prefix.
\<close>

definition RETRIEVAL_SETUP :: string where
  "RETRIEVAL_SETUP = ''d39b9f2d047cc9dca2de58f264b6a09448ccd34db967881a6713eacacf0f26b7''"


section \<open>Bounded responses\<close>

text \<open>
  A response has an optional \<open>content-length\<close> header and an optional body, the chunks
  that its reader delivers. \<open>aborted n\<close> says whether the abort signal is set at the
  \<open>n\<close>-th check; a missing signal is never set.
\<close>

record response =
  rs_contentLength :: "js_string option"
  rs_body :: "bytes list option"

fun read_chunks :: "(nat \<Rightarrow> bool) \<Rightarrow> nat \<Rightarrow> nat \<Rightarrow> nat \<Rightarrow> bytes list \<Rightarrow> bytes list result" where
  "read_chunks aborted n bound received [] = (if aborted n \<or> aborted (n + 1) then Inl ''aborted'' else Inr [])"
| "read_chunks aborted n bound received (value # chunks) =
     (if aborted n \<or> aborted (n + 1) then Inl ''aborted''
      else if received + length value > bound then Inl ''response exceeds limit''
      else sbind (read_chunks aborted (n + 2) bound (received + length value) chunks) (\<lambda>rest. Inr (value # rest)))"

definition readBoundedResponse :: "response \<Rightarrow> nat \<Rightarrow> (nat \<Rightarrow> bool) \<Rightarrow> bytes result" where
  "readBoundedResponse response bound aborted =
     (if (case rs_contentLength response of
            None \<Rightarrow> False
          | Some len \<Rightarrow> \<not> (is_ascii len \<and> canonical_decimal (chars len)) \<or> dec_val (chars len) > bound)
      then Inl ''response exceeds limit''
      else
        case rs_body response of
          None \<Rightarrow> Inl ''missing response body''
        | Some body \<Rightarrow> sbind (read_chunks aborted 0 bound 0 body) (\<lambda>chunks. Inr (concat chunks)))"


section \<open>The frozen session\<close>

record frozen_session =
  fs_sessionId :: js_string
  fs_pin :: pinned_generation
  fs_window :: retrieval_window
  fs_owner :: js_string
  fs_payee :: js_string
  fs_height :: nat
  fs_openedHeight :: nat
  fs_expiry :: nat
  fs_status :: nat
  fs_funding :: nat
  fs_context :: bytes
  fs_contextHash :: bytes
  fs_seed :: "bytes option"

record expected_session =
  ex_sessionId :: js_string
  ex_pin :: pinned_generation
  ex_window :: retrieval_window
  ex_owner :: js_string
  ex_payee :: "js_string option"
  ex_funding :: nat

definition scalarBytes :: "nat \<Rightarrow> nat \<Rightarrow> bytes" where
  "scalarBytes value n = be_bytes n value"

definition lp :: "js_string \<Rightarrow> bytes" where
  "lp s = (let b = utf8_encode s in scalarBytes (length b) 4 @ b)"

text \<open>
  A chain of \<open>||\<close> whose operands may throw: the first operand that throws or holds decides.
\<close>

fun any_holds :: "bool result list \<Rightarrow> bool result" where
  "any_holds [] = Inr False"
| "any_holds (r # rs) = sbind r (\<lambda>b. if b then Inr True else any_holds rs)"

definition differs :: "'a result \<Rightarrow> 'a \<Rightarrow> bool result" where
  "differs r x = sbind r (\<lambda>y. Inr (y \<noteq> x))"

definition status_names :: "string list" where
  "status_names = [''RETRIEVAL_SESSION_STATUS_UNSPECIFIED'', ''RETRIEVAL_SESSION_STATUS_OPEN'',
     ''RETRIEVAL_SESSION_STATUS_PROOF_SUBMITTED'', ''RETRIEVAL_SESSION_STATUS_USER_CONFIRMED'',
     ''RETRIEVAL_SESSION_STATUS_COMPLETED'', ''RETRIEVAL_SESSION_STATUS_EXPIRED'',
     ''RETRIEVAL_SESSION_STATUS_CANCELED'']"

definition funding_names :: "string list" where
  "funding_names = [''RETRIEVAL_SESSION_FUNDING_UNSPECIFIED'', ''RETRIEVAL_SESSION_FUNDING_DEAL_ESCROW'',
     ''RETRIEVAL_SESSION_FUNDING_REQUESTER'', ''RETRIEVAL_SESSION_FUNDING_PROTOCOL'']"

definition purpose_names :: "string list" where
  "purpose_names = [''RETRIEVAL_SESSION_PURPOSE_UNSPECIFIED'', ''RETRIEVAL_SESSION_PURPOSE_USER'',
     ''RETRIEVAL_SESSION_PURPOSE_PROTOCOL_AUDIT'', ''RETRIEVAL_SESSION_PURPOSE_PROTOCOL_REPAIR'']"

text \<open>The canonical bytes of the challenge context.\<close>

definition challenge_context ::
  "js_string \<Rightarrow> bytes \<Rightarrow> bytes \<Rightarrow> nat \<Rightarrow> nat \<Rightarrow> bytes \<Rightarrow> bytes \<Rightarrow> bytes \<Rightarrow> nat \<Rightarrow> nat list \<Rightarrow> nat list
   \<Rightarrow> nat \<Rightarrow> nat list \<Rightarrow> bytes" where
  "challenge_context chainId setup sessionId dealId generation rootBytes assigned payee layout small wide startBlob heights =
     lp (ascii ''polystore/challenge-context/v2'') @ scalarBytes 2 4 @ lp chainId @ setup @ [1] @ sessionId
     @ scalarBytes dealId 8 @ scalarBytes generation 8 @ rootBytes @ assigned @ payee @ [word_of_nat layout]
     @ concat (map (\<lambda>v. scalarBytes v 4) small) @ concat (map (\<lambda>v. scalarBytes v 8) wide)
     @ scalarBytes startBlob 4 @ concat (map (\<lambda>v. scalarBytes v 8) heights)"

definition addressBytes :: "bech32_lib \<Rightarrow> js_string \<Rightarrow> bytes result" where
  "addressBytes lib v =
     (case bech32_decode lib v of
        None \<Rightarrow> Inl ''invalid bech32''
      | Some (prefix, words) \<Rightarrow>
          (case bech32_fromWords lib words of None \<Rightarrow> Inl ''invalid bech32 words'' | Some b \<Rightarrow> Inr b))"

definition session_mismatch ::
  "(string \<rightharpoonup> json) \<Rightarrow> (string \<rightharpoonup> json) \<Rightarrow> nat \<Rightarrow> expected_session \<Rightarrow> js_string \<Rightarrow> bytes \<Rightarrow> bytes
   \<Rightarrow> js_string \<Rightarrow> js_string \<Rightarrow> js_string \<Rightarrow> nat \<Rightarrow> nat \<Rightarrow> nat \<Rightarrow> nat \<Rightarrow> nat \<Rightarrow> bool result" where
  "session_mismatch s x height expected sessionId rootBytes setup owner assigned payee openedHeight expiry status funding purpose =
     (let pin = ex_pin expected; window = ex_window expected in
      any_holds
        [differs (protoUint (s ''challenge_version'') 0xffffffff) 2,
         Inr (sessionId \<noteq> ex_sessionId expected), Inr (hex rootBytes \<noteq> pg_root pin),
         differs (protoU64 (s ''deal_id'')) (pg_dealId pin),
         Inr (owner \<noteq> ex_owner expected), Inr (assigned \<noteq> rw_provider window),
         Inr (payee \<noteq> (case ex_payee expected of Some p \<Rightarrow> if p = [] then assigned else p | None \<Rightarrow> assigned)),
         Inr (funding \<noteq> ex_funding expected), Inr (purpose \<noteq> 1),
         Inr (x ''chain_id'' \<noteq> Some (JStr (pg_chainId pin))),
         Inr (hex setup \<noteq> ascii ''0x'' @ ascii RETRIEVAL_SETUP),
         differs (protoU64 (x ''generation'')) (pg_generation pin),
         differs (protoUint (x ''layout'') 0xffffffff) (pg_layout pin),
         differs (protoUint (x ''k'') 0xffffffff) (pg_k pin),
         differs (protoUint (x ''m'') 0xffffffff) (pg_m pin),
         differs (protoUint (x ''slot'') 0xffffffff) (rw_slot window),
         differs (protoU64 (x ''metadata_mdus'')) (pg_metadataMdus pin),
         differs (protoU64 (x ''user_mdus'')) (pg_userMdus pin),
         differs (protoU64 (x ''deal_end'')) (pg_endHeight pin),
         differs (protoU64 (s ''start_mdu_index'')) (rw_mduIndex window),
         differs (protoUint (s ''start_blob_index'') 0xffffffff) (rw_startBlobIndex window),
         differs (protoU64 (s ''blob_count'')) (rw_blobCount window),
         differs (protoU64 (s ''total_bytes'')) (rw_blobCount window * BLOB_SIZE_BYTES),
         Inr (openedHeight = 0 \<or> openedHeight < pg_height pin \<or> openedHeight + 2 > expiry
              \<or> expiry > pg_endHeight pin \<or> expiry > 2 ^ 63 - 1 \<or> height < openedHeight \<or> height > expiry
              \<or> status < 1 \<or> status > 4)])"

definition locked_fee_invalid :: "json option \<Rightarrow> bool" where
  "locked_fee_invalid v =
     (case v of
        Some (JStr fee) \<Rightarrow>
          \<not> (is_ascii fee \<and> canonical_decimal (chars fee) \<and> length fee \<le> 78) \<or> dec_val (chars fee) \<ge> 2 ^ 256
      | _ \<Rightarrow> True)"

definition payer_invalid :: "bech32_lib \<Rightarrow> nat \<Rightarrow> json option \<Rightarrow> js_string \<Rightarrow> bool result" where
  "payer_invalid lib funding payer owner =
     (if funding = 2 then differs (account lib payer) owner
      else Inr (payer \<noteq> None \<and> payer \<noteq> Some (JStr [])))"

definition parseFrozenSession ::
  "bech32_lib \<Rightarrow> json option \<Rightarrow> nat \<Rightarrow> expected_session \<Rightarrow> frozen_session result" where
  "parseFrozenSession lib payload height expected =
     sbind (record_of payload) (\<lambda>response.
     sbind (record_of (response ''session'')) (\<lambda>s.
     sbind (record_of (s ''challenge_snapshot'')) (\<lambda>x.
     let pin = ex_pin expected; window = ex_window expected in
     sbind (base64 (s ''session_id'') 32) (\<lambda>sid.
     sbind (base64 (s ''manifest_root'') 32) (\<lambda>root.
     sbind (base64 (x ''setup_digest'') 32) (\<lambda>setup.
     sbind (account lib (s ''owner'')) (\<lambda>owner.
     sbind (account lib (s ''provider'')) (\<lambda>assigned.
     sbind (account lib (s ''authorized_proof_provider'')) (\<lambda>payee.
     sbind (protoU64 (s ''opened_height'')) (\<lambda>openedHeight.
     sbind (protoU64 (s ''expires_at'')) (\<lambda>expiry.
     sbind (enumeration (s ''status'') status_names) (\<lambda>status.
     sbind (enumeration (s ''funding'') funding_names) (\<lambda>funding.
     sbind (enumeration (s ''purpose'') purpose_names) (\<lambda>purpose.
     sbind (session_mismatch s x height expected (hex sid) root setup owner assigned payee openedHeight expiry
              status funding purpose) (\<lambda>mismatch.
     if mismatch then Inl ''session does not match authorized request''
     else
     sbind (protoU64 (s ''nonce'')) (\<lambda>_.
     sbind (protoU64 (s ''updated_height'')) (\<lambda>_.
     sbind (if locked_fee_invalid (s ''locked_fee'') then Inr True
            else payer_invalid lib funding (s ''payer'') owner) (\<lambda>invalid.
     if invalid then Inl ''invalid session funding''
     else
     sbind (addressBytes lib assigned) (\<lambda>assignedBytes.
     sbind (addressBytes lib payee) (\<lambda>payeeBytes.
     let context = challenge_context (pg_chainId pin) setup sid (pg_dealId pin) (pg_generation pin) root
           assignedBytes payeeBytes (pg_layout pin) [pg_k pin, pg_m pin, rw_slot window]
           [pg_metadataMdus pin, pg_userMdus pin, rw_mduIndex window] (rw_startBlobIndex window)
           [rw_blobCount window, 0, 0, 0, openedHeight, openedHeight + 1, openedHeight + 2, expiry, pg_endHeight pin]
     in
     sbind (base64 (response ''challenge_context'') (length context)) (\<lambda>claimed.
     if \<not> equal_bytes context claimed then Inl ''nonmatching canonical challenge context''
     else
     sbind (base64 (response ''challenge_context_hash'') 32) (\<lambda>contextHash.
     sbind (if response ''challenge_seed'' = None \<or> response ''challenge_seed'' = Some JNull
               \<or> response ''challenge_seed'' = Some (JStr []) then Inr None
            else sbind (base64 (response ''challenge_seed'') 32) (\<lambda>seed. Inr (Some seed))) (\<lambda>seed.
     Inr \<lparr>fs_sessionId = hex sid, fs_pin = pin, fs_window = window, fs_owner = owner, fs_payee = payee,
          fs_height = height, fs_openedHeight = openedHeight, fs_expiry = expiry, fs_status = status,
          fs_funding = funding, fs_context = context, fs_contextHash = contextHash, fs_seed = seed\<rparr>)))))))))))))))))))))))"


section \<open>What the readers guarantee\<close>

lemma read_chunks_Inr:
  "read_chunks aborted n bound received chunks = Inr out \<Longrightarrow>
   out = chunks \<and> (chunks \<noteq> [] \<longrightarrow> received + length (concat chunks) \<le> bound)"
proof (induction chunks arbitrary: n received out)
  case Nil
  then show ?case by (auto split: if_splits)
next
  case (Cons chunk chunks)
  then obtain rest where "received + length chunk \<le> bound" "out = chunk # rest"
      "read_chunks aborted (n + 2) bound (received + length chunk) chunks = Inr rest"
    by (auto simp: sbind_eq_Inr split: if_splits)
  then show ?case
    using Cons.IH [of "n + 2" "received + length chunk" rest] by (cases chunks) auto
qed

lemma read_chunks_total:
  "\<forall>i. \<not> aborted i \<Longrightarrow> received + length (concat chunks) \<le> bound \<Longrightarrow>
   read_chunks aborted n bound received chunks = Inr chunks"
  by (induction chunks arbitrary: n received) auto

text \<open>
  The bounded reader returns the whole body or an error, and never a body past the
  bound, whatever the header claims. Without an abort, a body within the bound whose
  declared length is absent or within the bound is returned byte for byte.
\<close>

theorem bounded_response_exact:
  "(readBoundedResponse response bound aborted = Inr b \<longrightarrow>
      (\<exists>body. rs_body response = Some body \<and> b = concat body \<and> length b \<le> bound))
   \<and> (rs_body response = Some body \<and> length (concat body) \<le> bound \<and> (\<forall>i. \<not> aborted i)
        \<and> (rs_contentLength response = None \<or> (\<exists>n \<le> bound. rs_contentLength response = Some (dec_text n))) \<longrightarrow>
      readBoundedResponse response bound aborted = Inr (concat body))"
proof (intro conjI impI)
  assume "readBoundedResponse response bound aborted = Inr b"
  then obtain body chunks where "rs_body response = Some body" "read_chunks aborted 0 bound 0 body = Inr chunks"
      "b = concat chunks"
    by (auto simp: readBoundedResponse_def sbind_eq_Inr split: option.splits if_splits)
  then show "\<exists>body. rs_body response = Some body \<and> b = concat body \<and> length b \<le> bound"
    using read_chunks_Inr [of aborted 0 bound 0 body chunks] by (cases body) auto
next
  assume a: "rs_body response = Some body \<and> length (concat body) \<le> bound \<and> (\<forall>i. \<not> aborted i)
    \<and> (rs_contentLength response = None \<or> (\<exists>n \<le> bound. rs_contentLength response = Some (dec_text n)))"
  then have "read_chunks aborted 0 bound 0 body = Inr body"
    by (intro read_chunks_total) auto
  then show "readBoundedResponse response bound aborted = Inr (concat body)"
    using a by (auto simp: readBoundedResponse_def dec_text_def digits_ascii [OF dec_string_digits])
qed

theorem bounded_response_exact_witness:
  "readBoundedResponse \<lparr>rs_contentLength = Some (dec_text 3), rs_body = Some [[1, 2], [3]]\<rparr> 3 (\<lambda>_. False) = Inr [1, 2, 3]
   \<and> length [1, 2, 3 :: byte] \<le> 3"
  using bounded_response_exact [of "\<lparr>rs_contentLength = Some (dec_text 3), rs_body = Some [[1, 2], [3]]\<rparr>" 3
      "\<lambda>_. False" "[1, 2, 3]" "[[1, 2], [3]]"] by auto

lemma any_holds_False: "any_holds rs = Inr False \<longleftrightarrow> (\<forall>r \<in> set rs. r = Inr False)"
  by (induction rs) (auto simp: sbind_eq_Inr)

lemma differs_False [simp]: "differs r x = Inr False \<longleftrightarrow> r = Inr x"
  by (auto simp: differs_def sbind_eq_Inr)

lemma equal_bytes_iff [simp]: "equal_bytes a b \<longleftrightarrow> a = b"
  by (auto simp: equal_bytes_def list_all_iff intro: nth_equalityI)


section \<open>An accepted session is bound to the request\<close>

lemma account_Inr:
  "account lib v = Inr a \<Longrightarrow> v = Some (JStr a) \<and> (\<exists>b. addressBytes lib a = Inr b \<and> length b = 20)"
  by (auto simp: account_def addressBytes_def split: option.splits json.splits if_splits)

definition chosen_payee :: "expected_session \<Rightarrow> js_string" where
  "chosen_payee ex =
     (case ex_payee ex of Some p \<Rightarrow> if p = [] then rw_provider (ex_window ex) else p
      | None \<Rightarrow> rw_provider (ex_window ex))"

text \<open>The context of the request \<open>ex\<close> for a session opened and expiring at the given heights.\<close>

definition request_context :: "expected_session \<Rightarrow> bytes \<Rightarrow> bytes \<Rightarrow> bytes \<Rightarrow> bytes \<Rightarrow> bytes \<Rightarrow> nat \<Rightarrow> nat \<Rightarrow> bytes" where
  "request_context ex setup sid rootBytes a p opened expiry =
     (let pin = ex_pin ex; w = ex_window ex in
      challenge_context (pg_chainId pin) setup sid (pg_dealId pin) (pg_generation pin) rootBytes a p
        (pg_layout pin) [pg_k pin, pg_m pin, rw_slot w] [pg_metadataMdus pin, pg_userMdus pin, rw_mduIndex w]
        (rw_startBlobIndex w)
        [rw_blobCount w, 0, 0, 0, opened, opened + 1, opened + 2, expiry, pg_endHeight pin])"

text \<open>The ranges of the numbers that the context encodes.\<close>

definition wire_ranges :: "expected_session \<Rightarrow> bool" where
  "wire_ranges ex \<longleftrightarrow>
     (let pin = ex_pin ex; w = ex_window ex in
      pg_dealId pin < 2 ^ 64 \<and> pg_generation pin < 2 ^ 64 \<and> pg_k pin < 2 ^ 32 \<and> pg_m pin < 2 ^ 32
      \<and> rw_slot w < 2 ^ 32 \<and> pg_metadataMdus pin < 2 ^ 64 \<and> pg_userMdus pin < 2 ^ 64
      \<and> rw_mduIndex w < 2 ^ 64 \<and> rw_startBlobIndex w < 2 ^ 32 \<and> rw_blobCount w < 2 ^ 64
      \<and> pg_endHeight pin < 2 ^ 64)"

lemma protoUint_less: "protoUint v 0xffffffff = Inr n \<Longrightarrow> n < 2 ^ 32"
  by (auto simp: protoUint_def dest: uint_of_Inr split: option.splits)

lemma session_mismatch_False:
  assumes "session_mismatch s x height ex sid rootBytes setup owner assigned payee opened expiry status funding purpose = Inr False"
  shows "sid = ex_sessionId ex \<and> hex rootBytes = pg_root (ex_pin ex) \<and> owner = ex_owner ex
    \<and> assigned = rw_provider (ex_window ex) \<and> payee = chosen_payee ex \<and> funding = ex_funding ex
    \<and> hex setup = ascii ''0x'' @ ascii RETRIEVAL_SETUP
    \<and> pg_height (ex_pin ex) \<le> opened \<and> 0 < opened \<and> opened + 2 \<le> expiry \<and> expiry \<le> pg_endHeight (ex_pin ex)
    \<and> expiry < 2 ^ 63 \<and> opened \<le> height \<and> height \<le> expiry \<and> 1 \<le> status \<and> status \<le> 4 \<and> wire_ranges ex"
proof -
  note m = assms [unfolded session_mismatch_def Let_def any_holds_False]
  have small: "protoUint v 0xffffffff = Inr n \<Longrightarrow> n < 4294967296" for v n
    using protoUint_less [of v n] by simp
  have wide: "protoU64 v = Inr n \<Longrightarrow> n < 18446744073709551616" for v n
    using protoU64_less [of v n] by simp
  have "wire_ranges ex"
    using m unfolding wire_ranges_def Let_def by (auto dest!: small wide)
  then show ?thesis
    using m by (auto simp: chosen_payee_def)
qed

lemma parseFrozenSession_Inr:
  assumes "parseFrozenSession lib payload height ex = Inr fs"
  obtains s x sid rootBytes su purpose a p where
    "session_mismatch s x height ex (hex sid) rootBytes su (fs_owner fs) (rw_provider (ex_window ex)) (fs_payee fs)
       (fs_openedHeight fs) (fs_expiry fs) (fs_status fs) (fs_funding fs) purpose = Inr False"
    "fs_sessionId fs = hex sid" "length sid = 32" "length rootBytes = 32" "length su = 32"
    "length a = 20" "length p = 20" "fs_pin fs = ex_pin ex" "fs_window fs = ex_window ex" "fs_height fs = height"
    "fs_context fs = request_context ex su sid rootBytes a p (fs_openedHeight fs) (fs_expiry fs)"
    "length (fs_contextHash fs) = 32" "\<forall>seed. fs_seed fs = Some seed \<longrightarrow> length seed = 32"
proof -
  note unf = assms [unfolded parseFrozenSession_def if_Inl_eq_Inr sbind_eq_Inr Let_def sum.inject]
  then obtain response s x mm sid rootBytes su owner assigned payee opened expiry status funding purpose
      aB pB claimed hash seed where
    f: "base64 (s ''session_id'') 32 = Inr sid" "base64 (s ''manifest_root'') 32 = Inr rootBytes"
      "base64 (x ''setup_digest'') 32 = Inr su" "account lib (s ''provider'') = Inr assigned"
      "account lib (s ''authorized_proof_provider'') = Inr payee"
      "session_mismatch s x height ex (hex sid) rootBytes su owner assigned payee opened expiry status funding purpose
         = Inr mm" and mm: "\<not> mm" and f':
      "addressBytes lib assigned = Inr aB" "addressBytes lib payee = Inr pB"
      "base64 (response ''challenge_context_hash'') 32 = Inr hash"
      "(if response ''challenge_seed'' = None \<or> response ''challenge_seed'' = Some JNull
               \<or> response ''challenge_seed'' = Some (JStr []) then Inr None
            else sbind (base64 (response ''challenge_seed'') 32) (\<lambda>seed. Inr (Some seed))) = Inr seed"
    and fs: "fs = \<lparr>fs_sessionId = hex sid, fs_pin = ex_pin ex, fs_window = ex_window ex, fs_owner = owner, fs_payee = payee,
          fs_height = height, fs_openedHeight = opened, fs_expiry = expiry, fs_status = status,
          fs_funding = funding,
          fs_context = challenge_context (pg_chainId (ex_pin ex)) su sid (pg_dealId (ex_pin ex))
             (pg_generation (ex_pin ex)) rootBytes aB pB (pg_layout (ex_pin ex))
             [pg_k (ex_pin ex), pg_m (ex_pin ex), rw_slot (ex_window ex)]
             [pg_metadataMdus (ex_pin ex), pg_userMdus (ex_pin ex), rw_mduIndex (ex_window ex)]
             (rw_startBlobIndex (ex_window ex))
             [rw_blobCount (ex_window ex), 0, 0, 0, opened, opened + 1, opened + 2, expiry, pg_endHeight (ex_pin ex)],
          fs_contextHash = hash, fs_seed = seed\<rparr>"
    by blast
  have f6: "session_mismatch s x height ex (hex sid) rootBytes su owner assigned payee opened expiry status funding purpose
         = Inr False"
    using f(6) mm by simp
  have assigned: "assigned = rw_provider (ex_window ex)"
    using session_mismatch_False [OF f6] by simp
  have "length aB = 20" "length pB = 20"
    using account_Inr [OF f(4)] account_Inr [OF f(5)] f'(1,2) by auto
  moreover have "\<forall>sd. seed = Some sd \<longrightarrow> length sd = 32"
    using f'(4) by (auto simp: sbind_eq_Inr base64_Inr split: if_splits)
  ultimately show ?thesis
    using that [of s x sid rootBytes su purpose aB pB] f(1,2,3) f6 f'(3) assigned fs
    by (simp add: base64_Inr request_context_def Let_def)
qed

lemma be_bytes_inject: "a < 256 ^ n \<Longrightarrow> b < 256 ^ n \<Longrightarrow> be_bytes n a = be_bytes n b \<longleftrightarrow> a = b"
  using be_val_be_bytes [of n a] be_val_be_bytes [of n b] by (metis mod_less)

lemma hex_inject: "hex a = hex b \<longleftrightarrow> a = b"
  by (metis append_same_eq hex_pairs_body hex_prefix(1) same_append_eq)

lemma lp_split:
  assumes "length (utf8_encode c) < 2 ^ 32" and "length (utf8_encode c') < 2 ^ 32" and "lp c @ r = lp c' @ r'"
  shows "utf8_encode c = utf8_encode c' \<and> r = r'"
proof -
  have "be_bytes 4 (length (utf8_encode c)) = be_bytes 4 (length (utf8_encode c'))"
    and e: "utf8_encode c @ r = utf8_encode c' @ r'"
    using assms(3) by (simp_all add: lp_def Let_def scalarBytes_def)
  then have "length (utf8_encode c) = length (utf8_encode c')"
    using assms(1,2) be_bytes_inject [of _ 4] by simp
  then show ?thesis
    using e by simp
qed

lemma request_context_inject:
  assumes "request_context ex su sid rb a p opened expiry = request_context ex' su' sid' rb' a' p' opened' expiry'"
    and "length (utf8_encode (pg_chainId (ex_pin ex))) < 2 ^ 32" "length (utf8_encode (pg_chainId (ex_pin ex'))) < 2 ^ 32"
    and "length su = 32" "length su' = 32" "length sid = 32" "length sid' = 32" "length rb = 32" "length rb' = 32"
    and "length a = 20" "length a' = 20" "length p = 20" "length p' = 20"
    and "wire_ranges ex" "wire_ranges ex'" "opened + 2 < 2 ^ 64" "opened' + 2 < 2 ^ 64" "expiry < 2 ^ 64" "expiry' < 2 ^ 64"
  shows "utf8_encode (pg_chainId (ex_pin ex)) = utf8_encode (pg_chainId (ex_pin ex'))
    \<and> sid = sid' \<and> rb = rb' \<and> a = a' \<and> p = p'
    \<and> pg_dealId (ex_pin ex) = pg_dealId (ex_pin ex') \<and> pg_generation (ex_pin ex) = pg_generation (ex_pin ex')
    \<and> rw_slot (ex_window ex) = rw_slot (ex_window ex') \<and> rw_mduIndex (ex_window ex) = rw_mduIndex (ex_window ex')
    \<and> rw_startBlobIndex (ex_window ex) = rw_startBlobIndex (ex_window ex')
    \<and> rw_blobCount (ex_window ex) = rw_blobCount (ex_window ex') \<and> opened = opened' \<and> expiry = expiry'"
proof -
  define tail where "tail ex su sid rb a p opened expiry =
      su @ [1] @ sid @ be_bytes 8 (pg_dealId (ex_pin ex)) @ be_bytes 8 (pg_generation (ex_pin ex)) @ rb @ a @ p
      @ [word_of_nat (pg_layout (ex_pin ex))]
      @ be_bytes 4 (pg_k (ex_pin ex)) @ be_bytes 4 (pg_m (ex_pin ex)) @ be_bytes 4 (rw_slot (ex_window ex))
      @ be_bytes 8 (pg_metadataMdus (ex_pin ex)) @ be_bytes 8 (pg_userMdus (ex_pin ex)) @ be_bytes 8 (rw_mduIndex (ex_window ex))
      @ be_bytes 4 (rw_startBlobIndex (ex_window ex)) @ be_bytes 8 (rw_blobCount (ex_window ex))
      @ be_bytes 8 0 @ be_bytes 8 0 @ be_bytes 8 0 @ be_bytes 8 opened @ be_bytes 8 (opened + 1) @ be_bytes 8 (opened + 2)
      @ be_bytes 8 expiry @ be_bytes 8 (pg_endHeight (ex_pin ex))"
    for ex :: expected_session and su sid rb a p :: bytes and opened expiry
  have "lp (pg_chainId (ex_pin ex)) @ tail ex su sid rb a p opened expiry
      = lp (pg_chainId (ex_pin ex')) @ tail ex' su' sid' rb' a' p' opened' expiry'"
    using assms(1) by (simp add: request_context_def challenge_context_def Let_def scalarBytes_def tail_def)
  then have c: "utf8_encode (pg_chainId (ex_pin ex)) = utf8_encode (pg_chainId (ex_pin ex'))"
    and t: "tail ex su sid rb a p opened expiry = tail ex' su' sid' rb' a' p' opened' expiry'"
    using lp_split assms(2,3) by blast+
  show ?thesis
    using c t assms(4-) unfolding tail_def wire_ranges_def Let_def
    by (simp add: be_bytes_inject)
qed

text \<open>A session of a replicated deal, for the witnesses.\<close>

definition session_pin :: pinned_generation where
  "session_pin = \<lparr>pg_chainId = ascii ''chain-1'', pg_height = 10, pg_dealId = 7, pg_generation = 1,
     pg_root = hex (replicate 32 0), pg_owner = sample_account, pg_endHeight = 90, pg_layout = 1, pg_k = 1, pg_m = 0,
     pg_rows = 64, pg_leafCount = 64, pg_metadataMdus = 2, pg_userMdus = 2, pg_totalMdus = 4,
     pg_assignments = [\<lparr>as_provider = sample_account, as_active = True\<rparr>]\<rparr>"

definition session_window :: retrieval_window where
  "session_window = \<lparr>rw_mduIndex = 2, rw_slot = 0, rw_provider = sample_account, rw_startBlobIndex = 0,
     rw_blobCount = 1, rw_slices = []\<rparr>"

definition session_expected :: expected_session where
  "session_expected = \<lparr>ex_sessionId = hex (replicate 32 1), ex_pin = session_pin, ex_window = session_window,
     ex_owner = sample_account, ex_payee = None, ex_funding = 1\<rparr>"

definition setup_bytes :: bytes where
  "setup_bytes = hex_pairs (ascii RETRIEVAL_SETUP)"

definition session_payload :: "json option" where
  "session_payload = Some (JObj
     [(''session'', JObj
        [(''session_id'', JStr (btoa (replicate 32 1))), (''manifest_root'', JStr (btoa (replicate 32 0))),
         (''owner'', JStr sample_account), (''provider'', JStr sample_account),
         (''authorized_proof_provider'', JStr sample_account), (''opened_height'', JStr (dec_text 20)),
         (''expires_at'', JStr (dec_text 30)), (''status'', JNum (num 1)), (''funding'', JNum (num 1)),
         (''purpose'', JNum (num 1)), (''challenge_version'', JNum (num 2)), (''deal_id'', JStr (dec_text 7)),
         (''start_mdu_index'', JStr (dec_text 2)), (''blob_count'', JStr (dec_text 1)),
         (''total_bytes'', JStr (dec_text 131072)), (''locked_fee'', JStr (dec_text 5)),
         (''challenge_snapshot'', JObj
            [(''setup_digest'', JStr (btoa setup_bytes)), (''chain_id'', JStr (ascii ''chain-1'')),
             (''generation'', JStr (dec_text 1)), (''layout'', JNum (num 1)), (''k'', JNum (num 1)),
             (''metadata_mdus'', JStr (dec_text 2)), (''user_mdus'', JStr (dec_text 2)),
             (''deal_end'', JStr (dec_text 90))])]),
      (''challenge_context'', JStr (btoa (request_context session_expected setup_bytes (replicate 32 1) (replicate 32 0)
         (replicate 20 97) (replicate 20 97) 20 30))),
      (''challenge_context_hash'', JStr (btoa (replicate 32 3)))])"

lemma hex_setup: "hex setup_bytes = ascii ''0x'' @ ascii RETRIEVAL_SETUP" "length setup_bytes = 32"
proof -
  have "hex_body (hex_pairs (ascii RETRIEVAL_SETUP)) = ascii RETRIEVAL_SETUP"
    by (rule hex_body_pairs) (simp_all add: RETRIEVAL_SETUP_def ascii_def hex_value_def)
  then show "hex setup_bytes = ascii ''0x'' @ ascii RETRIEVAL_SETUP"
    by (simp add: setup_bytes_def hex_prefix(1))
  show "length setup_bytes = 32"
    by (simp add: setup_bytes_def RETRIEVAL_SETUP_def ascii_def)
qed

lemma sample_address: "addressBytes sample_bech32 sample_account = Inr (replicate 20 97)"
  by (simp add: addressBytes_def sample_bech32_def sample_account_def ascii_def)

lemma sample_fee: "\<not> locked_fee_invalid (Some (JStr (dec_text 5)))"
proof -
  have "length (dec_string 5) \<le> Suc 0"
    by (rule length_dec_string) simp
  then show ?thesis
    by (simp add: locked_fee_invalid_def dec_text_def digits_ascii [OF dec_string_digits])
qed

lemma session_run: "\<exists>fs. parseFrozenSession sample_bech32 session_payload 25 session_expected = Inr fs"
  unfolding parseFrozenSession_def session_payload_def record_of_def
  by (simp add: session_mismatch_def session_expected_def session_pin_def session_window_def Let_def
      differs_def protoU64_def protoUint_def u64_dec_text enumeration_def status_names_def funding_names_def
      purpose_names_def hex_setup sample_address sample_fee payer_invalid_def request_context_def)


text \<open>
  C21: the challenge context identifies the session. Two accepted sessions with the same
  context bytes agree on the session, the deal, the generation, the slot, the blobs and
  the heights that the challenge is about.
\<close>

theorem challenge_context_identifies:
  assumes "parseFrozenSession lib payload height ex = Inr fs"
    and "parseFrozenSession lib payload' height' ex' = Inr fs'"
    and "length (utf8_encode (pg_chainId (ex_pin ex))) \<le> 50" and "length (utf8_encode (pg_chainId (ex_pin ex'))) \<le> 50"
    and "fs_context fs = fs_context fs'"
  shows "fs_sessionId fs = fs_sessionId fs' \<and> pg_root (fs_pin fs) = pg_root (fs_pin fs')
    \<and> pg_dealId (fs_pin fs) = pg_dealId (fs_pin fs') \<and> pg_generation (fs_pin fs) = pg_generation (fs_pin fs')
    \<and> rw_slot (fs_window fs) = rw_slot (fs_window fs') \<and> rw_mduIndex (fs_window fs) = rw_mduIndex (fs_window fs')
    \<and> rw_startBlobIndex (fs_window fs) = rw_startBlobIndex (fs_window fs')
    \<and> rw_blobCount (fs_window fs) = rw_blobCount (fs_window fs')
    \<and> fs_openedHeight fs = fs_openedHeight fs' \<and> fs_expiry fs = fs_expiry fs'"
proof -
  obtain s x sid rb su purpose a p where r:
    "session_mismatch s x height ex (hex sid) rb su (fs_owner fs) (rw_provider (ex_window ex)) (fs_payee fs)
       (fs_openedHeight fs) (fs_expiry fs) (fs_status fs) (fs_funding fs) purpose = Inr False"
    "fs_sessionId fs = hex sid" "length sid = 32" "length rb = 32" "length su = 32" "length a = 20" "length p = 20"
    "fs_pin fs = ex_pin ex" "fs_window fs = ex_window ex"
    "fs_context fs = request_context ex su sid rb a p (fs_openedHeight fs) (fs_expiry fs)"
    using parseFrozenSession_Inr [OF assms(1)] by metis
  obtain s' x' sid' rb' su' purpose' a' p' where r':
    "session_mismatch s' x' height' ex' (hex sid') rb' su' (fs_owner fs') (rw_provider (ex_window ex')) (fs_payee fs')
       (fs_openedHeight fs') (fs_expiry fs') (fs_status fs') (fs_funding fs') purpose' = Inr False"
    "fs_sessionId fs' = hex sid'" "length sid' = 32" "length rb' = 32" "length su' = 32" "length a' = 20" "length p' = 20"
    "fs_pin fs' = ex_pin ex'" "fs_window fs' = ex_window ex'"
    "fs_context fs' = request_context ex' su' sid' rb' a' p' (fs_openedHeight fs') (fs_expiry fs')"
    using parseFrozenSession_Inr [OF assms(2)] by metis
  note m = session_mismatch_False [OF r(1)] session_mismatch_False [OF r'(1)]
  have "sid = sid' \<and> rb = rb' \<and> pg_dealId (ex_pin ex) = pg_dealId (ex_pin ex')
    \<and> pg_generation (ex_pin ex) = pg_generation (ex_pin ex')
    \<and> rw_slot (ex_window ex) = rw_slot (ex_window ex') \<and> rw_mduIndex (ex_window ex) = rw_mduIndex (ex_window ex')
    \<and> rw_startBlobIndex (ex_window ex) = rw_startBlobIndex (ex_window ex')
    \<and> rw_blobCount (ex_window ex) = rw_blobCount (ex_window ex')
    \<and> fs_openedHeight fs = fs_openedHeight fs' \<and> fs_expiry fs = fs_expiry fs'"
    using request_context_inject [OF assms(5) [unfolded r(10) r'(10)]] assms(3,4) r(3-7) r'(3-7) m by simp
  then show ?thesis
    using r r' m by simp
qed


theorem challenge_context_identifies_witness:
  "\<exists>fs. parseFrozenSession sample_bech32 session_payload 25 session_expected = Inr fs
     \<and> length (utf8_encode (pg_chainId (ex_pin session_expected))) \<le> 50
     \<and> fs_sessionId fs = fs_sessionId fs"
proof -
  obtain fs where run: "parseFrozenSession sample_bech32 session_payload 25 session_expected = Inr fs"
    using session_run by blast
  have len: "length (utf8_encode (pg_chainId (ex_pin session_expected))) \<le> 50"
    by (simp add: session_expected_def session_pin_def ascii_def utf8_encode_def utf8_nats_def utf8_char_def surrogate_def)
  show ?thesis
    using run len challenge_context_identifies [OF run run len len refl] by blast
qed

end
