(* ===== verification/RetrievalV3.thy ===== *)
theory RetrievalV3
  imports RetrievalSession
begin

text \<open>
  Retrieval sessions of version 3 (\<open>lib/retrievalV3.ts\<close>): the admitted generation and its
  relation to the active deal, the policy of sponsored requests, the range of blobs of a
  request, the obligations of the eight systematic providers and the chunks in which their
  blobs are fetched.
\<close>


section \<open>The admitted generation\<close>

definition RETRIEVAL_V3_SETUP :: js_string where
  "RETRIEVAL_V3_SETUP = ascii ''0xd39b9f2d047cc9dca2de58f264b6a09448ccd34db967881a6713eacacf0f26b7''"

definition MAX_MDUS :: nat where
  "MAX_MDUS = 65537"

record frozen_generation_v3 =
  g3_chainId :: js_string
  g3_height :: nat
  g3_dealId :: nat
  g3_generation :: nat
  g3_owner :: js_string
  g3_dealEnd :: nat
  g3_polyfsRoot :: js_string
  g3_integrityRoot :: js_string
  g3_setupDigest :: js_string
  g3_retrievalPolicyMode :: nat
  g3_integrityLeafCount :: nat
  g3_metadataMdus :: nat
  g3_userMdus :: nat
  g3_totalMdus :: nat
  g3_witnessMdus :: nat
  g3_providers :: "js_string list"

definition policy_names :: "string list" where
  "policy_names = [''RETRIEVAL_POLICY_MODE_UNSPECIFIED'', ''RETRIEVAL_POLICY_MODE_OWNER_ONLY'',
     ''RETRIEVAL_POLICY_MODE_ALLOWLIST'', ''RETRIEVAL_POLICY_MODE_VOUCHER'',
     ''RETRIEVAL_POLICY_MODE_ALLOWLIST_OR_VOUCHER'', ''RETRIEVAL_POLICY_MODE_PUBLIC'']"

definition admitted_mismatch ::
  "bech32_lib \<Rightarrow> (string \<rightharpoonup> json) \<Rightarrow> js_string \<Rightarrow> nat \<Rightarrow> nat \<Rightarrow> pinned_generation \<Rightarrow> nat \<Rightarrow> js_string \<Rightarrow> js_string
   \<Rightarrow> nat \<Rightarrow> nat \<Rightarrow> nat \<Rightarrow> nat \<Rightarrow> nat \<Rightarrow> bool result" where
  "admitted_mismatch lib g chainId height dealId deal generation polyfsRoot setupDigest totalMdus witnessMdus metadataMdus
     userMdus integrityLeafCount =
     any_holds
       [differs (protoU64 (g ''deal_id'')) dealId,
        differs (account lib (g ''owner'')) (pg_owner deal),
        Inr (g ''chain_id'' \<noteq> Some (JStr chainId)), Inr (generation \<noteq> pg_generation deal),
        Inr (polyfsRoot \<noteq> pg_root deal), Inr (setupDigest \<noteq> RETRIEVAL_V3_SETUP),
        Inr (totalMdus \<noteq> metadataMdus + userMdus), Inr (metadataMdus \<noteq> witnessMdus + 1),
        Inr (metadataMdus = 0), Inr (userMdus = 0), Inr (totalMdus > MAX_MDUS),
        Inr (integrityLeafCount \<noteq> userMdus * 96),
        sbind (protoU64 (g ''size'')) (\<lambda>n. Inr (n > userMdus * RAW_MDU_CAPACITY_BYTES)),
        differs (protoUint (g ''accepted_slots_mask'') 0xfff) 0xfff,
        sbind (protoU64 (g ''proposed_height'')) (\<lambda>n. Inr (n < 1)),
        sbind (protoU64 (g ''proposed_height'')) (\<lambda>n. Inr (n > height)),
        Inr (case g ''providers'' of Some (JArr ps) \<Rightarrow> length ps \<noteq> 12 | _ \<Rightarrow> True)]"

definition array_of :: "json option \<Rightarrow> json list" where
  "array_of v = (case v of Some (JArr xs) \<Rightarrow> xs | _ \<Rightarrow> [])"

definition deal_mismatch :: "pinned_generation \<Rightarrow> js_string list \<Rightarrow> nat \<Rightarrow> nat \<Rightarrow> bool" where
  "deal_mismatch deal providers metadataMdus userMdus \<longleftrightarrow>
     card (set providers) \<noteq> 12 \<or> pg_layout deal \<noteq> 2 \<or> pg_k deal \<noteq> 8 \<or> pg_m deal \<noteq> 4
     \<or> pg_metadataMdus deal \<noteq> metadataMdus \<or> pg_userMdus deal \<noteq> userMdus
     \<or> list_ex (\<lambda>(assignment, slot). \<not> as_active assignment
          \<or> (if slot < length providers then Some (providers ! slot) else None) \<noteq> Some (as_provider assignment))
         (zip (pg_assignments deal) [0..<length (pg_assignments deal)])"

definition parseGeneration ::
  "bech32_lib \<Rightarrow> json option \<Rightarrow> js_string \<Rightarrow> nat \<Rightarrow> nat \<Rightarrow> json option \<Rightarrow> frozen_generation_v3 option result" where
  "parseGeneration lib payload chainId height dealId dealPayload =
     sbind (record_of payload) (\<lambda>response.
     if response ''admitted'' = None \<or> response ''admitted'' = Some JNull then Inr None
     else
     sbind (record_of (response ''admitted'')) (\<lambda>g.
     sbind (parsePinnedGeneration lib dealPayload chainId height dealId) (\<lambda>deal.
     sbind (record_of dealPayload) (\<lambda>p.
     sbind (record_of (p ''deal'')) (\<lambda>d.
     sbind (record_of (d ''retrieval_policy'')) (\<lambda>policy.
     sbind (enumeration (policy ''mode'') policy_names) (\<lambda>mode.
     sbind (protoU64 (g ''generation'')) (\<lambda>generation.
     sbind (base64 (g ''polyfs_root'') 32) (\<lambda>polyfsRoot.
     sbind (base64 (g ''integrity_root'') 32) (\<lambda>integrityRoot.
     sbind (base64 (g ''setup_digest'') 32) (\<lambda>setupDigest.
     sbind (protoU64 (g ''total_mdus'')) (\<lambda>totalMdus.
     sbind (protoU64 (g ''witness_mdus'')) (\<lambda>witnessMdus.
     sbind (protoU64 (g ''metadata_mdus'')) (\<lambda>metadataMdus.
     sbind (protoU64 (g ''user_mdus'')) (\<lambda>userMdus.
     sbind (protoU64 (g ''integrity_leaf_count'')) (\<lambda>integrityLeafCount.
     sbind (admitted_mismatch lib g chainId height dealId deal generation (hex polyfsRoot) (hex setupDigest)
              totalMdus witnessMdus metadataMdus userMdus integrityLeafCount) (\<lambda>mismatch.
     if mismatch then Inl ''invalid admitted v3 generation''
     else
     sbind (smap (\<lambda>p. account lib (Some p)) (array_of (g ''providers''))) (\<lambda>providers.
     if deal_mismatch deal providers metadataMdus userMdus then Inl ''v3 generation does not match active deal''
     else if mode < 1 \<or> mode > 5 then Inl ''invalid v3 retrieval policy''
     else Inr (Some
       \<lparr>g3_chainId = chainId, g3_height = height, g3_dealId = dealId, g3_generation = generation,
        g3_owner = pg_owner deal, g3_dealEnd = pg_endHeight deal, g3_polyfsRoot = hex polyfsRoot,
        g3_integrityRoot = hex integrityRoot, g3_setupDigest = hex setupDigest, g3_retrievalPolicyMode = mode,
        g3_integrityLeafCount = integrityLeafCount, g3_metadataMdus = metadataMdus, g3_userMdus = userMdus,
        g3_totalMdus = totalMdus, g3_witnessMdus = witnessMdus, g3_providers = providers\<rparr>)))))))))))))))))))"

text \<open>
  \<open>fetchActiveGenerationV3\<close> over the committed query, which takes a path and perhaps a
  height and yields a payload and its height.
\<close>

type_synonym committed_query = "js_string \<Rightarrow> nat option \<Rightarrow> (json option \<times> nat) result"

definition deal_path :: "nat \<Rightarrow> js_string" where
  "deal_path dealId = ascii ''/polystorechain/polystorechain/v1/deals/'' @ dec_text dealId"

definition fetchActiveGenerationV3 ::
  "bech32_lib \<Rightarrow> committed_query \<Rightarrow> js_string \<Rightarrow> json option \<Rightarrow> frozen_generation_v3 option result" where
  "fetchActiveGenerationV3 lib committedQuery chainId dealIdRaw =
     sbind (u64 dealIdRaw) (\<lambda>dealId.
     case committedQuery (deal_path dealId @ ascii ''/generation-v3'') None of
       Inl e \<Rightarrow> if e = ''chain query failed (404)'' then Inr None else Inl e
     | Inr (generation, height) \<Rightarrow>
         sbind (committedQuery (ascii ''/polystorechain/polystorechain/v1/params'') (Some height)) (\<lambda>(params, _).
         sbind (record_of params) (\<lambda>p.
         sbind (record_of (p ''params'')) (\<lambda>q.
         sbind (protoU64 (q ''retrieval_v3_activation_height'')) (\<lambda>activation.
         if activation = 0 \<or> activation > height then Inr None
         else
         sbind (committedQuery (deal_path dealId) (Some height)) (\<lambda>(deal, _).
         parseGeneration lib generation chainId height dealId deal))))))"

definition generationAsPinnedV2Shape :: "frozen_generation_v3 \<Rightarrow> pinned_generation" where
  "generationAsPinnedV2Shape g =
     \<lparr>pg_chainId = g3_chainId g, pg_height = g3_height g, pg_dealId = g3_dealId g, pg_generation = g3_generation g,
      pg_root = g3_polyfsRoot g, pg_owner = g3_owner g, pg_endHeight = g3_dealEnd g, pg_layout = 2, pg_k = 8, pg_m = 4,
      pg_rows = 8, pg_leafCount = 96, pg_metadataMdus = g3_metadataMdus g, pg_userMdus = g3_userMdus g,
      pg_totalMdus = g3_totalMdus g, pg_assignments = map (\<lambda>p. \<lparr>as_provider = p, as_active = True\<rparr>) (g3_providers g)\<rparr>"

definition sameFrozenGenerationV3 :: "frozen_generation_v3 \<Rightarrow> frozen_generation_v3 \<Rightarrow> bool" where
  "sameFrozenGenerationV3 a b \<longleftrightarrow>
     g3_chainId a = g3_chainId b \<and> g3_dealId a = g3_dealId b \<and> g3_generation a = g3_generation b \<and> g3_owner a = g3_owner b
     \<and> g3_dealEnd a = g3_dealEnd b \<and> g3_polyfsRoot a = g3_polyfsRoot b \<and> g3_integrityRoot a = g3_integrityRoot b
     \<and> g3_setupDigest a = g3_setupDigest b \<and> g3_integrityLeafCount a = g3_integrityLeafCount b
     \<and> g3_metadataMdus a = g3_metadataMdus b \<and> g3_userMdus a = g3_userMdus b \<and> g3_totalMdus a = g3_totalMdus b
     \<and> g3_witnessMdus a = g3_witnessMdus b \<and> g3_retrievalPolicyMode a = g3_retrievalPolicyMode b
     \<and> length (g3_providers a) = length (g3_providers b)
     \<and> list_all (\<lambda>i. g3_providers a ! i = g3_providers b ! i) [0..<length (g3_providers a)]"

record retrieval_request_v3 =
  rq_authority :: frozen_generation_v3
  rq_recordIndex :: nat
  rq_file :: retrieval_file
  rq_rangeStart :: nat
  rq_rangeLength :: nat

definition sameFrozenRetrievalRequestV3 :: "retrieval_request_v3 \<Rightarrow> retrieval_request_v3 \<Rightarrow> bool" where
  "sameFrozenRetrievalRequestV3 a b \<longleftrightarrow>
     sameFrozenGenerationV3 (rq_authority a) (rq_authority b) \<and> rq_recordIndex a = rq_recordIndex b
     \<and> rf_path (rq_file a) = rf_path (rq_file b) \<and> rf_start_offset (rq_file a) = rf_start_offset (rq_file b)
     \<and> rf_size_bytes (rq_file a) = rf_size_bytes (rq_file b) \<and> rf_flags (rq_file a) = rf_flags (rq_file b)
     \<and> rq_rangeStart a = rq_rangeStart b \<and> rq_rangeLength a = rq_rangeLength b"

datatype auth_type = AuthNone | AuthAllowlist | AuthVoucher

definition assertSponsoredPolicyV3 :: "frozen_generation_v3 \<Rightarrow> js_string \<Rightarrow> auth_type \<Rightarrow> unit result" where
  "assertSponsoredPolicyV3 authority requester authType =
     (if requester = g3_owner authority then Inr ()
      else
        let mode = g3_retrievalPolicyMode authority in
        if (authType = AuthNone \<and> mode \<noteq> 5) \<or> (authType = AuthAllowlist \<and> mode \<noteq> 2 \<and> mode \<noteq> 4)
           \<or> (authType = AuthVoucher \<and> mode \<noteq> 3 \<and> mode \<noteq> 4)
        then Inl ''the committed deal retrieval policy does not authorize this sponsored request''
        else Inr ())"


section \<open>Ranges and obligations\<close>

record retrieval_range_v3 =
  rg_first :: nat
  rg_last :: nat
  rg_population :: nat

definition decodeRangeV3 :: "bytes \<Rightarrow> retrieval_range_v3 result" where
  "decodeRangeV3 b =
     (if length b \<noteq> 24 then Inl ''invalid v3 range result''
      else
        let first = be_val (subarray 0 8 b); last_blob = be_val (subarray 8 16 b); population = be_val (subarray 16 24 b)
        in if population = 0 \<or> int last_blob - int first + 1 \<noteq> int population then Inl ''invalid v3 range result''
           else Inr \<lparr>rg_first = first, rg_last = last_blob, rg_population = population\<rparr>)"

record obligation_v3 =
  ob_slot :: nat
  ob_assigned :: js_string
  ob_payee :: js_string
  ob_blobCount :: nat
  ob_sampleCount :: nat
  ob_lockedFee :: nat

definition slot_first :: "retrieval_range_v3 \<Rightarrow> nat \<Rightarrow> nat" where
  "slot_first rg slot =
     (if rg_first rg \<le> slot then slot else rg_first rg + (slot + 8 - rg_first rg mod 8) mod 8)"

definition slot_obligation :: "retrieval_range_v3 \<Rightarrow> js_string list \<Rightarrow> nat \<Rightarrow> obligation_v3 option" where
  "slot_obligation rg providers slot =
     (let first = slot_first rg slot in
      if first > rg_last rg then None
      else Some \<lparr>ob_slot = slot, ob_assigned = providers ! slot, ob_payee = providers ! slot,
                 ob_blobCount = (rg_last rg - first) div 8 + 1, ob_sampleCount = 0, ob_lockedFee = 0\<rparr>)"

definition expectedObligationsV3 :: "retrieval_range_v3 \<Rightarrow> js_string list \<Rightarrow> obligation_v3 list result" where
  "expectedObligationsV3 rg providers =
     (if length providers < 8 then Inl ''missing systematic providers''
      else Inr (List.map_filter (slot_obligation rg providers) [0..<8]))"


section \<open>Chunks\<close>

record chunk_entry =
  en_t :: nat
  en_mduIndex :: nat
  en_leafIndex :: nat
  en_integrityPosition :: nat

record chunk_authority =
  ck_authority :: frozen_generation_v3
  ck_sessionId :: js_string
  ck_contextHash :: bytes
  ck_slot :: nat
  ck_mduIndex :: nat
  ck_startBlobIndex :: nat
  ck_entries :: "chunk_entry list"

text \<open>The loop over the blobs of a slot, every eighth from \<open>t\<close> on.\<close>

function chunk_entries :: "frozen_generation_v3 \<Rightarrow> nat \<Rightarrow> nat \<Rightarrow> nat \<Rightarrow> chunk_entry list" where
  "chunk_entries authority slot high t =
     (if t \<le> high
      then let leafIndex = slot * 8 + t mod 64 div 8
           in \<lparr>en_t = t, en_mduIndex = g3_metadataMdus authority + t div 64, en_leafIndex = leafIndex,
               en_integrityPosition = t div 64 * 96 + leafIndex\<rparr> # chunk_entries authority slot high (t + 8)
      else [])"
  by pat_completeness auto
termination by (relation "measure (\<lambda>(authority, slot, high, t). Suc high - t)") auto

declare chunk_entries.simps [simp del]

definition mdu_chunk ::
  "frozen_generation_v3 \<Rightarrow> js_string \<Rightarrow> bytes \<Rightarrow> nat \<Rightarrow> nat \<Rightarrow> nat \<Rightarrow> nat \<Rightarrow> chunk_authority option" where
  "mdu_chunk authority sessionId contextHash session_first session_last slot userMdu =
     (let low = (if userMdu * 64 > session_first then userMdu * 64 else session_first);
          high = (if userMdu * 64 + 63 < session_last then userMdu * 64 + 63 else session_last);
          first = low + (slot + 8 - low mod 8) mod 8
      in if first > high then None
         else
           let entries = chunk_entries authority slot high first
           in Some \<lparr>ck_authority = authority, ck_sessionId = sessionId, ck_contextHash = contextHash, ck_slot = slot,
                    ck_mduIndex = g3_metadataMdus authority + userMdu, ck_startBlobIndex = en_leafIndex (hd entries),
                    ck_entries = entries\<rparr>)"

definition slot_chunks ::
  "frozen_generation_v3 \<Rightarrow> js_string \<Rightarrow> bytes \<Rightarrow> nat \<Rightarrow> nat \<Rightarrow> nat \<Rightarrow> chunk_authority list" where
  "slot_chunks authority sessionId contextHash session_first session_last slot =
     List.map_filter (mdu_chunk authority sessionId contextHash session_first session_last slot)
       [session_first div 64..<Suc (session_last div 64)]"

definition planV3Chunks ::
  "frozen_generation_v3 \<Rightarrow> js_string \<Rightarrow> bytes \<Rightarrow> nat \<Rightarrow> nat \<Rightarrow> jsnum option \<Rightarrow> chunk_authority list result" where
  "planV3Chunks authority sessionId contextHash session_first session_last onlySlot =
     (if (case onlySlot of None \<Rightarrow> False | Some n \<Rightarrow> \<not> isSafeInteger n \<or> js_less n 0 \<or> js_floor n > 7)
      then Inl ''invalid v3 chunk slot''
      else Inr (concat (map (slot_chunks authority sessionId contextHash session_first session_last)
             (filter (\<lambda>slot. case onlySlot of None \<Rightarrow> True | Some n \<Rightarrow> num slot = n) [0..<8]))))"


section \<open>Every blob of the range, once\<close>

definition blobs_of :: "nat \<Rightarrow> nat \<Rightarrow> nat \<Rightarrow> nat list" where
  "blobs_of a b slot = filter (\<lambda>t. t mod 8 = slot) [a..<Suc b]"

lemma by_eights:
  obtains q r where "(n :: nat) = 8 * q + r" "r < 8" "n mod 8 = r" "n div 8 = q"
  by (metis div_mult_mod_eq mod_less_divisor mult.commute zero_less_numeral)

lemma next_congruent:
  assumes "slot < (8 :: nat)"
  shows "(low + (slot + 8 - low mod 8) mod 8) mod 8 = slot" "low \<le> low + (slot + 8 - low mod 8) mod 8"
    "low \<le> t \<Longrightarrow> t mod 8 = slot \<Longrightarrow> low + (slot + 8 - low mod 8) mod 8 \<le> t"
proof -
  obtain q r where low: "low = 8 * q + r" "r < 8" "low mod 8 = r"
    by (rule by_eights)
  define p where "p = (if r \<le> slot then q else q + 1)"
  have d: "(slot + 8 - r) mod 8 = (if r \<le> slot then slot - r else slot + 8 - r)"
  proof (cases "r \<le> slot")
    case True
    then have "slot + 8 - r = (slot - r) + 8"
      by simp
    then show ?thesis
      using True assms by (simp only: mod_add_self2) simp
  qed simp
  have p: "low + (slot + 8 - low mod 8) mod 8 = 8 * p + slot" "8 * p + slot < low + 8"
    unfolding low(3) d unfolding low(1) p_def using low(2) assms by auto
  show "(low + (slot + 8 - low mod 8) mod 8) mod 8 = slot"
    unfolding p(1) using assms by simp
  show "low + (slot + 8 - low mod 8) mod 8 \<le> t" if ge: "low \<le> t" and cls: "t mod 8 = slot"
  proof -
    obtain q' where "t = 8 * q' + slot"
      using cls by_eights [of t] by metis
    then show ?thesis
      unfolding p(1) using ge p(2) by simp
  qed
qed simp

lemma next_of_class:
  assumes "t mod 8 = x mod (8 :: nat)" "t < x"
  shows "t + 8 \<le> x"
proof -
  obtain p q r where "t = 8 * p + r" "x = 8 * q + r"
    using assms(1) by_eights [of t] by_eights [of x] by metis
  then show ?thesis
    using assms(2) by simp
qed

lemma chunk_entries_blobs:
  assumes "t mod 8 = slot" "low \<le> t" "\<And>x. low \<le> x \<Longrightarrow> x mod 8 = slot \<Longrightarrow> t \<le> x"
  shows "map en_t (chunk_entries authority slot high t) = blobs_of low high slot"
  using assms
proof (induction "Suc high - t" arbitrary: t low rule: less_induct)
  case less
  show ?case
  proof (cases "t \<le> high")
    case False
    then have "blobs_of low high slot = []"
      using less.prems(3) by (force simp: blobs_of_def filter_empty_conv)
    then show ?thesis
      using False by (simp add: chunk_entries.simps [of _ _ _ t])
  next
    case True
    have "[low..<Suc high] = [low..<t] @ t # [Suc t..<Suc high]"
      using True less.prems(2) by (metis le_Suc_eq upt_add_eq_append le_add_diff_inverse upt_conv_Cons less_Suc_eq_le)
    moreover have "filter (\<lambda>t. t mod 8 = slot) [low..<t] = []"
      using less.prems(3) by (force simp: filter_empty_conv)
    ultimately have "blobs_of low high slot = t # blobs_of (Suc t) high slot"
      using less.prems(1) by (simp add: blobs_of_def)
    moreover have "map en_t (chunk_entries authority slot high (t + 8)) = blobs_of (Suc t) high slot"
    proof (rule less.hyps)
      show "t + 8 \<le> x" if "Suc t \<le> x" "x mod 8 = slot" for x
        using that less.prems(1) next_of_class [of t x] by simp
    qed (use True less.prems(1) in auto)
    ultimately show ?thesis
      using True by (simp add: chunk_entries.simps [of _ _ _ t] Let_def)
  qed
qed

definition entry_at :: "frozen_generation_v3 \<Rightarrow> nat \<Rightarrow> nat \<Rightarrow> chunk_entry" where
  "entry_at authority slot t =
     \<lparr>en_t = t, en_mduIndex = g3_metadataMdus authority + t div 64, en_leafIndex = slot * 8 + t mod 64 div 8,
      en_integrityPosition = t div 64 * 96 + (slot * 8 + t mod 64 div 8)\<rparr>"

lemma chunk_entries_map:
  "chunk_entries authority slot high t =
   map (\<lambda>i. entry_at authority slot (t + 8 * i)) [0..<(if t \<le> high then (high - t) div 8 + 1 else 0)]"
proof (induction "Suc high - t" arbitrary: t rule: less_induct)
  case less
  show ?case
  proof (cases "t \<le> high")
    case False
    then show ?thesis
      by (simp add: chunk_entries.simps [of _ _ _ t])
  next
    case True
    let ?n = "if t + 8 \<le> high then (high - (t + 8)) div 8 + 1 else 0"
    have n: "(high - t) div 8 + 1 = Suc ?n"
      using True by (auto simp: div_if [of "high - t"])
    have "chunk_entries authority slot high t = entry_at authority slot t # chunk_entries authority slot high (t + 8)"
      using True by (simp add: chunk_entries.simps [of _ _ _ t] entry_at_def Let_def)
    also have "chunk_entries authority slot high (t + 8) = map (\<lambda>i. entry_at authority slot (t + 8 + 8 * i)) [0..<?n]"
      using True by (intro less.hyps) simp
    also have "entry_at authority slot t # map (\<lambda>i. entry_at authority slot (t + 8 + 8 * i)) [0..<?n]
        = map (\<lambda>i. entry_at authority slot (t + 8 * i)) [0..<Suc ?n]"
      unfolding upt_conv_Cons [OF zero_less_Suc] map_Suc_upt [symmetric] list.map map_map comp_def by (simp add: algebra_simps)
    finally show ?thesis
      unfolding n [symmetric] using True by simp
  qed
qed

text \<open>The MDUs of a range split it into consecutive intervals.\<close>

lemma mdu_intervals:
  assumes "64 * k \<le> b" "a div 64 \<le> k"
  shows "concat (map (\<lambda>u. [max (u * 64) a..<Suc (min (u * 64 + 63) b)]) [a div 64..<Suc k]) = [a..<min (k * 64 + 64) (Suc b)]"
proof -
  have suc: "Suc (min (u * 64 + 63) b) = min (u * 64 + 64) (Suc b)" for u
    by simp
  have "concat (map (\<lambda>u. [max (u * 64) a..<min (u * 64 + 64) (Suc b)]) [a div 64..<Suc k]) = [a..<min (k * 64 + 64) (Suc b)]"
    using assms(2,1)
  proof (induction rule: dec_induct)
    case base
    have "max (a div 64 * 64) a = a"
      by simp
    then show ?case
      by (simp only: upt_rec [of "a div 64"] upt_rec [of "Suc (a div 64)"]) simp
  next
    case (step k)
    let ?e = "min (Suc k * 64 + 64) (Suc b)"
    have "a < k * 64 + 64"
      using step(1) dividend_less_div_times [of 64 a] mult_le_mono1 [of "a div 64" k 64] by linarith
    moreover have "k * 64 + 64 \<le> ?e" "min (k * 64 + 64) (Suc b) = k * 64 + 64"
      using step.prems by simp_all
    ultimately have "[a..<k * 64 + 64] @ [k * 64 + 64..<?e] = [a..<?e]" "max (Suc k * 64) a = k * 64 + 64"
      using upt_add_eq_append [of a "k * 64 + 64" "?e - (k * 64 + 64)"] by simp_all
    moreover have "concat (map (\<lambda>u. [max (u * 64) a..<min (u * 64 + 64) (Suc b)]) [a div 64..<Suc k]) = [a..<k * 64 + 64]"
      using step.IH step.prems by simp
    moreover have "[a div 64..<Suc (Suc k)] = [a div 64..<Suc k] @ [Suc k]"
      using step(1) by (intro upt_Suc_append) simp
    ultimately show ?case
      by (simp only: map_append concat_append list.map concat.simps append_Nil2)
  qed
  then show ?thesis
    unfolding suc .
qed

lemma concat_map_filter:
  "concat (map g (List.map_filter f xs)) = concat (map (\<lambda>x. case f x of None \<Rightarrow> [] | Some y \<Rightarrow> g y) xs)"
  by (induction xs) (auto simp: List.map_filter_def split: option.split)

lemma mdu_chunk_blobs:
  assumes "slot < 8"
  shows "(case mdu_chunk authority sid ctx a b slot u of None \<Rightarrow> [] | Some c \<Rightarrow> map en_t (ck_entries c))
    = blobs_of (max (u * 64) a) (min (u * 64 + 63) b) slot"
proof -
  define low where "low = max (u * 64) a"
  define high where "high = min (u * 64 + 63) b"
  define t where "t = low + (slot + 8 - low mod 8) mod 8"
  have bounds: "(if u * 64 > a then u * 64 else a) = low" "(if u * 64 + 63 < b then u * 64 + 63 else b) = high"
    by (auto simp: low_def high_def)
  have "map en_t (chunk_entries authority slot high t) = blobs_of low high slot"
    unfolding t_def by (rule chunk_entries_blobs [OF next_congruent [OF assms]])
  moreover have "chunk_entries authority slot high t = []" if "t > high"
    using that by (simp add: chunk_entries.simps)
  ultimately show ?thesis
    unfolding mdu_chunk_def bounds Let_def t_def [symmetric] low_def [symmetric] high_def [symmetric]
    by (cases "t > high") simp_all
qed

lemma slot_chunks_blobs:
  assumes "slot < 8" "a \<le> b"
  shows "map en_t (concat (map ck_entries (slot_chunks authority sid ctx a b slot))) = blobs_of a b slot"
proof -
  have "map en_t (concat (map ck_entries (slot_chunks authority sid ctx a b slot)))
      = concat (map (\<lambda>c. map en_t (ck_entries c)) (slot_chunks authority sid ctx a b slot))"
    by (simp add: map_concat comp_def)
  also have "\<dots> = concat (map (\<lambda>u. blobs_of (max (u * 64) a) (min (u * 64 + 63) b) slot) [a div 64..<Suc (b div 64)])"
    unfolding slot_chunks_def concat_map_filter mdu_chunk_blobs [OF assms(1)] ..
  also have "\<dots> = filter (\<lambda>t. t mod 8 = slot)
      (concat (map (\<lambda>u. [max (u * 64) a..<Suc (min (u * 64 + 63) b)]) [a div 64..<Suc (b div 64)]))"
    unfolding blobs_of_def filter_concat map_map comp_def ..
  also have "\<dots> = blobs_of a b slot"
  proof -
    have "Suc b \<le> b div 64 * 64 + 64" "64 * (b div 64) \<le> b" "a div 64 \<le> b div 64"
      using assms(2) by (simp_all add: div_le_mono)
    then show ?thesis
      unfolding blobs_of_def using mdu_intervals [of "b div 64" b a] by (simp add: min_absorb2)
  qed
  finally show ?thesis .
qed

lemma mset_classes: "mset (concat (map (\<lambda>s. filter (\<lambda>t. f t = s) xs) [0..<n])) = mset (filter (\<lambda>t. f t < n) xs)"
proof (induction n)
  case (Suc n)
  have "mset (filter (\<lambda>t. f t < Suc n) xs) = mset (filter (\<lambda>t. f t < n) xs) + mset (filter (\<lambda>t. f t = n) xs)"
    by (induction xs) auto
  then show ?case
    using Suc by (simp del: mset_filter)
qed simp

text \<open>A chunk as the verifier of retrieved data accepts it: its entries are consecutive leaves of one slot of one MDU.\<close>

definition chunk_ok :: "frozen_generation_v3 \<Rightarrow> chunk_authority \<Rightarrow> bool" where
  "chunk_ok authority c \<longleftrightarrow>
     ck_authority c = authority \<and> ck_slot c < 8 \<and> 1 \<le> length (ck_entries c) \<and> length (ck_entries c) \<le> 8
     \<and> ck_startBlobIndex c + length (ck_entries c) \<le> (ck_slot c + 1) * 8
     \<and> (\<forall>i < length (ck_entries c). let e = ck_entries c ! i in
          en_t e mod 8 = ck_slot c \<and> en_mduIndex e = ck_mduIndex c \<and> en_mduIndex e = g3_metadataMdus authority + en_t e div 64
          \<and> en_leafIndex e = ck_startBlobIndex c + i \<and> en_leafIndex e = en_t e mod 8 * 8 + en_t e mod 64 div 8
          \<and> en_integrityPosition e = en_t e div 64 * 96 + en_leafIndex e)"

lemma slot_coordinates:
  assumes "slot < (8 :: nat)" "k < 8"
  shows "(64 * u + (8 * k + slot)) div 64 = u" "(64 * u + (8 * k + slot)) mod 64 div 8 = k" "(64 * u + (8 * k + slot)) mod 8 = slot"
proof -
  have x: "8 * k + slot < 64"
    using assms by simp
  then show "(64 * u + (8 * k + slot)) div 64 = u"
    by simp
  have "(64 * u + (8 * k + slot)) mod 64 = 8 * k + slot"
    using x by simp
  then show "(64 * u + (8 * k + slot)) mod 64 div 8 = k"
    using assms(1) by simp
  have "64 * u + (8 * k + slot) = slot + 8 * (8 * u + k)"
    by simp
  then show "(64 * u + (8 * k + slot)) mod 8 = slot"
    using assms(1) by (simp only: mod_mult_self2) simp
qed

lemma mdu_chunk_form:
  assumes "slot < 8" "mdu_chunk authority sid ctx a b slot u = Some c"
  obtains r n where "0 < n" "r + n \<le> 8" "ck_authority c = authority" "ck_slot c = slot"
    "ck_mduIndex c = g3_metadataMdus authority + u" "ck_startBlobIndex c = slot * 8 + r"
    "ck_entries c = map (\<lambda>i. entry_at authority slot (64 * u + (8 * (r + i) + slot))) [0..<n]"
proof -
  define low where "low = (if u * 64 > a then u * 64 else a)"
  define high where "high = (if u * 64 + 63 < b then u * 64 + 63 else b)"
  define t where "t = low + (slot + 8 - low mod 8) mod 8"
  define n where "n = (high - t) div 8 + 1"
  have le: "t \<le> high" and c: "ck_authority c = authority" "ck_slot c = slot" "ck_mduIndex c = g3_metadataMdus authority + u"
        "ck_startBlobIndex c = en_leafIndex (hd (ck_entries c))" "ck_entries c = chunk_entries authority slot high t"
    using assms(2) unfolding mdu_chunk_def low_def [symmetric] high_def [symmetric] Let_def t_def [symmetric]
    by (auto split: if_splits)
  have t: "t mod 8 = slot" "low \<le> t"
    unfolding t_def by (rule next_congruent [OF assms(1)])+
  have lu: "u * 64 \<le> low" "high \<le> u * 64 + 63"
    by (auto simp: low_def high_def)
  obtain q where q: "t = 8 * q + slot"
    using t(1) by_eights [of t] by metis
  have qu: "8 * u \<le> q" "q < 8 * u + 8"
    using lu t(2) le assms(1) unfolding q by linarith+
  define r where "r = q - 8 * u"
  have r: "q = 8 * u + r" "r < 8"
    using qu by (simp_all add: r_def)
  obtain m where m: "r + m = 8"
    using r(2) less_imp_add_positive by metis
  have "m * 8 + t = u * 64 + 64 + slot"
    using m unfolding q r(1) by simp
  then have "high - t < m * 8"
    using lu(2) le by simp
  then have rn: "r + n \<le> 8"
    using less_mult_imp_div_less [of "high - t" m 8] m unfolding n_def by simp
  have form: "t + 8 * i = 64 * u + (8 * (r + i) + slot)" for i
    unfolding q r(1) by simp
  have n: "0 < n"
    by (simp add: n_def)
  have entries: "ck_entries c = map (\<lambda>i. entry_at authority slot (64 * u + (8 * (r + i) + slot))) [0..<n]"
    using le unfolding c(5) chunk_entries_map n_def [symmetric] form by simp
  then have "hd (ck_entries c) = entry_at authority slot (64 * u + (8 * r + slot))"
    using n by (simp add: hd_map)
  then have "ck_startBlobIndex c = slot * 8 + r"
    using slot_coordinates(2) [OF assms(1) r(2)] by (simp only: c(4) entry_at_def chunk_entry.simps)
  then show ?thesis
    using that [OF n rn c(1-3) _ entries] by simp
qed

lemma mdu_chunk_ok:
  assumes "slot < 8" "mdu_chunk authority sid ctx a b slot u = Some c"
  shows "chunk_ok authority c"
proof -
  obtain r n where c: "0 < n" "r + n \<le> 8" "ck_authority c = authority" "ck_slot c = slot"
    "ck_mduIndex c = g3_metadataMdus authority + u" "ck_startBlobIndex c = slot * 8 + r"
    "ck_entries c = map (\<lambda>i. entry_at authority slot (64 * u + (8 * (r + i) + slot))) [0..<n]"
    by (rule mdu_chunk_form [OF assms])
  have len: "length (ck_entries c) = n"
    by (simp add: c(7))
  have "let e = ck_entries c ! i in
          en_t e mod 8 = ck_slot c \<and> en_mduIndex e = ck_mduIndex c \<and> en_mduIndex e = g3_metadataMdus authority + en_t e div 64
          \<and> en_leafIndex e = ck_startBlobIndex c + i \<and> en_leafIndex e = en_t e mod 8 * 8 + en_t e mod 64 div 8
          \<and> en_integrityPosition e = en_t e div 64 * 96 + en_leafIndex e" if "i < n" for i
  proof -
    have "r + i < 8"
      using that c(2) by simp
    from slot_coordinates [OF assms(1) this] show ?thesis
      using that by (simp only: c(4-7) nth_map length_upt nth_upt diff_zero add_0 Let_def entry_at_def chunk_entry.simps) simp
  qed
  then show ?thesis
    unfolding chunk_ok_def len using c assms(1) by simp
qed

lemma filter_num: "k < n \<Longrightarrow> filter (\<lambda>i. num i = num k) [0..<n] = [k]"
proof (induction n)
  case (Suc n)
  have "filter (\<lambda>i. num i = num n) [0..<n] = []"
    by (auto simp: num_def filter_empty_conv)
  then show ?case
    using Suc by (cases "k = n") (auto simp: num_def)
qed simp

lemma planV3Chunks_slots:
  assumes "planV3Chunks authority sid ctx a b onlySlot = Inr chunks"
  obtains slots where "chunks = concat (map (slot_chunks authority sid ctx a b) slots)" "\<forall>s \<in> set slots. s < 8"
    "slots = (case onlySlot of None \<Rightarrow> [0..<8] | Some n \<Rightarrow> [nat (js_floor n)])"
proof -
  let ?bad = "case onlySlot of None \<Rightarrow> False | Some n \<Rightarrow> \<not> isSafeInteger n \<or> js_less n 0 \<or> js_floor n > 7"
  let ?slots = "filter (\<lambda>slot. case onlySlot of None \<Rightarrow> True | Some n \<Rightarrow> num slot = n) [0..<8]"
  have run: "\<not> ?bad" "chunks = concat (map (slot_chunks authority sid ctx a b) ?slots)"
    using assms unfolding planV3Chunks_def by (cases ?bad; simp del: upt_Suc upt_rec_numeral)+
  have "?slots = (case onlySlot of None \<Rightarrow> [0..<8] | Some n \<Rightarrow> [nat (js_floor n)])"
  proof (cases onlySlot)
    case (Some n)
    then obtain q where q: "n = Fin q" "integral q" "0 \<le> q" "\<lfloor>q\<rfloor> \<le> 7"
      using run(1) by (cases n) auto
    then have n: "n = num (nat \<lfloor>q\<rfloor>)" "nat \<lfloor>q\<rfloor> < 8"
      by (auto simp: integral_def num_def)
    show ?thesis
      unfolding Some option.case using filter_num [OF n(2)] unfolding n(1) [symmetric] by (simp only: q(1) js_floor.simps)
  qed simp
  moreover have "\<forall>s \<in> set ?slots. s < 8"
    by (simp only: set_filter set_upt) auto
  ultimately show ?thesis
    using that [of ?slots] run(2) by blast
qed

text \<open>
  C17: The chunks of a session are the blobs of its range. Planning fails only on an invalid
  slot. The planned entries are, slot by slot and in increasing order, the blobs of the range
  that the slot holds, so without a slot every blob of the range occurs once. Each chunk has
  one to eight entries, consecutive leaves of its slot in one MDU, with the coordinates that
  the verifier of retrieved data recomputes.
\<close>

theorem v3_chunks_exact:
  assumes "planV3Chunks authority sessionId contextHash first last_blob onlySlot = Inr chunks" and "first \<le> last_blob"
  shows "map en_t (concat (map ck_entries chunks))
      = concat (map (blobs_of first last_blob) (case onlySlot of None \<Rightarrow> [0..<8] | Some n \<Rightarrow> [nat (js_floor n)]))
    \<and> (onlySlot = None \<longrightarrow> mset (map en_t (concat (map ck_entries chunks))) = mset [first..<Suc last_blob])
    \<and> (\<forall>c \<in> set chunks. chunk_ok authority c)"
proof -
  obtain slots where slots: "chunks = concat (map (slot_chunks authority sessionId contextHash first last_blob) slots)"
      "\<forall>s \<in> set slots. s < 8" "slots = (case onlySlot of None \<Rightarrow> [0..<8] | Some n \<Rightarrow> [nat (js_floor n)])"
    by (rule planV3Chunks_slots [OF assms(1)])
  have "map en_t (concat (map ck_entries chunks)) = concat (map (blobs_of first last_blob) slots)"
    using slots(2) unfolding slots(1) by (induction slots) (auto simp: slot_chunks_blobs [OF _ assms(2)])
  moreover have "mset (concat (map (blobs_of first last_blob) [0..<8])) = mset [first..<Suc last_blob]"
    unfolding blobs_of_def using mset_classes [of "\<lambda>t. t mod 8" "[first..<Suc last_blob]" 8] by simp
  moreover have "chunk_ok authority c" if "c \<in> set chunks" for c
    using that slots(2) mdu_chunk_ok unfolding slots(1) by (fastforce simp: slot_chunks_def List.map_filter_def)
  ultimately show ?thesis
    unfolding slots(3) by (cases onlySlot) simp_all
qed

definition sample_generation_v3 :: frozen_generation_v3 where
  "sample_generation_v3 =
     \<lparr>g3_chainId = ascii ''c'', g3_height = 5, g3_dealId = 7, g3_generation = 1, g3_owner = sample_account, g3_dealEnd = 90,
      g3_polyfsRoot = [], g3_integrityRoot = [], g3_setupDigest = [], g3_retrievalPolicyMode = 5, g3_integrityLeafCount = 192,
      g3_metadataMdus = 2, g3_userMdus = 2, g3_totalMdus = 4, g3_witnessMdus = 1, g3_providers = replicate 12 sample_account\<rparr>"

theorem v3_chunks_exact_witness:
  "\<exists>chunks. planV3Chunks sample_generation_v3 [] [] 62 67 (Some (num 6)) = Inr chunks
     \<and> map en_t (concat (map ck_entries chunks)) = [62] \<and> (\<forall>c \<in> set chunks. chunk_ok sample_generation_v3 c)"
proof -
  obtain chunks where run: "planV3Chunks sample_generation_v3 [] [] 62 67 (Some (num 6)) = Inr chunks"
    by (simp add: planV3Chunks_def num_def MAX_SAFE_INTEGER_def)
  show ?thesis
    using run v3_chunks_exact [OF run] by (auto simp: blobs_of_def num_def upt_rec)
qed


section \<open>Obligations\<close>

lemma slot_first_least:
  assumes "slot < 8"
  shows "slot_first rg slot mod 8 = slot" "rg_first rg \<le> slot_first rg slot"
    "rg_first rg \<le> x \<Longrightarrow> x mod 8 = slot \<Longrightarrow> slot_first rg slot \<le> x"
proof -
  show "slot_first rg slot mod 8 = slot" "rg_first rg \<le> slot_first rg slot"
    using next_congruent(1,2) [OF assms, of "rg_first rg"] assms by (auto simp: slot_first_def)
  show "slot_first rg slot \<le> x" if "rg_first rg \<le> x" "x mod 8 = slot"
    using that next_congruent(3) [OF assms that] mod_less_eq_dividend [of x 8] by (auto simp: slot_first_def)
qed

lemma length_blobs_of:
  assumes "slot < 8"
  shows "length (blobs_of (rg_first rg) (rg_last rg) slot)
    = (if slot_first rg slot \<le> rg_last rg then (rg_last rg - slot_first rg slot) div 8 + 1 else 0)"
proof -
  have "length (map en_t (chunk_entries sample_generation_v3 slot (rg_last rg) (slot_first rg slot)))
      = length (blobs_of (rg_first rg) (rg_last rg) slot)"
    using chunk_entries_blobs [OF slot_first_least [OF assms]] by metis
  then show ?thesis
    by (simp add: chunk_entries_map)
qed

lemma slot_obligation_blobs:
  assumes "slot < 8"
  shows "slot_obligation rg providers slot =
    (let n = length (blobs_of (rg_first rg) (rg_last rg) slot)
     in if n = 0 then None
        else Some \<lparr>ob_slot = slot, ob_assigned = providers ! slot, ob_payee = providers ! slot, ob_blobCount = n,
                   ob_sampleCount = 0, ob_lockedFee = 0\<rparr>)"
  unfolding slot_obligation_def length_blobs_of [OF assms] by (simp add: Let_def)

lemma map_filter_obligations:
  assumes "\<forall>slot \<in> set slots. slot < 8"
  shows "map (\<lambda>x. (ob_slot x, ob_assigned x, ob_payee x, ob_blobCount x)) (List.map_filter (slot_obligation rg providers) slots)
      = map (\<lambda>s. (s, providers ! s, providers ! s, length (blobs_of (rg_first rg) (rg_last rg) s)))
          (filter (\<lambda>s. blobs_of (rg_first rg) (rg_last rg) s \<noteq> []) slots)"
    and "sum_list (map ob_blobCount (List.map_filter (slot_obligation rg providers) slots))
      = length (concat (map (blobs_of (rg_first rg) (rg_last rg)) slots))"
  using assms by (induction slots) (auto simp: map_filter_simps slot_obligation_blobs Let_def)

lemma decodeRangeV3_Inr:
  "decodeRangeV3 b = Inr rg \<Longrightarrow> rg_first rg \<le> rg_last rg \<and> rg_population rg = Suc (rg_last rg) - rg_first rg"
  by (auto simp: decodeRangeV3_def Let_def split: if_splits)

lemma expectedObligations_blobs:
  assumes "decodeRangeV3 b = Inr rg" "expectedObligationsV3 rg providers = Inr obs"
  shows "map (\<lambda>x. (ob_slot x, ob_assigned x, ob_payee x, ob_blobCount x)) obs
      = map (\<lambda>s. (s, providers ! s, providers ! s, length (blobs_of (rg_first rg) (rg_last rg) s)))
          (filter (\<lambda>s. blobs_of (rg_first rg) (rg_last rg) s \<noteq> []) [0..<8])"
    and "sum_list (map ob_blobCount obs) = rg_population rg"
proof -
  have obs: "obs = List.map_filter (slot_obligation rg providers) [0..<8]"
    using assms(2) by (simp add: expectedObligationsV3_def split: if_splits del: upt_rec_numeral)
  show "map (\<lambda>x. (ob_slot x, ob_assigned x, ob_payee x, ob_blobCount x)) obs
      = map (\<lambda>s. (s, providers ! s, providers ! s, length (blobs_of (rg_first rg) (rg_last rg) s)))
          (filter (\<lambda>s. blobs_of (rg_first rg) (rg_last rg) s \<noteq> []) [0..<8])"
    unfolding obs by (rule map_filter_obligations(1)) simp
  have "mset (concat (map (blobs_of (rg_first rg) (rg_last rg)) [0..<8])) = mset [rg_first rg..<Suc (rg_last rg)]"
    unfolding blobs_of_def using mset_classes [of "\<lambda>t. t mod 8" "[rg_first rg..<Suc (rg_last rg)]" 8] by simp
  then show "sum_list (map ob_blobCount obs) = rg_population rg"
    using map_filter_obligations(2) [of "[0..<8]" rg providers] decodeRangeV3_Inr [OF assms(1)] mset_eq_length unfolding obs by fastforce
qed

text \<open>
  The obligations of a range partition its blobs. For a decoded range and at least eight
  providers there is one obligation for each systematic slot that holds a blob of the range,
  in slot order, assigned to the slot's provider and counting exactly the blobs that the slot
  holds, which are those its chunks fetch; together they count the whole population.
\<close>

theorem v3_obligations_partition:
  assumes "decodeRangeV3 b = Inr rg" and "8 \<le> length providers"
  shows "\<exists>obs. expectedObligationsV3 rg providers = Inr obs
    \<and> map (\<lambda>x. (ob_slot x, ob_assigned x, ob_payee x, ob_blobCount x)) obs
        = map (\<lambda>s. (s, providers ! s, providers ! s, length (blobs_of (rg_first rg) (rg_last rg) s)))
            (filter (\<lambda>s. blobs_of (rg_first rg) (rg_last rg) s \<noteq> []) [0..<8])
    \<and> sum_list (map ob_blobCount obs) = rg_population rg
    \<and> (\<forall>s < 8. \<exists>chunks. planV3Chunks authority sessionId contextHash (rg_first rg) (rg_last rg) (Some (num s)) = Inr chunks
         \<and> length (concat (map ck_entries chunks)) = length (blobs_of (rg_first rg) (rg_last rg) s))"
proof -
  have le: "rg_first rg \<le> rg_last rg"
    using decodeRangeV3_Inr [OF assms(1)] by simp
  obtain obs where obs: "expectedObligationsV3 rg providers = Inr obs"
    using assms(2) by (simp add: expectedObligationsV3_def del: upt_rec_numeral)
  have "\<exists>chunks. planV3Chunks authority sessionId contextHash (rg_first rg) (rg_last rg) (Some (num s)) = Inr chunks
      \<and> length (concat (map ck_entries chunks)) = length (blobs_of (rg_first rg) (rg_last rg) s)" if "s < 8" for s
  proof -
    have "planV3Chunks authority sessionId contextHash (rg_first rg) (rg_last rg) (Some (num s))
        = Inr (concat (map (slot_chunks authority sessionId contextHash (rg_first rg) (rg_last rg)) [s]))"
      using that filter_num [OF that] unfolding planV3Chunks_def option.case by (simp del: upt_rec_numeral)
    moreover have "length (concat (map ck_entries (slot_chunks authority sessionId contextHash (rg_first rg) (rg_last rg) s)))
        = length (blobs_of (rg_first rg) (rg_last rg) s)"
      using slot_chunks_blobs [OF that le] by (metis length_map)
    ultimately show ?thesis
      by auto
  qed
  then show ?thesis
    using obs expectedObligations_blobs [OF assms(1) obs] by blast
qed

lemma sample_range: "decodeRangeV3 (be_bytes 8 6 @ be_bytes 8 15 @ be_bytes 8 10) = Inr \<lparr>rg_first = 6, rg_last = 15, rg_population = 10\<rparr>"
  by (simp add: decodeRangeV3_def subarray_def be_val_be_bytes)

theorem v3_obligations_partition_witness:
  "\<exists>obs. expectedObligationsV3 \<lparr>rg_first = 6, rg_last = 15, rg_population = 10\<rparr> (replicate 12 sample_account) = Inr obs
     \<and> sum_list (map ob_blobCount obs) = 10"
  using v3_obligations_partition [OF sample_range, of "replicate 12 sample_account" sample_generation_v3 "[]" "[]"]
  by (auto simp del: upt_rec_numeral)


section \<open>The generation is the active deal\<close>

lemma admitted_mismatch_False:
  assumes "admitted_mismatch lib g chainId height dealId deal generation polyfsRoot setupDigest totalMdus witnessMdus
    metadataMdus userMdus integrityLeafCount = Inr False"
  shows "generation = pg_generation deal" "polyfsRoot = pg_root deal" "setupDigest = RETRIEVAL_V3_SETUP"
    "totalMdus = metadataMdus + userMdus" "metadataMdus = witnessMdus + 1" "0 < userMdus" "totalMdus \<le> MAX_MDUS"
    "integrityLeafCount = userMdus * 96" "length (array_of (g ''providers'')) = 12"
  using assms unfolding admitted_mismatch_def any_holds_False by (auto simp: array_of_def split: option.splits json.splits)

lemma deal_assignments:
  assumes "\<not> deal_mismatch deal providers metadataMdus userMdus" "length providers = 12" "length (pg_assignments deal) = 12"
  shows "pg_assignments deal = map (\<lambda>p. \<lparr>as_provider = p, as_active = True\<rparr>) providers"
proof (rule nth_equalityI)
  fix i
  assume i: "i < length (pg_assignments deal)"
  then have "(pg_assignments deal ! i, i) \<in> set (zip (pg_assignments deal) [0..<length (pg_assignments deal)])"
    by (auto simp: in_set_zip)
  then have "as_active (pg_assignments deal ! i)" "providers ! i = as_provider (pg_assignments deal ! i)"
    using assms i unfolding deal_mismatch_def list_ex_iff by fastforce+
  then show "pg_assignments deal ! i = map (\<lambda>p. \<lparr>as_provider = p, as_active = True\<rparr>) providers ! i"
    using i assms by simp
qed (use assms in simp)

lemma if_None_eq_Some: "(if c then Inr None else r) = Inr (Some x) \<longleftrightarrow> \<not> c \<and> r = Inr (Some x)"
  by simp

lemma parseGeneration_Inr:
  assumes "parseGeneration lib payload chainId height dealId dealPayload = Inr (Some g)"
  obtains deal resp where "parsePinnedGeneration lib dealPayload chainId height dealId = Inr deal"
    "admitted_mismatch lib resp chainId height dealId deal (g3_generation g) (g3_polyfsRoot g) (g3_setupDigest g) (g3_totalMdus g)
       (g3_witnessMdus g) (g3_metadataMdus g) (g3_userMdus g) (g3_integrityLeafCount g) = Inr False"
    "smap (\<lambda>p. account lib (Some p)) (array_of (resp ''providers'')) = Inr (g3_providers g)"
    "\<not> deal_mismatch deal (g3_providers g) (g3_metadataMdus g) (g3_userMdus g)"
    "1 \<le> g3_retrievalPolicyMode g" "g3_retrievalPolicyMode g \<le> 5"
    "g3_chainId g = chainId" "g3_height g = height" "g3_dealId g = dealId" "g3_owner g = pg_owner deal" "g3_dealEnd g = pg_endHeight deal"
    "\<exists>r. length r = 32 \<and> g3_integrityRoot g = hex r" "\<exists>r. length r = 32 \<and> g3_polyfsRoot g = hex r"
proof -
  from assms obtain resp deal generation polyfsRoot integrityRoot setupDigest totalMdus witnessMdus metadataMdus userMdus
      integrityLeafCount providers mode mismatch where
    "parsePinnedGeneration lib dealPayload chainId height dealId = Inr deal"
    and "base64 (resp ''polyfs_root'') 32 = Inr polyfsRoot" "base64 (resp ''integrity_root'') 32 = Inr integrityRoot"
    and "admitted_mismatch lib resp chainId height dealId deal generation (hex polyfsRoot) (hex setupDigest)
          totalMdus witnessMdus metadataMdus userMdus integrityLeafCount = Inr mismatch" "\<not> mismatch"
    and "smap (\<lambda>p. account lib (Some p)) (array_of (resp ''providers'')) = Inr providers"
    and "\<not> deal_mismatch deal providers metadataMdus userMdus" "\<not> (mode < 1 \<or> mode > 5)"
    and "\<lparr>g3_chainId = chainId, g3_height = height, g3_dealId = dealId, g3_generation = generation,
        g3_owner = pg_owner deal, g3_dealEnd = pg_endHeight deal, g3_polyfsRoot = hex polyfsRoot,
        g3_integrityRoot = hex integrityRoot, g3_setupDigest = hex setupDigest, g3_retrievalPolicyMode = mode,
        g3_integrityLeafCount = integrityLeafCount, g3_metadataMdus = metadataMdus, g3_userMdus = userMdus,
        g3_totalMdus = totalMdus, g3_witnessMdus = witnessMdus, g3_providers = providers\<rparr> = g"
    unfolding parseGeneration_def sbind_eq_Inr if_None_eq_Some if_Inl_eq_Inr sum.inject option.inject by blast
  then show ?thesis
    by (intro that [of deal resp]) (auto simp: base64_Inr not_less)
qed

text \<open>
  C19: An admitted generation is the active deal. If a generation is accepted, its shape as a
  pinned generation is exactly what parsing the deal at the same height gives, so planning
  and recovery written for pinned generations apply to it: eight data slots and four parity
  slots with twelve distinct, active providers, at least one user MDU, at most 65537 MDUs in
  all, and 96 integrity leaves for each user MDU.
\<close>

theorem v3_generation_is_deal:
  assumes "parseGeneration lib payload chainId height dealId dealPayload = Inr (Some g)"
  shows "parsePinnedGeneration lib dealPayload chainId height dealId = Inr (generationAsPinnedV2Shape g)
    \<and> wf_pin (generationAsPinnedV2Shape g) \<and> (\<forall>slot < 8. available (generationAsPinnedV2Shape g) False slot)
    \<and> length (g3_providers g) = 12 \<and> distinct (g3_providers g)
    \<and> 0 < g3_userMdus g \<and> g3_metadataMdus g = g3_witnessMdus g + 1
    \<and> g3_totalMdus g = g3_metadataMdus g + g3_userMdus g \<and> g3_totalMdus g \<le> MAX_MDUS
    \<and> g3_integrityLeafCount g = 96 * g3_userMdus g \<and> g3_setupDigest g = RETRIEVAL_V3_SETUP
    \<and> 1 \<le> g3_retrievalPolicyMode g \<and> g3_retrievalPolicyMode g \<le> 5"
  using assms
proof (rule parseGeneration_Inr)
  fix deal resp
  assume deal: "parsePinnedGeneration lib dealPayload chainId height dealId = Inr deal"
    and mis: "admitted_mismatch lib resp chainId height dealId deal (g3_generation g) (g3_polyfsRoot g) (g3_setupDigest g) (g3_totalMdus g)
       (g3_witnessMdus g) (g3_metadataMdus g) (g3_userMdus g) (g3_integrityLeafCount g) = Inr False"
    and prov: "smap (\<lambda>p. account lib (Some p)) (array_of (resp ''providers'')) = Inr (g3_providers g)"
    and nm: "\<not> deal_mismatch deal (g3_providers g) (g3_metadataMdus g) (g3_userMdus g)"
    and mode: "1 \<le> g3_retrievalPolicyMode g" "g3_retrievalPolicyMode g \<le> 5"
    and eqs: "g3_chainId g = chainId" "g3_height g = height" "g3_dealId g = dealId" "g3_owner g = pg_owner deal" "g3_dealEnd g = pg_endHeight deal"
  note a = admitted_mismatch_False [OF mis] and d = parsePinnedGeneration_Inr [OF deal]
  have len: "length (g3_providers g) = 12"
    using smap_length [OF prov] a(9) by simp
  have geo: "pg_layout deal = 2" "pg_k deal = 8" "pg_m deal = 4" "pg_metadataMdus deal = g3_metadataMdus g"
      "pg_userMdus deal = g3_userMdus g" "card (set (g3_providers g)) = 12"
    using nm by (auto simp: deal_mismatch_def)
  have "length (pg_assignments deal) = 12"
    using d geo parse_assignments_shape by fastforce
  from deal_assignments [OF nm len this] have as: "pg_assignments deal = map (\<lambda>p. \<lparr>as_provider = p, as_active = True\<rparr>) (g3_providers g)" .
  have shape: "generationAsPinnedV2Shape g = deal"
    unfolding generationAsPinnedV2Shape_def using d geo as eqs a(1,2,4) by (intro pinned_generation.equality) auto
  have "wf_pin deal"
    using d geo by (simp add: wf_pin_def)
  moreover have "available deal False slot" if "slot < 8" for slot
    using that len by (simp add: available_def as)
  ultimately show ?thesis
    using deal len geo a mode card_distinct [of "g3_providers g"] unfolding shape by (simp add: mult.commute)
qed

definition v3_account :: "nat \<Rightarrow> js_string" where
  "v3_account n = ascii ''nil1'' @ replicate 20 (97 + n)"

definition v3_deal_payload :: "json option" where
  "v3_deal_payload = Some (JObj [(''deal'', JObj
     [(''id'', JStr (dec_text 7)), (''redundancy_mode'', JNum (num 2)),
      (''mode2_profile'', JObj [(''k'', JNum (num 8)), (''m'', JNum (num 4))]),
      (''total_mdus'', JStr (dec_text 4)), (''witness_mdus'', JStr (dec_text 1)), (''end_block'', JStr (dec_text 90)),
      (''mode2_slots'', JArr (map (\<lambda>i. JObj [(''slot'', JNum (num i)), (''status'', JNum (num 1)),
         (''provider'', JStr (v3_account i))]) [0..<12])),
      (''current_gen'', JStr (dec_text 3)), (''manifest_root'', JStr (btoa (replicate 32 0))), (''owner'', JStr (v3_account 0)),
      (''retrieval_policy'', JObj [(''mode'', JNum (num 5))])])])"

definition v3_generation_payload :: "json option" where
  "v3_generation_payload = Some (JObj [(''admitted'', JObj
     [(''deal_id'', JStr (dec_text 7)), (''owner'', JStr (v3_account 0)), (''chain_id'', JStr (ascii ''c'')),
      (''generation'', JStr (dec_text 3)), (''polyfs_root'', JStr (btoa (replicate 32 0))),
      (''integrity_root'', JStr (btoa (replicate 32 1))), (''setup_digest'', JStr (btoa setup_bytes)),
      (''total_mdus'', JStr (dec_text 4)), (''witness_mdus'', JStr (dec_text 1)), (''metadata_mdus'', JStr (dec_text 2)),
      (''user_mdus'', JStr (dec_text 2)), (''integrity_leaf_count'', JStr (dec_text 192)), (''size'', JStr (dec_text 100)),
      (''accepted_slots_mask'', JNum (num 4095)), (''proposed_height'', JStr (dec_text 2)),
      (''providers'', JArr (map (\<lambda>i. JStr (v3_account i)) [0..<12]))])])"

lemma account_v3 [simp]: "account sample_bech32 (Some (JStr (v3_account n))) = Inr (v3_account n)"
  by (simp add: account_def sample_bech32_def v3_account_def ascii_def)

lemma v3_account_inject [simp]: "v3_account a = v3_account b \<longleftrightarrow> a = b"
  by (simp add: v3_account_def)

lemma v3_deal_slots:
  "smap (slot_assignment sample_bech32) (zip (map (\<lambda>i. JObj [(''slot'', JNum (num i)), (''status'', JNum (num 1)),
     (''provider'', JStr (v3_account i))]) [0..<12]) [0..<12]) = Inr (map (\<lambda>i. \<lparr>as_provider = v3_account i, as_active = True\<rparr>) [0..<12])"
  by (simp add: smap_Inr_iff list_all2_conv_all_nth slot_assignment_def record_of_def protoUint_def enumeration_def)

lemma v3_setup: "hex setup_bytes = RETRIEVAL_V3_SETUP"
  by (simp add: hex_setup RETRIEVAL_V3_SETUP_def RETRIEVAL_SETUP_def ascii_def)

lemma v3_providers_run:
  "smap (\<lambda>p. account sample_bech32 (Some p)) (map (\<lambda>i. JStr (v3_account i)) [0..<12]) = Inr (map v3_account [0..<12])"
  by (simp add: smap_Inr_iff list_all2_conv_all_nth)

definition v3_deal :: pinned_generation where
  "v3_deal = \<lparr>pg_chainId = ascii ''c'', pg_height = 5, pg_dealId = 7, pg_generation = 3, pg_root = hex (replicate 32 0),
     pg_owner = v3_account 0, pg_endHeight = 90, pg_layout = 2, pg_k = 8, pg_m = 4, pg_rows = 8, pg_leafCount = 96,
     pg_metadataMdus = 2, pg_userMdus = 2, pg_totalMdus = 4,
     pg_assignments = map (\<lambda>i. \<lparr>as_provider = v3_account i, as_active = True\<rparr>) [0..<12]\<rparr>"

lemma v3_deal_run: "parsePinnedGeneration sample_bech32 v3_deal_payload (ascii ''c'') 5 7 = Inr v3_deal"
  by (simp add: parsePinnedGeneration_def v3_deal_payload_def record_of_def protoU64_def protoUint_def u64_dec_text
      parse_assignments_def v3_deal_slots [simplified] v3_deal_def ascii_def utf8_encode_def utf8_nats_def utf8_char_def
      surrogate_def)

lemma v3_deal_matches: "\<not> deal_mismatch v3_deal (map v3_account [0..<12]) 2 2"
proof -
  have "card (v3_account ` {0..<12}) = 12"
    by (subst card_image) (auto simp: inj_on_def)
  then show ?thesis
    by (auto simp: deal_mismatch_def v3_deal_def list_ex_iff in_set_zip)
qed

lemma v3_generation_run:
  "\<exists>g. parseGeneration sample_bech32 v3_generation_payload (ascii ''c'') 5 7 v3_deal_payload = Inr (Some g)"
proof -
  have policy: "\<exists>p d. record_of v3_deal_payload = Inr p \<and> record_of (p ''deal'') = Inr d
      \<and> record_of (d ''retrieval_policy'') = Inr [''mode'' \<mapsto> JNum (num 5)]"
    by (simp add: v3_deal_payload_def record_of_def)
  then obtain p d where pd: "record_of v3_deal_payload = Inr p" "record_of (p ''deal'') = Inr d"
      "record_of (d ''retrieval_policy'') = Inr [''mode'' \<mapsto> JNum (num 5)]"
    by blast
  have size: "(100 :: nat) \<le> 2 * RAW_MDU_CAPACITY_BYTES"
    by simp
  show ?thesis
    unfolding parseGeneration_def v3_deal_run pd sbind_simps
    by (simp add: v3_generation_payload_def record_of_def protoU64_def protoUint_def u64_dec_text pd
      hex_setup(2) v3_setup array_of_def admitted_mismatch_def differs_def v3_providers_run v3_deal_matches enumeration_def policy_names_def
      MAX_MDUS_def size v3_deal_def [THEN arg_cong [where f = pg_owner]] v3_deal_def [THEN arg_cong [where f = pg_generation]]
      v3_deal_def [THEN arg_cong [where f = pg_root]])
qed

theorem v3_generation_is_deal_witness:
  "\<exists>g. parseGeneration sample_bech32 v3_generation_payload (ascii ''c'') 5 7 v3_deal_payload = Inr (Some g)
     \<and> parsePinnedGeneration sample_bech32 v3_deal_payload (ascii ''c'') 5 7 = Inr (generationAsPinnedV2Shape g)"
proof -
  obtain g where run: "parseGeneration sample_bech32 v3_generation_payload (ascii ''c'') 5 7 v3_deal_payload = Inr (Some g)"
    using v3_generation_run by blast
  show ?thesis
    using run v3_generation_is_deal [OF run] by blast
qed

end
