(* ===== verification/RetrievalV3Session.thy ===== *)
theory RetrievalV3Session
  imports RetrievalV3
begin

unbundle bit_operations_syntax

text \<open>
  The frozen session of version 3 (\<open>parseFrozenSessionV3\<close> in \<open>lib/retrievalV3.ts\<close>): its fields,
  its accounting and its challenge context, and the binding that a request prepares. The
  operations of the WebAssembly core are parameters that may fail.
\<close>


section \<open>Values\<close>

definition amount :: "json option \<Rightarrow> nat result" where
  "amount value =
     (case value of
        Some (JStr s) \<Rightarrow>
          if \<not> (is_ascii s \<and> canonical_decimal (chars s) \<and> length s \<le> 78) then Inl ''invalid v3 amount''
          else let n = dec_val (chars s) in if n \<ge> 2 ^ 256 then Inl ''v3 amount overflow'' else Inr n
      | _ \<Rightarrow> Inl ''invalid v3 amount'')"

definition be :: "nat \<Rightarrow> nat \<Rightarrow> bytes" where
  "be value n = be_bytes n value"

definition be64 :: "int \<Rightarrow> bytes" where
  "be64 value = be_bytes 8 (nat (value mod 2 ^ 64))"

text \<open>The operands of the bit operations of the language are taken to 32 bits.\<close>

definition int32 :: "nat \<Rightarrow> 32 word" where
  "int32 n = word_of_nat n"

definition slot_bit :: "nat \<Rightarrow> 32 word" where
  "slot_bit slot = push_bit slot 1"


section \<open>The session\<close>

record frozen_session_v3 =
  f3_authority :: frozen_generation_v3
  f3_height :: nat
  f3_sessionId :: js_string
  f3_contextHash :: bytes
  f3_planHash :: bytes
  f3_owner :: js_string
  f3_payer :: js_string
  f3_fileRecordIndex :: nat
  f3_file :: retrieval_file
  f3_rangeStart :: nat
  f3_rangeLength :: nat
  f3_first :: nat
  f3_last :: nat
  f3_population :: nat
  f3_sampleCount :: nat
  f3_nonce :: nat
  f3_priceDenom :: js_string
  f3_pricePerBlob :: nat
  f3_baseFee :: nat
  f3_completionBurnBps :: nat
  f3_funding :: nat
  f3_snapshot :: nat
  f3_anchor :: nat
  f3_firstResponse :: nat
  f3_deadline :: nat
  f3_dealEnd :: nat
  f3_obligations :: "obligation_v3 list"
  f3_acceptedBitmap :: bytes
  f3_ackedMask :: nat
  f3_settledMask :: nat
  f3_refundedMask :: nat
  f3_lockedFee :: nat
  f3_expired :: bool
  f3_context :: bytes
  f3_anchorSeed :: "bytes option"
  f3_browserTransactionKey :: "js_string option"

definition preserveV3BrowserTransactionKey :: "frozen_session_v3 \<Rightarrow> frozen_session_v3 \<Rightarrow> frozen_session_v3" where
  "preserveV3BrowserTransactionKey previous current =
     (case f3_browserTransactionKey previous of
        Some key \<Rightarrow> if key = [] then current else current\<lparr>f3_browserTransactionKey := Some key\<rparr>
      | None \<Rightarrow> current)"

record expected_v3 =
  e3_sessionId :: js_string
  e3_owner :: js_string
  e3_recordIndex :: nat
  e3_file :: retrieval_file
  e3_rangeStart :: nat
  e3_rangeLength :: nat
  e3_nonce :: nat
  e3_planHash :: bytes
  e3_frozenContextHash :: "bytes option"
  e3_deadline :: "nat option"
  e3_funding :: "nat option"
  e3_range :: "int \<Rightarrow> int \<Rightarrow> nat \<Rightarrow> nat \<Rightarrow> nat \<Rightarrow> bytes result"
  e3_contextHash :: "bytes \<Rightarrow> bytes result"
  e3_seed :: "bytes \<Rightarrow> bytes \<Rightarrow> bytes result"
  e3_challenges :: "bytes \<Rightarrow> bytes \<Rightarrow> bytes result"

definition hex_bytes :: "js_string \<Rightarrow> nat \<Rightarrow> bytes result" where
  "hex_bytes s n = unhex (Some (JStr s)) n"

definition encodeContextV3 :: "bech32_lib \<Rightarrow> frozen_session_v3 \<Rightarrow> bytes result" where
  "encodeContextV3 lib s =
     (let g = f3_authority s in
      sbind (hex_bytes (g3_setupDigest g) 32) (\<lambda>setup.
      sbind (hex_bytes (f3_sessionId s) 32) (\<lambda>sid.
      sbind (accountBytes lib (f3_owner s)) (\<lambda>owner.
      sbind (hex_bytes (g3_polyfsRoot g) 32) (\<lambda>polyfsRoot.
      sbind (hex_bytes (g3_integrityRoot g) 32) (\<lambda>integrityRoot.
      sbind (accountBytes lib (f3_payer s)) (\<lambda>payer.
      Inr (lp (ascii ''polystore/challenge-context/v3'') @ be 3 4 @ lp (g3_chainId g) @ setup @ sid
        @ owner @ be (g3_dealId g) 8 @ be (g3_generation g) 8 @ polyfsRoot @ integrityRoot
        @ be (f3_fileRecordIndex s) 4 @ be64 (rf_start_offset (f3_file s)) @ be64 (rf_size_bytes (f3_file s))
        @ be (f3_rangeStart s) 8 @ be (f3_rangeLength s) 8
        @ [2] @ be 8 4 @ be 4 4 @ be (g3_metadataMdus g) 8 @ be (g3_userMdus g) 8 @ f3_planHash s
        @ be (f3_population s) 8 @ be (f3_sampleCount s) 8 @ be (f3_nonce s) 8
        @ lp (f3_priceDenom s) @ lp (dec_text (f3_pricePerBlob s)) @ lp (dec_text (f3_baseFee s))
        @ be (f3_completionBurnBps s) 4 @ be (f3_funding s) 1 @ payer @ be (f3_snapshot s) 8 @ be (f3_anchor s) 8
        @ be (f3_firstResponse s) 8 @ be (f3_deadline s) 8 @ be (f3_dealEnd s) 8))))))))"

definition funding_v3_names :: "string list" where
  "funding_v3_names = [''RETRIEVAL_SESSION_FUNDING_UNSPECIFIED'', ''RETRIEVAL_SESSION_FUNDING_DEAL_ESCROW'',
     ''RETRIEVAL_SESSION_FUNDING_REQUESTER'']"

definition parse_obligation :: "bech32_lib \<Rightarrow> json \<Rightarrow> obligation_v3 result" where
  "parse_obligation lib value =
     sbind (record_of (Some value)) (\<lambda>x.
     sbind (protoUint (x ''slot'') 7) (\<lambda>slot.
     sbind (account lib (x ''assigned_provider'')) (\<lambda>assigned.
     sbind (account lib (x ''payee'')) (\<lambda>payee.
     sbind (protoU64 (x ''blob_count'')) (\<lambda>blobCount.
     sbind (protoU64 (x ''sample_count'')) (\<lambda>sampleCount.
     sbind (amount (x ''locked_fee'')) (\<lambda>lockedFee.
     Inr \<lparr>ob_slot = slot, ob_assigned = assigned, ob_payee = payee, ob_blobCount = blobCount,
          ob_sampleCount = sampleCount, ob_lockedFee = lockedFee\<rparr>)))))))"

definition parse_session_fields ::
  "bech32_lib \<Rightarrow> (string \<rightharpoonup> json) \<Rightarrow> nat \<Rightarrow> frozen_generation_v3 \<Rightarrow> retrieval_file \<Rightarrow> frozen_session_v3 result" where
  "parse_session_fields lib raw height authority rfile =
     sbind (base64 (raw ''session_id'') 32) (\<lambda>sid.
     sbind (base64 (raw ''context_hash'') 32) (\<lambda>contextHash.
     sbind (base64 (raw ''plan_hash'') 32) (\<lambda>planHash.
     sbind (account lib (raw ''owner'')) (\<lambda>owner.
     sbind (account lib (raw ''payer'')) (\<lambda>payer.
     sbind (enumeration (raw ''funding'') funding_v3_names) (\<lambda>funding.
     if array_of (raw ''obligations'') = [] \<or> length (array_of (raw ''obligations'')) > 8 then Inl ''invalid v3 obligations''
     else
     sbind (smap (parse_obligation lib) (array_of (raw ''obligations''))) (\<lambda>obligations.
     sbind (protoUint (raw ''file_record_index'') 0xffffffff) (\<lambda>fileRecordIndex.
     sbind (protoU64 (raw ''range_start'')) (\<lambda>rangeStart.
     sbind (protoU64 (raw ''range_length'')) (\<lambda>rangeLength.
     sbind (protoU64 (raw ''first_blob'')) (\<lambda>first.
     sbind (protoU64 (raw ''last_blob'')) (\<lambda>last_blob.
     sbind (protoU64 (raw ''population'')) (\<lambda>population.
     sbind (protoU64 (raw ''sample_count'')) (\<lambda>sampleCount.
     sbind (protoU64 (raw ''nonce'')) (\<lambda>nonce.
     sbind (amount (raw ''price_per_blob'')) (\<lambda>pricePerBlob.
     sbind (amount (raw ''base_fee'')) (\<lambda>baseFee.
     sbind (protoUint (raw ''completion_burn_bps'') 10000) (\<lambda>burn.
     sbind (protoU64 (raw ''snapshot_height'')) (\<lambda>snapshot.
     sbind (protoU64 (raw ''anchor_height'')) (\<lambda>anchor.
     sbind (protoU64 (raw ''first_response_height'')) (\<lambda>firstResponse.
     sbind (protoU64 (raw ''deadline_height'')) (\<lambda>deadline.
     sbind (protoU64 (raw ''deal_end_height'')) (\<lambda>dealEnd.
     sbind (base64 (raw ''accepted_sample_bitmap'') 17) (\<lambda>bitmap.
     sbind (protoUint (raw ''acked_slots_mask'') 0xff) (\<lambda>acked.
     sbind (protoUint (raw ''settled_slots_mask'') 0xff) (\<lambda>settled.
     sbind (protoUint (raw ''refunded_slots_mask'') 0xff) (\<lambda>refunded.
     sbind (amount (raw ''locked_fee'')) (\<lambda>lockedFee.
     Inr \<lparr>f3_authority = authority, f3_height = height, f3_sessionId = hex sid, f3_contextHash = contextHash,
          f3_planHash = planHash, f3_owner = owner, f3_payer = payer, f3_fileRecordIndex = fileRecordIndex,
          f3_file = rfile, f3_rangeStart = rangeStart, f3_rangeLength = rangeLength, f3_first = first,
          f3_last = last_blob, f3_population = population, f3_sampleCount = sampleCount, f3_nonce = nonce,
          f3_priceDenom = (case raw ''price_denom'' of Some (JStr d) \<Rightarrow> d | _ \<Rightarrow> []),
          f3_pricePerBlob = pricePerBlob, f3_baseFee = baseFee, f3_completionBurnBps = burn, f3_funding = funding,
          f3_snapshot = snapshot, f3_anchor = anchor, f3_firstResponse = firstResponse, f3_deadline = deadline,
          f3_dealEnd = dealEnd, f3_obligations = obligations, f3_acceptedBitmap = bitmap, f3_ackedMask = acked,
          f3_settledMask = settled, f3_refundedMask = refunded, f3_lockedFee = lockedFee,
          f3_expired = (raw ''expired'' = Some (JBool True)), f3_context = [], f3_anchorSeed = None,
          f3_browserTransactionKey = None\<rparr>))))))))))))))))))))))))))))"

definition request_mismatch ::
  "(string \<rightharpoonup> json) \<Rightarrow> nat \<Rightarrow> frozen_generation_v3 \<Rightarrow> expected_v3 \<Rightarrow> frozen_session_v3 \<Rightarrow> nat \<Rightarrow> nat \<Rightarrow> bool result" where
  "request_mismatch raw height authority expected out openedHeight updatedHeight =
     any_holds
       [Inr (f3_sessionId out \<noteq> e3_sessionId expected), Inr (f3_owner out \<noteq> e3_owner expected),
        Inr (f3_payer out \<noteq> f3_owner out), Inr (f3_fileRecordIndex out \<noteq> e3_recordIndex expected),
        differs (protoU64 (raw ''deal_id'')) (g3_dealId authority),
        differs (protoU64 (raw ''generation'')) (g3_generation authority),
        sbind (base64 (raw ''polyfs_root'') 32) (\<lambda>b. Inr (hex b \<noteq> g3_polyfsRoot authority)),
        sbind (base64 (raw ''integrity_root'') 32) (\<lambda>b. Inr (hex b \<noteq> g3_integrityRoot authority)),
        sbind (base64 (raw ''setup_digest'') 32) (\<lambda>b. Inr (hex b \<noteq> g3_setupDigest authority)),
        sbind (protoU64 (raw ''file_start_offset'')) (\<lambda>n. Inr (int n \<noteq> rf_start_offset (e3_file expected))),
        sbind (protoU64 (raw ''file_length'')) (\<lambda>n. Inr (int n \<noteq> rf_size_bytes (e3_file expected))),
        Inr (f3_rangeStart out \<noteq> e3_rangeStart expected), Inr (f3_rangeLength out \<noteq> e3_rangeLength expected),
        differs (protoU64 (raw ''metadata_mdus'')) (g3_metadataMdus authority),
        differs (protoU64 (raw ''user_mdus'')) (g3_userMdus authority),
        Inr (\<not> equal_bytes (f3_planHash out) (e3_planHash expected)), Inr (f3_nonce out \<noteq> e3_nonce expected),
        Inr (raw ''chain_id'' \<noteq> Some (JStr (g3_chainId authority))),
        Inr (f3_funding out \<noteq> 1 \<and> f3_funding out \<noteq> 2),
        Inr (case e3_funding expected of None \<Rightarrow> False | Some n \<Rightarrow> f3_funding out \<noteq> n),
        Inr (case e3_deadline expected of None \<Rightarrow> False | Some n \<Rightarrow> f3_deadline out \<noteq> n),
        Inr (f3_priceDenom out = []), Inr (f3_snapshot out < g3_height authority),
        Inr (f3_anchor out \<noteq> f3_snapshot out + 1), Inr (f3_firstResponse out \<noteq> f3_snapshot out + 2),
        Inr (f3_firstResponse out > f3_deadline out), Inr (f3_deadline out > f3_dealEnd out),
        Inr (f3_dealEnd out \<noteq> g3_dealEnd authority), Inr (height < f3_snapshot out),
        Inr (openedHeight \<noteq> f3_snapshot out), Inr (updatedHeight < openedHeight), Inr (updatedHeight > height),
        Inr ((f3_acceptedBitmap out ! 16) AND 0xf0 \<noteq> 0)]"

text \<open>The loop over the obligations: the fees that remain locked, and the samples.\<close>

fun fee_loop :: "frozen_session_v3 \<Rightarrow> nat \<Rightarrow> nat \<Rightarrow> obligation_v3 list \<Rightarrow> (nat \<times> nat) result" where
  "fee_loop out remaining storedSamples [] = Inr (remaining, storedSamples)"
| "fee_loop out remaining storedSamples (x # xs) =
     (if ob_lockedFee x \<noteq> f3_pricePerBlob out * ob_blobCount x then Inl ''session has noncanonical v3 obligation fee''
      else
        let b = slot_bit (ob_slot x);
            remaining' = (if int32 (f3_settledMask out) AND b = 0 \<and> int32 (f3_refundedMask out) AND b = 0
                          then remaining + ob_lockedFee x else remaining)
        in fee_loop out remaining' (storedSamples + ob_sampleCount x) xs)"

definition represented_slots :: "obligation_v3 list \<Rightarrow> 32 word" where
  "represented_slots obligations = foldl (\<lambda>m x. m OR slot_bit (ob_slot x)) 0 obligations"

definition accepted_past_samples :: "frozen_session_v3 \<Rightarrow> bool" where
  "accepted_past_samples out =
     list_ex (\<lambda>i.
       let b = f3_acceptedBitmap out ! i; first = i * 8 in
       if first \<ge> f3_sampleCount out then b \<noteq> 0
       else
         let remaining = f3_sampleCount out - first
         in remaining < 8 \<and> int32 (unat b) AND NOT (push_bit remaining 1 - 1) \<noteq> 0)
       [0..<length (f3_acceptedBitmap out)]"

definition plan_mismatch :: "frozen_session_v3 \<Rightarrow> obligation_v3 list \<Rightarrow> nat \<Rightarrow> nat \<Rightarrow> bool" where
  "plan_mismatch out expectedObligations remaining storedSamples \<longleftrightarrow>
     (let obligations = f3_obligations out;
          acked = int32 (f3_ackedMask out); settled = int32 (f3_settledMask out); refunded = int32 (f3_refundedMask out);
          stateMaterialized = (list_ex (\<lambda>b. b \<noteq> 0) (f3_acceptedBitmap out) \<or> f3_ackedMask out \<noteq> 0 \<or> f3_settledMask out \<noteq> 0)
      in
      f3_sampleCount out \<noteq> (if f3_population out < 132 then f3_population out else 132)
      \<or> length obligations \<noteq> length expectedObligations
      \<or> list_ex (\<lambda>(x, y). ob_slot x \<noteq> ob_slot y \<or> ob_assigned x \<noteq> ob_assigned y \<or> ob_payee x \<noteq> ob_assigned x
                   \<or> ob_blobCount x \<noteq> ob_blobCount y) (zip obligations expectedObligations)
      \<or> (acked OR settled OR refunded) AND NOT (represented_slots obligations) \<noteq> 0
      \<or> settled AND refunded \<noteq> 0 \<or> settled AND NOT acked \<noteq> 0
      \<or> remaining \<noteq> f3_lockedFee out \<or> accepted_past_samples out
      \<or> (storedSamples \<noteq> 0 \<and> storedSamples \<noteq> f3_sampleCount out)
      \<or> (stateMaterialized \<and> storedSamples = 0))"

definition rawAnchorSeed :: "(string \<rightharpoonup> json) \<Rightarrow> bytes option result" where
  "rawAnchorSeed response =
     (if response ''anchor_seed'' = None \<or> response ''anchor_seed'' = Some JNull \<or> response ''anchor_seed'' = Some (JStr [])
      then Inr None
      else sbind (base64 (response ''anchor_seed'') 32) (\<lambda>b. Inr (Some b)))"

definition slot_samples :: "bytes \<Rightarrow> nat \<Rightarrow> nat \<Rightarrow> nat" where
  "slot_samples challenges n slot =
     length (filter (\<lambda>j. be_val (subarray (j * 72 + 36) (j * 72 + 40) challenges) = slot) [0..<n])"

definition check_samples :: "expected_v3 \<Rightarrow> frozen_session_v3 \<Rightarrow> bytes \<Rightarrow> nat \<Rightarrow> bytes \<Rightarrow> unit result" where
  "check_samples expected out context storedSamples anchor =
     sbind (e3_seed expected context anchor) (\<lambda>seed.
     sbind (e3_challenges expected context seed) (\<lambda>challenges.
     if length challenges \<noteq> f3_sampleCount out * 72 then Inl ''invalid v3 challenge partition''
     else if storedSamples \<noteq> 0
       \<and> list_ex (\<lambda>x. ob_sampleCount x \<noteq> slot_samples challenges (f3_sampleCount out) (ob_slot x)) (f3_obligations out)
     then Inl ''session sample partition does not match anchor''
     else Inr ()))"

definition parseFrozenSessionV3 ::
  "bech32_lib \<Rightarrow> json option \<Rightarrow> nat \<Rightarrow> frozen_generation_v3 \<Rightarrow> expected_v3 \<Rightarrow> frozen_session_v3 result" where
  "parseFrozenSessionV3 lib payload height authority expected =
     sbind (record_of payload) (\<lambda>response.
     sbind (record_of (response ''session'')) (\<lambda>raw.
     sbind (parse_session_fields lib raw height authority (e3_file expected)) (\<lambda>out.
     sbind (protoU64 (raw ''opened_height'')) (\<lambda>openedHeight.
     sbind (protoU64 (raw ''updated_height'')) (\<lambda>updatedHeight.
     sbind (request_mismatch raw height authority expected out openedHeight updatedHeight) (\<lambda>mismatch.
     if mismatch then Inl ''session does not match frozen v3 request''
     else
     sbind (e3_range expected (rf_start_offset (e3_file expected)) (rf_size_bytes (e3_file expected)) (e3_rangeStart expected)
              (e3_rangeLength expected) (g3_userMdus authority)) (\<lambda>rangeBytes.
     sbind (decodeRangeV3 rangeBytes) (\<lambda>checked.
     if f3_first out \<noteq> rg_first checked \<or> f3_last out \<noteq> rg_last checked \<or> f3_population out \<noteq> rg_population checked
     then Inl ''session has noncanonical v3 range''
     else
     sbind (expectedObligationsV3 checked (g3_providers authority)) (\<lambda>expectedObligations.
     sbind (fee_loop out 0 0 (f3_obligations out)) (\<lambda>(remaining, storedSamples).
     if plan_mismatch out expectedObligations remaining storedSamples then Inl ''session has noncanonical v3 plan''
     else
     sbind (encodeContextV3 lib out) (\<lambda>context.
     sbind (e3_contextHash expected context) (\<lambda>computed.
     if \<not> equal_bytes computed (f3_contextHash out)
        \<or> (case e3_frozenContextHash expected of None \<Rightarrow> False | Some h \<Rightarrow> \<not> equal_bytes (f3_contextHash out) h)
     then Inl ''session context does not match frozen v3 authority''
     else
     sbind (rawAnchorSeed response) (\<lambda>anchor.
     sbind (case anchor of None \<Rightarrow> Inr () | Some a \<Rightarrow> check_samples expected out context storedSamples a) (\<lambda>_.
     Inr (out\<lparr>f3_context := context, f3_anchorSeed := anchor\<rparr>)))))))))))))))"


section \<open>The binding of a request\<close>

record v3_binding =
  vb_range :: retrieval_range_v3
  vb_plan :: bytes
  vb_planHash :: bytes
  vb_sessionId :: js_string
  vb_obligations :: "obligation_v3 list"

record v3_crypto =
  vc_range :: "int \<Rightarrow> int \<Rightarrow> nat \<Rightarrow> nat \<Rightarrow> nat \<Rightarrow> bytes result"
  vc_plan :: "nat \<Rightarrow> nat \<Rightarrow> nat \<Rightarrow> bytes \<Rightarrow> bytes result"
  vc_sessionId :: "js_string \<Rightarrow> bytes \<Rightarrow> nat \<Rightarrow> nat \<Rightarrow> nat \<Rightarrow> nat \<Rightarrow> nat \<Rightarrow> bytes \<Rightarrow> nat \<Rightarrow> bytes result"
  vc_sha256 :: "bytes \<Rightarrow> bytes"

definition prepareV3Binding ::
  "bech32_lib \<Rightarrow> v3_crypto \<Rightarrow> frozen_generation_v3 \<Rightarrow> js_string \<Rightarrow> nat \<Rightarrow> retrieval_file \<Rightarrow> nat \<Rightarrow> nat \<Rightarrow> nat \<Rightarrow> v3_binding result" where
  "prepareV3Binding lib crypto authority owner recordIndex rfile rangeStart rangeLength nonce =
     sbind (vc_range crypto (rf_start_offset rfile) (rf_size_bytes rfile) rangeStart rangeLength (g3_userMdus authority)) (\<lambda>b.
     sbind (decodeRangeV3 b) (\<lambda>rg.
     sbind (smap (accountBytes lib) (take 8 (g3_providers authority))) (\<lambda>providers.
     sbind (vc_plan crypto (rg_first rg) (rg_last rg) (rg_population rg) (concat providers)) (\<lambda>plan.
     let planHash = vc_sha256 crypto plan in
     sbind (accountBytes lib owner) (\<lambda>ownerBytes.
     sbind (vc_sessionId crypto (g3_chainId authority) ownerBytes (g3_dealId authority) (g3_generation authority) recordIndex
              rangeStart rangeLength planHash nonce) (\<lambda>sid.
     sbind (expectedObligationsV3 rg (g3_providers authority)) (\<lambda>obligations.
     Inr \<lparr>vb_range = rg, vb_plan = plan, vb_planHash = planHash, vb_sessionId = hex sid, vb_obligations = obligations\<rparr>)))))))"



section \<open>Queries\<close>

text \<open>
  The queries of sessions, over the committed query as a parameter. \<open>encodeURIComponent\<close> keeps
  the unreserved characters and writes the other bytes of the text as escapes.
\<close>

definition unreserved :: "nat \<Rightarrow> bool" where
  "unreserved c \<longleftrightarrow> (48 \<le> c \<and> c < 58) \<or> (65 \<le> c \<and> c < 91) \<or> (97 \<le> c \<and> c < 123) \<or> c \<in> set (ascii ''-_.!~*()'') \<or> c = 39"

definition escape_byte :: "byte \<Rightarrow> js_string" where
  "escape_byte b =
     (let digit = (\<lambda>v. if v < 10 then 48 + v else 65 + (v - 10)); c = unat b
      in if unreserved c then [c] else [37, digit (c div 16), digit (c mod 16)])"

definition encodeURIComponent :: "js_string \<Rightarrow> js_string result" where
  "encodeURIComponent t = (if list_ex surrogate t then Inl ''URI malformed'' else Inr (concat (map escape_byte (utf8_encode t))))"

definition lcdSessionID :: "js_string \<Rightarrow> js_string result" where
  "lcdSessionID sessionId =
     sbind (hex_bytes sessionId 32) (\<lambda>b. Inr (map (\<lambda>c. if c = 43 then 45 else if c = 47 then 95 else c) (btoa b)))"

definition fetchSessionV3 ::
  "bech32_lib \<Rightarrow> committed_query \<Rightarrow> frozen_generation_v3 \<Rightarrow> expected_v3 \<Rightarrow> frozen_session_v3 result" where
  "fetchSessionV3 lib committedQuery authority expected =
     sbind (lcdSessionID (e3_sessionId expected)) (\<lambda>sid.
     sbind (encodeURIComponent sid) (\<lambda>segment.
     sbind (committedQuery (ascii ''/polystorechain/polystorechain/v1/retrieval-sessions-v3/'' @ segment) None) (\<lambda>(payload, height).
     parseFrozenSessionV3 lib payload height authority expected)))"

definition owner_path :: "bech32_lib \<Rightarrow> js_string \<Rightarrow> nat \<Rightarrow> js_string result" where
  "owner_path lib owner dealId =
     sbind (account lib (Some (JStr owner))) (\<lambda>a.
     sbind (encodeURIComponent a) (\<lambda>segment.
     Inr (ascii ''/polystorechain/polystorechain/v1/retrieval-sessions-v3/by-owner/'' @ segment @ ascii ''/deals/'' @ dec_text dealId)))"

definition fetchLatestNonceV3 :: "bech32_lib \<Rightarrow> committed_query \<Rightarrow> js_string \<Rightarrow> nat \<Rightarrow> (bool \<times> nat \<times> nat) result" where
  "fetchLatestNonceV3 lib committedQuery owner dealId =
     sbind (owner_path lib owner dealId) (\<lambda>path.
     sbind (committedQuery (path @ ascii ''/nonce'') None) (\<lambda>(payload, height).
     sbind (record_of payload) (\<lambda>value.
     if value ''found'' \<notin> {None, Some (JBool True), Some (JBool False)} then Inl ''invalid v3 nonce response''
     else
     let found = (value ''found'' = Some (JBool True)) in
     sbind (protoU64 (value ''nonce'')) (\<lambda>nonce.
     if \<not> found \<and> nonce \<noteq> 0 then Inl ''invalid empty v3 nonce response'' else Inr (found, nonce, height)))))"

definition fetchSessionIDByNonceV3 :: "bech32_lib \<Rightarrow> committed_query \<Rightarrow> js_string \<Rightarrow> nat \<Rightarrow> nat \<Rightarrow> js_string option result" where
  "fetchSessionIDByNonceV3 lib committedQuery owner dealId nonce =
     (case sbind (owner_path lib owner dealId) (\<lambda>path.
           sbind (committedQuery (path @ ascii ''/nonces/'' @ dec_text nonce) None) (\<lambda>(payload, height).
           sbind (record_of payload) (\<lambda>value.
           sbind (base64 (value ''session_id'') 32) (\<lambda>b. Inr (hex b))))) of
        Inr sid \<Rightarrow> Inr (Some sid)
      | Inl e \<Rightarrow> if e = ''chain query failed (404)'' then Inr None else Inl e)"


section \<open>Masks\<close>

lemma bit_int32: "bit (int32 m) k \<longleftrightarrow> k < 32 \<and> bit m k"
  by (simp add: int32_def bit_of_nat_iff)

lemma bit_slot_bit: "bit (slot_bit slot) k \<longleftrightarrow> k < 32 \<and> k = slot"
  by (auto simp: slot_bit_def bit_exp_iff)

lemma word32_zero_iff: "x = (0 :: 32 word) \<longleftrightarrow> (\<forall>k < 32. \<not> bit x k)"
proof
  assume "\<forall>k < 32. \<not> bit x k"
  then show "x = 0"
    by (intro bit_word_eqI) simp
qed simp

lemma mask_slot: "slot < 32 \<Longrightarrow> int32 m AND slot_bit slot = 0 \<longleftrightarrow> \<not> bit m slot"
  by (auto simp: word32_zero_iff bit_and_iff bit_int32 bit_slot_bit)

lemma small_mask_bit:
  assumes "m \<le> 255" "bit (m :: nat) k"
  shows "k < 8"
proof -
  have "take_bit 8 m = m"
    using assms(1) by (simp add: take_bit_nat_eq_self_iff)
  then show ?thesis
    using assms(2) by (metis bit_take_bit_iff)
qed

lemma bit_represented: "bit (represented_slots xs) k \<longleftrightarrow> k < 32 \<and> (\<exists>x \<in> set xs. ob_slot x = k)"
proof -
  have "bit (foldl (\<lambda>m x. m OR slot_bit (ob_slot x)) m xs) k \<longleftrightarrow> bit m k \<or> (k < 32 \<and> (\<exists>x \<in> set xs. ob_slot x = k))" for m
    by (induction xs arbitrary: m) (auto simp: bit_or_iff bit_slot_bit)
  then show ?thesis
    by (simp add: represented_slots_def)
qed

lemma and_not_zero: "a AND NOT b = (0 :: 32 word) \<longleftrightarrow> (\<forall>k < 32. bit a k \<longrightarrow> bit b k)"
  by (auto simp: word32_zero_iff bit_and_iff bit_not_iff)

lemma and_zero: "a AND b = (0 :: 32 word) \<longleftrightarrow> (\<forall>k < 32. bit a k \<longrightarrow> \<not> bit b k)"
  by (auto simp: word32_zero_iff bit_and_iff)


section \<open>Accounting\<close>

definition outstanding :: "frozen_session_v3 \<Rightarrow> obligation_v3 \<Rightarrow> bool" where
  "outstanding out x \<longleftrightarrow> \<not> bit (f3_settledMask out) (ob_slot x) \<and> \<not> bit (f3_refundedMask out) (ob_slot x)"

lemma fee_loop_Inr:
  assumes "fee_loop out r n xs = Inr (r', n')" "\<forall>x \<in> set xs. ob_slot x < 32"
  shows "(\<forall>x \<in> set xs. ob_lockedFee x = f3_pricePerBlob out * ob_blobCount x)
    \<and> r' = r + sum_list (map ob_lockedFee (filter (outstanding out) xs)) \<and> n' = n + sum_list (map ob_sampleCount xs)"
  using assms by (induction out r n xs rule: fee_loop.induct) (auto simp: Let_def mask_slot outstanding_def split: if_splits)

lemma accepted_within_samples:
  assumes "\<not> accepted_past_samples out" "i < length (f3_acceptedBitmap out)" "j < 8" "bit (f3_acceptedBitmap out ! i) j"
  shows "8 * i + j < f3_sampleCount out"
proof (rule ccontr)
  assume past: "\<not> 8 * i + j < f3_sampleCount out"
  let ?b = "f3_acceptedBitmap out ! i" and ?r = "f3_sampleCount out - i * 8"
  have i: "if i * 8 \<ge> f3_sampleCount out then ?b = 0 else ?r < 8 \<longrightarrow> int32 (unat ?b) AND NOT (push_bit ?r 1 - 1) = 0"
  proof -
    have "i \<in> set [0..<length (f3_acceptedBitmap out)]"
      using assms(2) by simp
    then have "\<not> (if i * 8 \<ge> f3_sampleCount out then ?b \<noteq> 0
        else ?r < 8 \<and> int32 (unat ?b) AND NOT (push_bit ?r 1 - 1) \<noteq> 0)"
      using assms(1) unfolding accepted_past_samples_def list_ex_iff Let_def by blast
    then show ?thesis
      by (simp split: if_splits)
  qed
  have "?b \<noteq> 0"
    using assms(4) by auto
  then have lt: "i * 8 < f3_sampleCount out" "?r < 8" "int32 (unat ?b) AND NOT (push_bit ?r 1 - 1) = 0"
    using i past assms(3) by (auto split: if_splits)
  have "bit (int32 (unat ?b)) j"
    using assms(3,4) by (simp add: bit_int32 bit_unsigned_iff)
  then have "bit (push_bit ?r 1 - 1 :: 32 word) j"
    using lt(3) assms(3) unfolding and_not_zero by simp
  moreover have "(push_bit ?r 1 - 1 :: 32 word) = mask ?r"
    by (simp add: mask_eq_exp_minus_1)
  ultimately have "j < ?r"
    by (simp add: bit_mask_iff)
  then show False
    using past by simp
qed

lemma protoUint_le: "protoUint v b = Inr n \<Longrightarrow> n \<le> b"
  by (auto simp: protoUint_def dest: uint_of_Inr split: option.splits)

lemma amount_less: "amount v = Inr n \<Longrightarrow> n < 2 ^ 256"
  by (auto simp: amount_def Let_def split: option.splits json.splits if_splits)

lemma parse_obligation_slot: "parse_obligation lib v = Inr x \<Longrightarrow> ob_slot x \<le> 7"
  by (auto simp: parse_obligation_def sbind_eq_Inr dest: protoUint_le)

text \<open>The ranges that the parsers of the fields guarantee.\<close>

definition session_ranges :: "bech32_lib \<Rightarrow> frozen_session_v3 \<Rightarrow> bool" where
  "session_ranges lib s \<longleftrightarrow>
     (\<forall>x \<in> set (f3_obligations s). ob_slot x \<le> 7) \<and> length (f3_acceptedBitmap s) = 17
     \<and> f3_ackedMask s \<le> 255 \<and> f3_settledMask s \<le> 255 \<and> f3_refundedMask s \<le> 255
     \<and> length (f3_planHash s) = 32 \<and> (\<exists>sid. length sid = 32 \<and> f3_sessionId s = hex sid)
     \<and> account lib (Some (JStr (f3_owner s))) = Inr (f3_owner s) \<and> account lib (Some (JStr (f3_payer s))) = Inr (f3_payer s)
     \<and> f3_fileRecordIndex s < 2 ^ 32 \<and> f3_rangeStart s < 2 ^ 64 \<and> f3_rangeLength s < 2 ^ 64
     \<and> f3_population s < 2 ^ 64 \<and> f3_sampleCount s < 2 ^ 64 \<and> f3_nonce s < 2 ^ 64
     \<and> f3_pricePerBlob s < 2 ^ 256 \<and> f3_baseFee s < 2 ^ 256 \<and> f3_completionBurnBps s \<le> 10000
     \<and> f3_snapshot s < 2 ^ 64 \<and> f3_anchor s < 2 ^ 64 \<and> f3_firstResponse s < 2 ^ 64 \<and> f3_deadline s < 2 ^ 64
     \<and> f3_dealEnd s < 2 ^ 64"

lemma account_self: "account lib v = Inr a \<Longrightarrow> account lib (Some (JStr a)) = Inr a"
  using account_Inr by fastforce

lemma base64_length: "base64 v n = Inr b \<Longrightarrow> length b = n"
  by (simp add: base64_Inr)

lemma base64_hex: "base64 v n = Inr b \<Longrightarrow> \<exists>b'. length b' = n \<and> hex b = hex b'"
  using base64_length by blast

lemma obligation_slots: "smap (parse_obligation lib) vs = Inr xs \<Longrightarrow> \<forall>x \<in> set xs. ob_slot x \<le> 7"
  by (auto simp: smap_Inr_iff list_all2_conv_all_nth in_set_conv_nth dest!: parse_obligation_slot)

lemma parse_session_fields_Inr:
  assumes "parse_session_fields lib raw height authority rfile = Inr out"
  shows "session_ranges lib out \<and> f3_authority out = authority \<and> f3_height out = height \<and> f3_file out = rfile"
  using assms unfolding parse_session_fields_def sbind_eq_Inr if_Inl_eq_Inr sum.inject
  apply (elim exE conjE)
  apply hypsubst
  apply (simp only: session_ranges_def frozen_session_v3.simps)
  apply (intro conjI; (rule refl | erule obligation_slots | erule base64_length | erule base64_hex | erule account_self
    | erule protoUint_less | erule protoUint_le | erule protoU64_less | erule amount_less))
  done


section \<open>An accepted session\<close>

lemma request_mismatch_False:
  assumes "request_mismatch raw height authority expected out openedHeight updatedHeight = Inr False"
  shows "f3_sessionId out = e3_sessionId expected \<and> f3_owner out = e3_owner expected \<and> f3_payer out = f3_owner out
    \<and> f3_fileRecordIndex out = e3_recordIndex expected \<and> f3_rangeStart out = e3_rangeStart expected
    \<and> f3_rangeLength out = e3_rangeLength expected \<and> f3_planHash out = e3_planHash expected \<and> f3_nonce out = e3_nonce expected
    \<and> f3_funding out \<in> {1, 2} \<and> f3_priceDenom out \<noteq> []
    \<and> g3_height authority \<le> f3_snapshot out \<and> f3_snapshot out \<le> height \<and> f3_anchor out = f3_snapshot out + 1
    \<and> f3_firstResponse out = f3_snapshot out + 2 \<and> f3_firstResponse out \<le> f3_deadline out
    \<and> f3_deadline out \<le> f3_dealEnd out \<and> f3_dealEnd out = g3_dealEnd authority
    \<and> 0 \<le> rf_start_offset (e3_file expected) \<and> rf_start_offset (e3_file expected) < 2 ^ 64
    \<and> 0 \<le> rf_size_bytes (e3_file expected) \<and> rf_size_bytes (e3_file expected) < 2 ^ 64
    \<and> g3_dealId authority < 2 ^ 64 \<and> g3_generation authority < 2 ^ 64 \<and> g3_metadataMdus authority < 2 ^ 64
    \<and> g3_userMdus authority < 2 ^ 64"
proof -
  note m = assms [unfolded request_mismatch_def any_holds_False]
  have u: "protoU64 v = Inr n \<Longrightarrow> n < 18446744073709551616" for v n
    using protoU64_less [of v n] by simp
  have r: "sbind (protoU64 v) (\<lambda>n. Inr (int n \<noteq> k)) = Inr False \<Longrightarrow> 0 \<le> k \<and> k < 18446744073709551616" for v k
    using u [of v "nat k"] by (auto simp: sbind_eq_Inr)
  have start: "0 \<le> rf_start_offset (e3_file expected) \<and> rf_start_offset (e3_file expected) < 18446744073709551616"
    by (rule r [of "raw ''file_start_offset''"]) (use m in simp)
  have sz: "0 \<le> rf_size_bytes (e3_file expected) \<and> rf_size_bytes (e3_file expected) < 18446744073709551616"
    by (rule r [of "raw ''file_length''"]) (use m in simp)
  have ids: "g3_dealId authority < 18446744073709551616" "g3_generation authority < 18446744073709551616"
      "g3_metadataMdus authority < 18446744073709551616" "g3_userMdus authority < 18446744073709551616"
    using m u [of "raw ''deal_id''"] u [of "raw ''generation''"] u [of "raw ''metadata_mdus''"] u [of "raw ''user_mdus''"]
    by auto
  show ?thesis
    using m start sz ids by (simp add: not_less) 
qed

lemma parseFrozenSessionV3_Inr:
  assumes "parseFrozenSessionV3 lib payload height authority expected = Inr s"
  obtains raw out openedHeight updatedHeight rangeBytes checked expectedObligations remaining storedSamples ctx where
    "session_ranges lib out" "f3_authority out = authority" "f3_height out = height" "f3_file out = e3_file expected"
    "request_mismatch raw height authority expected out openedHeight updatedHeight = Inr False"
    "e3_range expected (rf_start_offset (e3_file expected)) (rf_size_bytes (e3_file expected)) (e3_rangeStart expected)
       (e3_rangeLength expected) (g3_userMdus authority) = Inr rangeBytes"
    "decodeRangeV3 rangeBytes = Inr checked"
    "f3_first out = rg_first checked" "f3_last out = rg_last checked" "f3_population out = rg_population checked"
    "expectedObligationsV3 checked (g3_providers authority) = Inr expectedObligations"
    "fee_loop out 0 0 (f3_obligations out) = Inr (remaining, storedSamples)"
    "\<not> plan_mismatch out expectedObligations remaining storedSamples"
    "encodeContextV3 lib out = Inr ctx" "e3_contextHash expected ctx = Inr (f3_contextHash out)"
    "\<exists>anchor. s = out\<lparr>f3_context := ctx, f3_anchorSeed := anchor\<rparr>"
proof -
  from assms obtain raw out openedHeight updatedHeight mismatch rangeBytes checked expectedObligations acc ctx computed anchor where
    "parse_session_fields lib raw height authority (e3_file expected) = Inr out"
    and "request_mismatch raw height authority expected out openedHeight updatedHeight = Inr mismatch" "\<not> mismatch"
    and "e3_range expected (rf_start_offset (e3_file expected)) (rf_size_bytes (e3_file expected)) (e3_rangeStart expected)
       (e3_rangeLength expected) (g3_userMdus authority) = Inr rangeBytes"
    and "decodeRangeV3 rangeBytes = Inr checked"
    and "\<not> (f3_first out \<noteq> rg_first checked \<or> f3_last out \<noteq> rg_last checked \<or> f3_population out \<noteq> rg_population checked)"
    and "expectedObligationsV3 checked (g3_providers authority) = Inr expectedObligations"
    and "fee_loop out 0 0 (f3_obligations out) = Inr acc"
    and "\<not> plan_mismatch out expectedObligations (fst acc) (snd acc)"
    and "encodeContextV3 lib out = Inr ctx" "e3_contextHash expected ctx = Inr computed"
    and "\<not> (\<not> equal_bytes computed (f3_contextHash out)
        \<or> (case e3_frozenContextHash expected of None \<Rightarrow> False | Some h \<Rightarrow> \<not> equal_bytes (f3_contextHash out) h))"
    and "out\<lparr>f3_context := ctx, f3_anchorSeed := anchor\<rparr> = s"
    unfolding parseFrozenSessionV3_def sbind_eq_Inr case_prod_beta if_Inl_eq_Inr sum.inject by blast
  then show ?thesis
    using parse_session_fields_Inr [of lib raw height authority "e3_file expected" out]
    by (intro that [of out raw openedHeight updatedHeight rangeBytes checked expectedObligations "fst acc" "snd acc" ctx]) auto
qed

lemma plan_mismatch_False:
  assumes ok: "\<not> plan_mismatch out obs remaining storedSamples" and small: "\<forall>x \<in> set (f3_obligations out). ob_slot x \<le> 7"
    "f3_ackedMask out \<le> 255" "f3_settledMask out \<le> 255" "f3_refundedMask out \<le> 255"
  shows "f3_sampleCount out = min (f3_population out) 132"
    "map (\<lambda>x. (ob_slot x, ob_assigned x, ob_blobCount x)) (f3_obligations out) = map (\<lambda>x. (ob_slot x, ob_assigned x, ob_blobCount x)) obs"
    "\<forall>x \<in> set (f3_obligations out). ob_payee x = ob_assigned x"
    "bit (f3_ackedMask out) k \<or> bit (f3_settledMask out) k \<or> bit (f3_refundedMask out) k \<Longrightarrow> k \<in> ob_slot ` set (f3_obligations out)"
    "bit (f3_settledMask out) k \<Longrightarrow> bit (f3_ackedMask out) k \<and> \<not> bit (f3_refundedMask out) k"
    "remaining = f3_lockedFee out" "\<not> accepted_past_samples out"
proof -
  note m = ok [unfolded plan_mismatch_def Let_def de_Morgan_disj not_not]
  show "f3_sampleCount out = min (f3_population out) 132" "remaining = f3_lockedFee out" "\<not> accepted_past_samples out"
    using m by (auto simp: min_def)
  have len: "length (f3_obligations out) = length obs"
    using m by blast
  have eq: "ob_slot x = ob_slot y \<and> ob_assigned x = ob_assigned y \<and> ob_payee x = ob_assigned x \<and> ob_blobCount x = ob_blobCount y"
    if "(x, y) \<in> set (zip (f3_obligations out) obs)" for x y
    using m that by (auto simp: list_ex_iff)
  have nth: "ob_slot (f3_obligations out ! i) = ob_slot (obs ! i) \<and> ob_assigned (f3_obligations out ! i) = ob_assigned (obs ! i)
      \<and> ob_payee (f3_obligations out ! i) = ob_assigned (f3_obligations out ! i)
      \<and> ob_blobCount (f3_obligations out ! i) = ob_blobCount (obs ! i)" if "i < length obs" for i
    using that len eq [of "f3_obligations out ! i" "obs ! i"] by (auto simp: set_zip)
  show "map (\<lambda>x. (ob_slot x, ob_assigned x, ob_blobCount x)) (f3_obligations out) = map (\<lambda>x. (ob_slot x, ob_assigned x, ob_blobCount x)) obs"
    using len nth by (intro nth_equalityI) auto
  show "\<forall>x \<in> set (f3_obligations out). ob_payee x = ob_assigned x"
    using len nth by (auto simp: in_set_conv_nth)
  have masks: "(int32 (f3_ackedMask out) OR int32 (f3_settledMask out) OR int32 (f3_refundedMask out))
        AND NOT (represented_slots (f3_obligations out)) = 0"
      "int32 (f3_settledMask out) AND int32 (f3_refundedMask out) = 0" "int32 (f3_settledMask out) AND NOT (int32 (f3_ackedMask out)) = 0"
    using m by blast+
  have w: "bit (int32 n) k \<longleftrightarrow> bit n k" if "n \<le> 255" for n
    using that small_mask_bit [OF that, of k] by (auto simp: bit_int32)
  show "k \<in> ob_slot ` set (f3_obligations out)"
    if "bit (f3_ackedMask out) k \<or> bit (f3_settledMask out) k \<or> bit (f3_refundedMask out) k"
  proof -
    have "k < 8"
      using that small small_mask_bit by blast
    then have "k < 32"
      by simp
    moreover have "bit (int32 (f3_ackedMask out) OR int32 (f3_settledMask out) OR int32 (f3_refundedMask out)) k"
      using that w small by (auto simp: bit_or_iff)
    ultimately have "bit (represented_slots (f3_obligations out)) k"
      using masks(1) [unfolded and_not_zero] by simp
    then show ?thesis
      by (auto simp: bit_represented)
  qed
  show "bit (f3_ackedMask out) k \<and> \<not> bit (f3_refundedMask out) k" if "bit (f3_settledMask out) k"
  proof -
    have "k < 32" "bit (int32 (f3_settledMask out)) k"
      using small_mask_bit [OF small(3) that] w [OF small(3)] that by simp_all
    then have "bit (int32 (f3_ackedMask out)) k" "\<not> bit (int32 (f3_refundedMask out)) k"
      using masks(2) [unfolded and_zero] masks(3) [unfolded and_not_zero] by simp_all
    then show ?thesis
      using w [OF small(2)] w [OF small(4)] by simp
  qed
qed

lemma encode_context_update: "encodeContextV3 lib (out\<lparr>f3_context := c, f3_anchorSeed := a\<rparr>) = encodeContextV3 lib out"
  by (simp add: encodeContextV3_def)

lemma outstanding_update: "outstanding (out\<lparr>f3_context := c, f3_anchorSeed := a\<rparr>) = outstanding out"
  by (rule ext) (simp add: outstanding_def)

lemma sum_list_fees:
  "\<forall>x \<in> set xs. ob_lockedFee x = price * ob_blobCount x \<Longrightarrow> sum_list (map ob_lockedFee xs) = price * sum_list (map ob_blobCount xs)"
  by (induction xs) (auto simp: algebra_simps)

lemma triples_payee:
  assumes "map (\<lambda>x. (ob_slot x, ob_assigned x, ob_blobCount x)) xs = map (\<lambda>x. (ob_slot x, ob_assigned x, ob_blobCount x)) ys"
    and "\<forall>x \<in> set xs. ob_payee x = ob_assigned x"
    and "map (\<lambda>x. (ob_slot x, ob_assigned x, ob_payee x, ob_blobCount x)) ys = map (\<lambda>s. (s, p s, p s, n s)) slots"
  shows "map (\<lambda>x. (ob_slot x, ob_assigned x, ob_payee x, ob_blobCount x)) xs = map (\<lambda>s. (s, p s, p s, n s)) slots"
proof -
  have "map (\<lambda>x. (ob_slot x, ob_assigned x, ob_payee x, ob_blobCount x)) xs
      = map (\<lambda>(a, b, c). (a, b, b, c)) (map (\<lambda>x. (ob_slot x, ob_assigned x, ob_blobCount x)) xs)"
    using assms(2) by simp
  also have "\<dots> = map (\<lambda>(a, b, b', c). (a, b, b, c)) (map (\<lambda>x. (ob_slot x, ob_assigned x, ob_payee x, ob_blobCount x)) ys)"
    unfolding assms(1) by simp
  also have "\<dots> = map (\<lambda>s. (s, p s, p s, n s)) slots"
    unfolding assms(3) by simp
  finally show ?thesis .
qed

text \<open>
  C18: An accepted session carries out the frozen request and keeps its accounts. Its
  identifier, owner, payer, range, plan and nonce are the expected ones, its heights are
  ordered within the deal, and its obligations are those of its range: one for each slot that
  holds blobs, to the slot's provider, at the price of each blob, so that all fees together
  are the price of the population. What remains locked is exactly the fee of the obligations
  that are neither settled nor refunded; a settled slot is acknowledged and not refunded, only
  slots with blobs are marked, no sample is accepted past the sample count, and the context
  hash is that of the canonical context.
\<close>

theorem v3_session_sound:
  assumes "parseFrozenSessionV3 lib payload height authority expected = Inr s"
  shows "f3_sessionId s = e3_sessionId expected \<and> f3_owner s = e3_owner expected \<and> f3_payer s = f3_owner s
    \<and> f3_rangeStart s = e3_rangeStart expected \<and> f3_rangeLength s = e3_rangeLength expected
    \<and> f3_planHash s = e3_planHash expected \<and> f3_nonce s = e3_nonce expected
    \<and> g3_height authority \<le> f3_snapshot s \<and> f3_snapshot s \<le> height \<and> f3_anchor s = f3_snapshot s + 1
    \<and> f3_firstResponse s = f3_snapshot s + 2 \<and> f3_firstResponse s \<le> f3_deadline s \<and> f3_deadline s \<le> g3_dealEnd authority
    \<and> f3_first s \<le> f3_last s \<and> f3_population s = Suc (f3_last s) - f3_first s \<and> f3_sampleCount s = min (f3_population s) 132
    \<and> map (\<lambda>x. (ob_slot x, ob_assigned x, ob_payee x, ob_blobCount x)) (f3_obligations s)
        = map (\<lambda>k. (k, g3_providers authority ! k, g3_providers authority ! k, length (blobs_of (f3_first s) (f3_last s) k)))
            (filter (\<lambda>k. blobs_of (f3_first s) (f3_last s) k \<noteq> []) [0..<8])
    \<and> sum_list (map ob_lockedFee (f3_obligations s)) = f3_pricePerBlob s * f3_population s
    \<and> f3_lockedFee s = sum_list (map ob_lockedFee (filter (outstanding s) (f3_obligations s)))
    \<and> (\<forall>k. bit (f3_settledMask s) k \<longrightarrow> bit (f3_ackedMask s) k \<and> \<not> bit (f3_refundedMask s) k)
    \<and> (\<forall>k. bit (f3_ackedMask s) k \<or> bit (f3_refundedMask s) k \<longrightarrow> k < 8 \<and> blobs_of (f3_first s) (f3_last s) k \<noteq> [])
    \<and> (\<forall>i < 17. \<forall>j < 8. bit (f3_acceptedBitmap s ! i) j \<longrightarrow> 8 * i + j < f3_sampleCount s)
    \<and> encodeContextV3 lib s = Inr (f3_context s) \<and> e3_contextHash expected (f3_context s) = Inr (f3_contextHash s)"
proof -
  obtain raw out openedHeight updatedHeight rangeBytes checked obs remaining storedSamples ctx where r:
    "session_ranges lib out" "f3_authority out = authority" "f3_height out = height" "f3_file out = e3_file expected"
    "request_mismatch raw height authority expected out openedHeight updatedHeight = Inr False"
    "decodeRangeV3 rangeBytes = Inr checked"
    "f3_first out = rg_first checked" "f3_last out = rg_last checked" "f3_population out = rg_population checked"
    "expectedObligationsV3 checked (g3_providers authority) = Inr obs"
    "fee_loop out 0 0 (f3_obligations out) = Inr (remaining, storedSamples)"
    "\<not> plan_mismatch out obs remaining storedSamples"
    "encodeContextV3 lib out = Inr ctx" "e3_contextHash expected ctx = Inr (f3_contextHash out)"
    "\<exists>anchor. s = out\<lparr>f3_context := ctx, f3_anchorSeed := anchor\<rparr>"
    by (rule parseFrozenSessionV3_Inr [OF assms]) blast
  obtain anchor where s: "s = out\<lparr>f3_context := ctx, f3_anchorSeed := anchor\<rparr>"
    using r(15) by blast
  have small: "\<forall>x \<in> set (f3_obligations out). ob_slot x \<le> 7" "f3_ackedMask out \<le> 255" "f3_settledMask out \<le> 255"
      "f3_refundedMask out \<le> 255" "length (f3_acceptedBitmap out) = 17"
    using r(1) by (auto simp: session_ranges_def)
  note q = request_mismatch_False [OF r(5)]
  note p = plan_mismatch_False [OF r(12) small(1-4)]
  note ob = expectedObligations_blobs [OF r(6,10)]
  have slots: "\<forall>x \<in> set (f3_obligations out). ob_slot x < 32"
    using small(1) by auto
  note fee = fee_loop_Inr [OF r(11) slots]
  note obs = triples_payee [OF p(2,3) ob(1)]
  have counts: "sum_list (map ob_blobCount (f3_obligations out)) = f3_population out"
    using ob(2) arg_cong [OF p(2), of "map (snd \<circ> snd)"] r(9) by (simp add: comp_def)
  have marked: "k < 8 \<and> blobs_of (f3_first out) (f3_last out) k \<noteq> []" if "k \<in> ob_slot ` set (f3_obligations out)" for k
    using that arg_cong [OF obs, of "\<lambda>xs. fst ` set xs"] r(7,8) by (auto simp: image_image)
  have acc: "\<forall>i < 17. \<forall>j < 8. bit (f3_acceptedBitmap out ! i) j \<longrightarrow> 8 * i + j < f3_sampleCount out"
    using accepted_within_samples [OF p(7)] small(5) by auto
  show ?thesis
    unfolding s outstanding_update encode_context_update
    using q p(1) decodeRangeV3_Inr [OF r(6)] r(7-9) obs counts fee sum_list_fees [of "f3_obligations out" "f3_pricePerBlob out"] p(4-6) marked acc r(13,14)
    by simp
qed

text \<open>A session for one blob, just opened.\<close>

definition v3_gen :: frozen_generation_v3 where
  "v3_gen = \<lparr>g3_chainId = ascii ''c'', g3_height = 5, g3_dealId = 7, g3_generation = 3, g3_owner = v3_account 0, g3_dealEnd = 90,
     g3_polyfsRoot = hex (replicate 32 0), g3_integrityRoot = hex (replicate 32 1), g3_setupDigest = hex setup_bytes,
     g3_retrievalPolicyMode = 5, g3_integrityLeafCount = 192, g3_metadataMdus = 2, g3_userMdus = 2, g3_totalMdus = 4,
     g3_witnessMdus = 1, g3_providers = map v3_account [0..<12]\<rparr>"

definition v3_file :: retrieval_file where
  "v3_file = \<lparr>rf_path = ascii ''f'', rf_start_offset = 0, rf_size_bytes = 3, rf_flags = 0\<rparr>"

definition v3_expected :: expected_v3 where
  "v3_expected = \<lparr>e3_sessionId = hex (replicate 32 4), e3_owner = v3_account 1, e3_recordIndex = 0, e3_file = v3_file, e3_rangeStart = 0,
     e3_rangeLength = 3, e3_nonce = 1, e3_planHash = replicate 32 6, e3_frozenContextHash = None, e3_deadline = None, e3_funding = None,
     e3_range = (\<lambda>_ _ _ _ _. Inr (be_bytes 8 0 @ be_bytes 8 0 @ be_bytes 8 1)), e3_contextHash = (\<lambda>_. Inr (replicate 32 9)),
     e3_seed = (\<lambda>_ _. Inr []), e3_challenges = (\<lambda>_ _. Inr [])\<rparr>"

definition v3_raw :: "(string \<times> json) list" where
  "v3_raw =
     [(''session_id'', JStr (btoa (replicate 32 4))), (''context_hash'', JStr (btoa (replicate 32 9))),
      (''plan_hash'', JStr (btoa (replicate 32 6))), (''owner'', JStr (v3_account 1)), (''payer'', JStr (v3_account 1)),
      (''funding'', JNum (num 2)),
      (''obligations'', JArr [JObj [(''assigned_provider'', JStr (v3_account 0)), (''payee'', JStr (v3_account 0)),
         (''blob_count'', JStr (dec_text 1)), (''locked_fee'', JStr (dec_text 5))]]),
      (''range_length'', JStr (dec_text 3)), (''population'', JStr (dec_text 1)), (''sample_count'', JStr (dec_text 1)),
      (''nonce'', JStr (dec_text 1)), (''price_denom'', JStr (ascii ''nil'')), (''price_per_blob'', JStr (dec_text 5)),
      (''base_fee'', JStr (dec_text 2)), (''snapshot_height'', JStr (dec_text 6)), (''anchor_height'', JStr (dec_text 7)),
      (''first_response_height'', JStr (dec_text 8)), (''deadline_height'', JStr (dec_text 20)), (''deal_end_height'', JStr (dec_text 90)),
      (''accepted_sample_bitmap'', JStr (btoa (replicate 17 0))), (''locked_fee'', JStr (dec_text 5)),
      (''opened_height'', JStr (dec_text 6)), (''updated_height'', JStr (dec_text 6)), (''deal_id'', JStr (dec_text 7)),
      (''generation'', JStr (dec_text 3)), (''polyfs_root'', JStr (btoa (replicate 32 0))), (''integrity_root'', JStr (btoa (replicate 32 1))),
      (''setup_digest'', JStr (btoa setup_bytes)), (''file_length'', JStr (dec_text 3)), (''metadata_mdus'', JStr (dec_text 2)),
      (''user_mdus'', JStr (dec_text 2)), (''chain_id'', JStr (ascii ''c''))]"

definition v3_payload :: "json option" where
  "v3_payload = Some (JObj [(''session'', JObj v3_raw)])"

definition v3_session :: frozen_session_v3 where
  "v3_session = \<lparr>f3_authority = v3_gen, f3_height = 9, f3_sessionId = hex (replicate 32 4), f3_contextHash = replicate 32 9,
     f3_planHash = replicate 32 6, f3_owner = v3_account 1, f3_payer = v3_account 1, f3_fileRecordIndex = 0, f3_file = v3_file,
     f3_rangeStart = 0, f3_rangeLength = 3, f3_first = 0, f3_last = 0, f3_population = 1, f3_sampleCount = 1, f3_nonce = 1,
     f3_priceDenom = ascii ''nil'', f3_pricePerBlob = 5, f3_baseFee = 2, f3_completionBurnBps = 0, f3_funding = 2, f3_snapshot = 6,
     f3_anchor = 7, f3_firstResponse = 8, f3_deadline = 20, f3_dealEnd = 90,
     f3_obligations = [\<lparr>ob_slot = 0, ob_assigned = v3_account 0, ob_payee = v3_account 0, ob_blobCount = 1, ob_sampleCount = 0, ob_lockedFee = 5\<rparr>],
     f3_acceptedBitmap = replicate 17 0, f3_ackedMask = 0, f3_settledMask = 0, f3_refundedMask = 0, f3_lockedFee = 5, f3_expired = False,
     f3_context = [], f3_anchorSeed = None, f3_browserTransactionKey = None\<rparr>"

lemma amount_dec_text: "n < 2 ^ 256 \<Longrightarrow> length (dec_string n) \<le> 78 \<Longrightarrow> amount (Some (JStr (dec_text n))) = Inr n"
  by (simp add: amount_def dec_text_def digits_ascii [OF dec_string_digits])

lemma amount_small: "n < 10 \<Longrightarrow> amount (Some (JStr (dec_text n))) = Inr n"
  using length_dec_string [of n 1] by (intro amount_dec_text) auto

lemma v3_fields_run: "parse_session_fields sample_bech32 (map_of v3_raw) 9 v3_gen v3_file = Inr v3_session"
  unfolding parse_session_fields_def v3_raw_def
  by (simp add: array_of_def parse_obligation_def record_of_def protoU64_def protoUint_def u64_dec_text amount_small enumeration_def
      funding_v3_names_def v3_session_def)

lemma v3_request_run: "request_mismatch (map_of v3_raw) 9 v3_gen v3_expected v3_session 6 6 = Inr False"
  unfolding request_mismatch_def any_holds_False v3_raw_def
  by (simp add: differs_def protoU64_def u64_dec_text v3_session_def v3_expected_def v3_gen_def v3_file_def hex_setup(2) ascii_def)

lemma v3_range_run:
  "decodeRangeV3 (be_bytes 8 0 @ be_bytes 8 0 @ be_bytes 8 1) = Inr \<lparr>rg_first = 0, rg_last = 0, rg_population = 1\<rparr>"
  by (simp add: decodeRangeV3_def subarray_def be_val_be_bytes)

lemma v3_obligations_run:
  "expectedObligationsV3 \<lparr>rg_first = 0, rg_last = 0, rg_population = 1\<rparr> (g3_providers v3_gen)
     = Inr [\<lparr>ob_slot = 0, ob_assigned = v3_account 0, ob_payee = v3_account 0, ob_blobCount = 1, ob_sampleCount = 0, ob_lockedFee = 0\<rparr>]"
  by (simp add: expectedObligationsV3_def v3_gen_def slot_obligation_def slot_first_def List.map_filter_def upt_rec)

lemma v3_plan_run:
  "fee_loop v3_session 0 0 (f3_obligations v3_session) = Inr (5, 0)"
  "\<not> plan_mismatch v3_session [\<lparr>ob_slot = 0, ob_assigned = v3_account 0, ob_payee = v3_account 0, ob_blobCount = 1, ob_sampleCount = 0, ob_lockedFee = 0\<rparr>] 5 0"
  by (auto simp: v3_session_def int32_def plan_mismatch_def accepted_past_samples_def list_ex_iff Let_def)

lemma v3_context_run: "\<exists>ctx. encodeContextV3 sample_bech32 v3_session = Inr ctx"
proof -
  have bytes: "hex_bytes (hex b) 32 = Inr b" if "length b = 32" for b
    using that by (simp add: hex_bytes_def unhex_Inr)
  have "\<exists>b. accountBytes sample_bech32 (v3_account 1) = Inr b"
    by (simp add: accountBytes_def sample_bech32_def v3_account_def ascii_def account_def)
  then show ?thesis
    by (auto simp: encodeContextV3_def v3_session_def v3_gen_def Let_def bytes hex_setup(2))
qed

lemma v3_session_run: "\<exists>s. parseFrozenSessionV3 sample_bech32 v3_payload 9 v3_gen v3_expected = Inr s"
proof -
  obtain ctx where ctx: "encodeContextV3 sample_bech32 v3_session = Inr ctx"
    using v3_context_run by blast
  have "record_of v3_payload = Inr [''session'' \<mapsto> JObj v3_raw]" "record_of (Some (JObj v3_raw)) = Inr (map_of v3_raw)"
    by (simp_all add: v3_payload_def record_of_def)
  moreover have "protoU64 (map_of v3_raw ''opened_height'') = Inr 6" "protoU64 (map_of v3_raw ''updated_height'') = Inr 6"
    by (simp_all add: v3_raw_def protoU64_def u64_dec_text)
  moreover have "e3_file v3_expected = v3_file" "e3_range v3_expected a b c d e = Inr (be_bytes 8 0 @ be_bytes 8 0 @ be_bytes 8 1)"
      "e3_contextHash v3_expected ctx = Inr (replicate 32 9)" "e3_frozenContextHash v3_expected = None" for a b c d e
    by (simp_all add: v3_expected_def)
  moreover have "f3_first v3_session = 0" "f3_last v3_session = 0" "f3_population v3_session = 1" "f3_contextHash v3_session = replicate 32 9"
    by (simp_all add: v3_session_def)
  ultimately show ?thesis
    by (simp add: parseFrozenSessionV3_def v3_fields_run v3_request_run v3_range_run [simplified] v3_obligations_run [simplified]
        v3_plan_run [simplified] ctx rawAnchorSeed_def)
qed

theorem v3_session_sound_witness:
  "\<exists>s. parseFrozenSessionV3 sample_bech32 v3_payload 9 v3_gen v3_expected = Inr s
     \<and> f3_sessionId s = e3_sessionId v3_expected \<and> sum_list (map ob_lockedFee (f3_obligations s)) = f3_pricePerBlob s * f3_population s"
proof -
  obtain s where run: "parseFrozenSessionV3 sample_bech32 v3_payload 9 v3_gen v3_expected = Inr s"
    using v3_session_run by blast
  show ?thesis
    using run v3_session_sound [OF run] by blast
qed

end
