(* ===== verification/RetrievalV3Checkpoint.thy ===== *)
theory RetrievalV3Checkpoint
  imports RetrievalV3Session
begin

text \<open>
  The checkpoint of a retrieval of version 3 (\<open>lib/retrievalV3Checkpoint.ts\<close>): what is read
  back from the browser's store, how it is bound to a session, and the cursors that say up
  to which blob of a slot the output is durable.
\<close>


section \<open>Stored values and the state\<close>

text \<open>The store returns what was written to it, by this or by another version of the program.\<close>

datatype js_val = VUndefined | VNull | VNumber jsnum | VBigint int | VString js_string | VOther

fun bigint_of :: "js_val \<Rightarrow> int option" where
  "bigint_of (VBigint n) = Some n"
| "bigint_of _ = None"

fun safe_nat :: "js_val \<Rightarrow> nat option" where
  "safe_nat (VNumber n) = (if isSafeInteger n \<and> \<not> js_less n 0 then Some (nat (js_floor n)) else None)"
| "safe_nat _ = None"

record raw_checkpoint =
  rc_version :: js_val
  rc_id :: js_val
  rc_length :: js_val
  rc_authority :: "frozen_generation_v3 option"
  rc_fileRecordIndex :: js_val
  rc_file :: "retrieval_file option"
  rc_rangeStart :: js_val
  rc_rangeLength :: js_val
  rc_requestRangeStart :: js_val
  rc_requestRangeLength :: js_val
  rc_requester :: js_val
  rc_session :: "frozen_session_v3 option"
  rc_cursors :: "(js_string \<times> js_val) list option"

record checkpoint_state =
  cs_id :: js_string
  cs_length :: int
  cs_authority :: frozen_generation_v3
  cs_fileRecordIndex :: nat
  cs_file :: retrieval_file
  cs_rangeStart :: int
  cs_rangeLength :: int
  cs_requestRangeStart :: "nat option"
  cs_requestRangeLength :: "nat option"
  cs_requester :: js_string
  cs_session :: "frozen_session_v3 option"
  cs_cursors :: "nat \<rightharpoonup> int"


section \<open>Matching a session\<close>

definition sameFile :: "retrieval_file \<Rightarrow> retrieval_file \<Rightarrow> bool" where
  "sameFile a b \<longleftrightarrow> rf_path a = rf_path b \<and> rf_start_offset a = rf_start_offset b
     \<and> rf_size_bytes a = rf_size_bytes b \<and> rf_flags a = rf_flags b"

definition sessionMatchesState :: "checkpoint_state \<Rightarrow> frozen_session_v3 \<Rightarrow> bool" where
  "sessionMatchesState state session \<longleftrightarrow>
     sameFrozenGenerationV3 (cs_authority state) (f3_authority session)
     \<and> cs_fileRecordIndex state = f3_fileRecordIndex session \<and> sameFile (cs_file state) (f3_file session)
     \<and> cs_rangeStart state = int (f3_rangeStart session) \<and> cs_rangeLength state = int (f3_rangeLength session)"

definition session_chunks :: "frozen_session_v3 \<Rightarrow> nat \<Rightarrow> chunk_authority list result" where
  "session_chunks session slot =
     planV3Chunks (f3_authority session) (f3_sessionId session) (f3_contextHash session) (f3_first session) (f3_last session)
       (Some (num slot))"

definition chunk_last :: "chunk_authority \<Rightarrow> nat" where
  "chunk_last chunk = en_t (last (ck_entries chunk))"

definition cursorIsChunkBoundary :: "frozen_session_v3 \<Rightarrow> nat \<Rightarrow> int \<Rightarrow> bool" where
  "cursorIsChunkBoundary session slot through \<longleftrightarrow>
     \<not> (through < 0 \<or> through mod 8 \<noteq> int slot)
     \<and> (case session_chunks session slot of Inl _ \<Rightarrow> False | Inr chunks \<Rightarrow> list_ex (\<lambda>chunk. int (chunk_last chunk) = through) chunks)"

definition retrievalV3SlotEnd :: "nat \<Rightarrow> nat \<Rightarrow> int" where
  "retrievalV3SlotEnd session_last slot = int session_last - (int (session_last mod 8) - int slot + 8) mod 8"

definition cursor :: "(nat \<rightharpoonup> int) \<Rightarrow> nat \<Rightarrow> int" where
  "cursor cursors slot = (case cursors slot of None \<Rightarrow> -1 | Some through \<Rightarrow> through)"

definition retrievalV3OutputComplete :: "frozen_session_v3 \<Rightarrow> (nat \<rightharpoonup> int) \<Rightarrow> bool" where
  "retrievalV3OutputComplete session cursors =
     list_all (\<lambda>x. cursor cursors (ob_slot x) = retrievalV3SlotEnd (f3_last session) (ob_slot x)) (f3_obligations session)"


section \<open>Reading a checkpoint\<close>

text \<open>The name of a cursor matches \<^verbatim>\<open>/^[0-7]$/\<close>.\<close>

fun slot_name :: "js_string \<Rightarrow> nat option" where
  "slot_name [c] = (if 48 \<le> c \<and> c \<le> 55 then Some (c - 48) else None)"
| "slot_name _ = None"

definition bad_cursor :: "frozen_session_v3 option \<Rightarrow> js_string \<times> js_val \<Rightarrow> bool" where
  "bad_cursor session = (\<lambda>(rawSlot, through).
     case (slot_name rawSlot, bigint_of through, session) of
       (Some slot, Some t, Some s) \<Rightarrow> \<not> cursorIsChunkBoundary s slot t
     | _ \<Rightarrow> True)"

definition saved_cursors :: "(js_string \<times> js_val) list \<Rightarrow> nat \<rightharpoonup> int" where
  "saved_cursors entries =
     map_of (List.map_filter (\<lambda>(k, v). case (slot_name k, bigint_of v) of (Some slot, Some t) \<Rightarrow> Some (slot, t) | _ \<Rightarrow> None) entries)"

definition start_matches :: "js_val \<Rightarrow> int \<Rightarrow> bool" where
  "start_matches v rangeStart \<longleftrightarrow> v = VNull \<or> map_option int (safe_nat v) = Some rangeStart"

definition length_matches :: "js_val \<Rightarrow> int \<Rightarrow> bool" where
  "length_matches v rangeLength \<longleftrightarrow>
     v = VNull \<or> (case safe_nat v of None \<Rightarrow> False | Some n \<Rightarrow> n = 0 \<or> int n = rangeLength)"

definition readRetrievalV3Checkpoint :: "bech32_lib \<Rightarrow> raw_checkpoint option \<Rightarrow> checkpoint_state option result" where
  "readRetrievalV3Checkpoint lib saved_value =
     (let bad = Inl ''invalid saved v3 retrieval checkpoint'' in
      case saved_value of
        None \<Rightarrow> Inr None
      | Some saved \<Rightarrow>
          (case (rc_id saved, bigint_of (rc_length saved), bigint_of (rc_rangeStart saved), bigint_of (rc_rangeLength saved),
                 rc_authority saved, rc_file saved, rc_requester saved) of
             (VString ident, Some len, Some rangeStart, Some rangeLength, Some authority, Some file, VString requester) \<Rightarrow>
               if rc_version saved \<noteq> VNumber (num 3) \<or> ident = [] \<or> len < 0 \<or> len > 2 ^ 30 \<or> rangeLength \<noteq> len
                  \<or> \<not> start_matches (rc_requestRangeStart saved) rangeStart
                  \<or> \<not> length_matches (rc_requestRangeLength saved) rangeLength
               then bad
               else
                 sbind (account lib (Some (JStr requester))) (\<lambda>a.
                 if a \<noteq> requester \<or> (case rc_session saved of None \<Rightarrow> False | Some s \<Rightarrow> f3_owner s \<noteq> requester) then bad
                 else
                   (case (safe_nat (rc_fileRecordIndex saved), rc_cursors saved) of
                      (Some index, Some entries) \<Rightarrow>
                        let state = \<lparr>cs_id = ident, cs_length = len, cs_authority = authority, cs_fileRecordIndex = index,
                              cs_file = file, cs_rangeStart = rangeStart, cs_rangeLength = rangeLength,
                              cs_requestRangeStart = safe_nat (rc_requestRangeStart saved),
                              cs_requestRangeLength = safe_nat (rc_requestRangeLength saved),
                              cs_requester = requester, cs_session = rc_session saved, cs_cursors = saved_cursors entries\<rparr>
                        in if (case rc_session saved of None \<Rightarrow> False | Some s \<Rightarrow> \<not> sessionMatchesState state s)
                              \<or> list_ex (bad_cursor (rc_session saved)) entries
                           then bad else Inr (Some state)
                    | _ \<Rightarrow> bad))
           | _ \<Rightarrow> bad))"

text \<open>The state that a checkpoint is opened with: the saved one if it is for the same request.\<close>

definition open_state ::
  "checkpoint_state option \<Rightarrow> checkpoint_state option \<Rightarrow> js_string \<Rightarrow> checkpoint_state result" where
  "open_state saved initial output_id =
     (case (saved, initial) of
        (None, None) \<Rightarrow> Inl ''missing frozen v3 retrieval checkpoint''
      | (Some s, None) \<Rightarrow> Inr s
      | (None, Some i) \<Rightarrow> Inr (i\<lparr>cs_id := output_id, cs_cursors := Map.empty\<rparr>)
      | (Some s, Some i) \<Rightarrow>
          if cs_length s \<noteq> cs_length i \<or> cs_rangeStart s \<noteq> cs_rangeStart i \<or> cs_rangeLength s \<noteq> cs_rangeLength i
             \<or> cs_fileRecordIndex s \<noteq> cs_fileRecordIndex i \<or> \<not> sameFile (cs_file s) (cs_file i)
             \<or> \<not> sameFrozenGenerationV3 (cs_authority s) (cs_authority i)
          then Inl ''saved v3 retrieval does not match request'' else Inr s)"


section \<open>The operations of an open checkpoint\<close>

text \<open>\<open>save\<close> keeps the old state if the store refuses the new one.\<close>

definition save_state :: "unit result \<Rightarrow> checkpoint_state \<Rightarrow> checkpoint_state result" where
  "save_state put next_state = sbind put (\<lambda>_. Inr next_state)"

definition bind_session :: "unit result \<Rightarrow> frozen_session_v3 \<Rightarrow> checkpoint_state \<Rightarrow> checkpoint_state result" where
  "bind_session put session state =
     (if \<not> sessionMatchesState state session
         \<or> (case cs_session state of None \<Rightarrow> False | Some s \<Rightarrow> f3_sessionId s \<noteq> f3_sessionId session)
      then Inl ''saved v3 retrieval is bound to another request''
      else save_state put (state\<lparr>cs_session := Some session\<rparr>))"

definition advance :: "unit result \<Rightarrow> nat \<Rightarrow> int \<Rightarrow> checkpoint_state \<Rightarrow> checkpoint_state result" where
  "advance put slot through state =
     (if slot > 7 \<or> through \<le> cursor (cs_cursors state) slot then Inl ''invalid v3 retrieval cursor''
      else save_state put (state\<lparr>cs_cursors := (cs_cursors state)(slot \<mapsto> through)\<rparr>))"

definition refresh :: "unit result \<Rightarrow> frozen_session_v3 \<Rightarrow> checkpoint_state \<Rightarrow> checkpoint_state result" where
  "refresh put session state =
     (if (case cs_session state of None \<Rightarrow> True | Some s \<Rightarrow> f3_sessionId s \<noteq> f3_sessionId session)
         \<or> \<not> sessionMatchesState state session
      then Inl ''v3 session checkpoint mismatch''
      else save_state put (state\<lparr>cs_session := Some session\<rparr>))"


section \<open>What is read back\<close>

definition checkpoint_valid :: "bech32_lib \<Rightarrow> checkpoint_state \<Rightarrow> bool" where
  "checkpoint_valid lib state \<longleftrightarrow>
     cs_id state \<noteq> [] \<and> 0 \<le> cs_length state \<and> cs_length state \<le> 2 ^ 30 \<and> cs_rangeLength state = cs_length state
     \<and> (\<forall>n. cs_requestRangeStart state = Some n \<longrightarrow> int n \<le> MAX_SAFE_INTEGER \<and> int n = cs_rangeStart state)
     \<and> (\<forall>n. cs_requestRangeLength state = Some n \<longrightarrow> n = 0 \<or> int n = cs_rangeLength state)
     \<and> account lib (Some (JStr (cs_requester state))) = Inr (cs_requester state)
     \<and> (\<forall>s. cs_session state = Some s \<longrightarrow> f3_owner s = cs_requester state \<and> sessionMatchesState state s)
     \<and> int (cs_fileRecordIndex state) \<le> MAX_SAFE_INTEGER
     \<and> (\<forall>slot through. cs_cursors state slot = Some through \<longrightarrow>
          slot < 8 \<and> (\<exists>s. cs_session state = Some s \<and> cursorIsChunkBoundary s slot through))"

lemma safe_nat_num: "safe_nat (VNumber (num n)) = Some m \<longleftrightarrow> n = m \<and> int n \<le> MAX_SAFE_INTEGER"
  by (auto simp: num_def)

lemma safe_nat_bound: "safe_nat v = Some n \<Longrightarrow> int n \<le> MAX_SAFE_INTEGER"
proof (cases v)
  case (VNumber m)
  assume "safe_nat v = Some n"
  then show ?thesis
    using VNumber by (cases m) (auto split: if_splits)
qed simp_all

lemma slot_name_less: "slot_name k = Some slot \<Longrightarrow> slot < 8"
  by (cases k rule: slot_name.cases) (auto split: if_splits)

lemma saved_cursors_mem:
  assumes "saved_cursors entries slot = Some through"
  shows "\<exists>k v. (k, v) \<in> set entries \<and> slot_name k = Some slot \<and> bigint_of v = Some through"
  using map_of_SomeD [OF assms [unfolded saved_cursors_def]]
  by (auto simp: List.map_filter_def split: option.splits) blast

lemma good_cursor:
  "\<not> bad_cursor session (k, v) \<longleftrightarrow>
     (\<exists>slot t s. slot_name k = Some slot \<and> bigint_of v = Some t \<and> session = Some s \<and> cursorIsChunkBoundary s slot t)"
  by (auto simp: bad_cursor_def split: option.splits)

lemma read_checkpoint_valid:
  assumes "readRetrievalV3Checkpoint lib (Some raw) = Inr (Some state)"
  shows "checkpoint_valid lib state"
proof -
  note read = assms [unfolded readRetrievalV3Checkpoint_def Let_def]
  obtain ident where i: "rc_id raw = VString ident"
    using read by (cases "rc_id raw") simp_all
  obtain len where b1: "bigint_of (rc_length raw) = Some len"
    using read by (cases "bigint_of (rc_length raw)") (simp_all add: i)
  obtain rangeStart where b2: "bigint_of (rc_rangeStart raw) = Some rangeStart"
    using read by (cases "bigint_of (rc_rangeStart raw)") (simp_all add: i b1)
  obtain rangeLength where b3: "bigint_of (rc_rangeLength raw) = Some rangeLength"
    using read by (cases "bigint_of (rc_rangeLength raw)") (simp_all add: i b1 b2)
  note b = b1 b2 b3
  obtain authority rfile where f: "rc_authority raw = Some authority" "rc_file raw = Some rfile"
    using read by (cases "rc_authority raw"; cases "rc_file raw") (simp_all add: i b)
  obtain requester where q: "rc_requester raw = VString requester"
    using read by (cases "rc_requester raw") (simp_all add: i b f)
  obtain index entries where c: "safe_nat (rc_fileRecordIndex raw) = Some index" "rc_cursors raw = Some entries"
    using read by (cases "safe_nat (rc_fileRecordIndex raw)"; cases "rc_cursors raw") (auto simp: i q b f sbind_eq_Inr split: if_splits)
  have ok: "ident \<noteq> []" "0 \<le> len" "len \<le> 2 ^ 30" "rangeLength = len" "start_matches (rc_requestRangeStart raw) rangeStart"
      "length_matches (rc_requestRangeLength raw) rangeLength" "account lib (Some (JStr requester)) = Inr requester"
      "\<forall>s. rc_session raw = Some s \<longrightarrow> f3_owner s = requester \<and> sessionMatchesState state s"
      "\<not> list_ex (bad_cursor (rc_session raw)) entries"
      "state = \<lparr>cs_id = ident, cs_length = len, cs_authority = authority, cs_fileRecordIndex = index, cs_file = rfile,
         cs_rangeStart = rangeStart, cs_rangeLength = rangeLength, cs_requestRangeStart = safe_nat (rc_requestRangeStart raw),
         cs_requestRangeLength = safe_nat (rc_requestRangeLength raw), cs_requester = requester, cs_session = rc_session raw,
         cs_cursors = saved_cursors entries\<rparr>"
    using read by (auto simp: i q b f c sbind_eq_Inr split: option.splits if_splits)
  have "\<exists>s. rc_session raw = Some s \<and> cursorIsChunkBoundary s slot through" "slot < 8" if "saved_cursors entries slot = Some through" for slot through
    using saved_cursors_mem [OF that] ok(9) good_cursor slot_name_less by (fastforce simp: list_ex_iff)+
  then show ?thesis
    using ok safe_nat_bound [OF c(1)] safe_nat_bound [of "rc_requestRangeStart raw"]
    by (auto simp: checkpoint_valid_def start_matches_def length_matches_def)
qed

text \<open>The stored form of a state.\<close>

definition stored_number :: "nat option \<Rightarrow> js_val" where
  "stored_number v = (case v of None \<Rightarrow> VNull | Some n \<Rightarrow> VNumber (num n))"

definition stored_cursors :: "(nat \<rightharpoonup> int) \<Rightarrow> (js_string \<times> js_val) list" where
  "stored_cursors cursors =
     List.map_filter (\<lambda>slot. case cursors slot of None \<Rightarrow> None | Some t \<Rightarrow> Some ([48 + slot], VBigint t)) [0..<8]"

definition stored_checkpoint :: "checkpoint_state \<Rightarrow> raw_checkpoint" where
  "stored_checkpoint state =
     \<lparr>rc_version = VNumber (num 3), rc_id = VString (cs_id state), rc_length = VBigint (cs_length state),
      rc_authority = Some (cs_authority state), rc_fileRecordIndex = VNumber (num (cs_fileRecordIndex state)),
      rc_file = Some (cs_file state), rc_rangeStart = VBigint (cs_rangeStart state), rc_rangeLength = VBigint (cs_rangeLength state),
      rc_requestRangeStart = stored_number (cs_requestRangeStart state), rc_requestRangeLength = stored_number (cs_requestRangeLength state),
      rc_requester = VString (cs_requester state), rc_session = cs_session state, rc_cursors = Some (stored_cursors (cs_cursors state))\<rparr>"

lemma stored_cursors_mem:
  "(k, v) \<in> set (stored_cursors cursors) \<longleftrightarrow> (\<exists>slot t. slot < 8 \<and> cursors slot = Some t \<and> k = [48 + slot] \<and> v = VBigint t)"
  unfolding stored_cursors_def List.map_filter_def by (auto simp: image_iff split: option.splits simp del: upt_rec_numeral)

lemma saved_stored_cursors:
  assumes "\<forall>slot through. cursors slot = Some through \<longrightarrow> slot < 8"
  shows "saved_cursors (stored_cursors cursors) = cursors"
proof -
  have form: "saved_cursors (stored_cursors cursors) =
      map_of (List.map_filter (\<lambda>slot. case cursors slot of None \<Rightarrow> None | Some t \<Rightarrow> Some (slot, t)) [0..<8])"
  proof -
    have "saved_cursors (List.map_filter (\<lambda>slot. case cursors slot of None \<Rightarrow> None | Some t \<Rightarrow> Some ([48 + slot], VBigint t)) slots)
        = map_of (List.map_filter (\<lambda>slot. case cursors slot of None \<Rightarrow> None | Some t \<Rightarrow> Some (slot, t)) slots)"
      if "\<forall>slot \<in> set slots. slot < 8" for slots
      using that unfolding saved_cursors_def
      by (induction slots) (auto simp: List.map_filter_def split: option.splits)
    then show ?thesis
      unfolding stored_cursors_def by simp
  qed
  have "map_of (List.map_filter (\<lambda>slot. case cursors slot of None \<Rightarrow> None | Some t \<Rightarrow> Some (slot, t)) slots) slot
      = (if slot \<in> set slots then cursors slot else None)" for slots slot
    by (induction slots) (auto simp: List.map_filter_def split: option.splits)
  then show ?thesis
    unfolding form using assms by (auto simp: fun_eq_iff simp del: upt_rec_numeral) (metis option.exhaust)
qed

lemma read_stored_checkpoint:
  assumes valid: "checkpoint_valid lib state"
  shows "readRetrievalV3Checkpoint lib (Some (stored_checkpoint state)) = Inr (Some state)"
proof -
  have numbers: "safe_nat (stored_number (cs_requestRangeStart state)) = cs_requestRangeStart state"
      "safe_nat (stored_number (cs_requestRangeLength state)) = cs_requestRangeLength state"
      "safe_nat (VNumber (num (cs_fileRecordIndex state))) = Some (cs_fileRecordIndex state)"
    using valid by (auto simp: checkpoint_valid_def stored_number_def MAX_SAFE_INTEGER_def split: option.splits)
  have matches: "start_matches (stored_number (cs_requestRangeStart state)) (cs_rangeStart state)"
      "length_matches (stored_number (cs_requestRangeLength state)) (cs_rangeLength state)"
    using valid numbers by (auto simp: checkpoint_valid_def start_matches_def length_matches_def stored_number_def split: option.splits)
  have cursors: "saved_cursors (stored_cursors (cs_cursors state)) = cs_cursors state"
    using valid by (intro saved_stored_cursors) (auto simp: checkpoint_valid_def)
  have boundary: "slot < 8 \<and> (\<exists>s. cs_session state = Some s \<and> cursorIsChunkBoundary s slot t)" if "cs_cursors state slot = Some t" for slot t
    using valid that by (simp add: checkpoint_valid_def)
  have "\<not> bad_cursor (cs_session state) (k, v)" if mem: "(k, v) \<in> set (stored_cursors (cs_cursors state))" for k v
  proof -
    obtain slot t where st: "slot < 8" "cs_cursors state slot = Some t" "k = [48 + slot]" "v = VBigint t"
      using mem stored_cursors_mem by blast
    show ?thesis
      using boundary [OF st(2)] st(1) by (simp add: good_cursor st(3,4))
  qed
  then have "\<not> list_ex (bad_cursor (cs_session state)) (stored_cursors (cs_cursors state))"
    by (auto simp: list_ex_iff)
  moreover have "\<lparr>cs_id = cs_id state, cs_length = cs_length state, cs_authority = cs_authority state,
      cs_fileRecordIndex = cs_fileRecordIndex state, cs_file = cs_file state, cs_rangeStart = cs_rangeStart state,
      cs_rangeLength = cs_length state, cs_requestRangeStart = cs_requestRangeStart state,
      cs_requestRangeLength = cs_requestRangeLength state, cs_requester = cs_requester state, cs_session = cs_session state,
      cs_cursors = cs_cursors state\<rparr> = state"
    using valid by (cases state) (simp add: checkpoint_valid_def)
  ultimately show ?thesis
    using valid matches numbers
    by (auto simp: readRetrievalV3Checkpoint_def stored_checkpoint_def checkpoint_valid_def sessionMatchesState_def cursors Let_def
        split: option.splits)
qed

text \<open>A state for a session with one blob, before and after its chunk.\<close>

definition v3_checkpoint :: checkpoint_state where
  "v3_checkpoint = \<lparr>cs_id = ascii ''o'', cs_length = 3, cs_authority = v3_gen, cs_fileRecordIndex = 0, cs_file = v3_file, cs_rangeStart = 0,
     cs_rangeLength = 3, cs_requestRangeStart = None, cs_requestRangeLength = None, cs_requester = v3_account 1,
     cs_session = Some v3_session, cs_cursors = Map.empty\<rparr>"

definition v3_chunk :: chunk_authority where
  "v3_chunk = \<lparr>ck_authority = v3_gen, ck_sessionId = hex (replicate 32 4), ck_contextHash = replicate 32 9, ck_slot = 0, ck_mduIndex = 2,
     ck_startBlobIndex = 0, ck_entries = [\<lparr>en_t = 0, en_mduIndex = 2, en_leafIndex = 0, en_integrityPosition = 0\<rparr>]\<rparr>"

lemma v3_session_simps [simp]:
  "f3_authority v3_session = v3_gen" "f3_sessionId v3_session = hex (replicate 32 4)" "f3_contextHash v3_session = replicate 32 9"
  "f3_fileRecordIndex v3_session = 0" "f3_file v3_session = v3_file" "f3_rangeStart v3_session = 0" "f3_rangeLength v3_session = 3"
  "f3_first v3_session = 0" "f3_last v3_session = 0" "map ob_slot (f3_obligations v3_session) = [0]" "f3_ackedMask v3_session = 0"
  "g3_metadataMdus v3_gen = 2"
  by (simp_all add: v3_session_def v3_gen_def)

lemma v3_chunk_run: "session_chunks v3_session 0 = Inr [v3_chunk]"
  by (simp add: session_chunks_def planV3Chunks_def num_def MAX_SAFE_INTEGER_def slot_chunks_def mdu_chunk_def chunk_entries.simps
      List.map_filter_def v3_chunk_def upt_rec Let_def)

definition v3_resumed :: checkpoint_state where
  "v3_resumed = v3_checkpoint\<lparr>cs_cursors := [0 \<mapsto> 0]\<rparr>"

lemma v3_resumed_valid: "checkpoint_valid sample_bech32 v3_resumed"
proof -
  have "cursorIsChunkBoundary v3_session 0 0"
    by (simp add: cursorIsChunkBoundary_def v3_chunk_run chunk_last_def v3_chunk_def)
  then show ?thesis
    by (auto simp: checkpoint_valid_def v3_resumed_def v3_checkpoint_def sessionMatchesState_def sameFile_def sameFrozenGenerationV3_def
        MAX_SAFE_INTEGER_def ascii_def v3_session_def list_all_iff split: if_splits)
qed




section \<open>Where a retrieval goes on\<close>

text \<open>Chunks in the order of their blobs.\<close>

definition chunk_less :: "chunk_authority \<Rightarrow> chunk_authority \<Rightarrow> bool" where
  "chunk_less a b \<longleftrightarrow> (\<forall>x \<in> set (ck_entries a). \<forall>y \<in> set (ck_entries b). en_t x < en_t y)"

definition chunk_blobs :: "chunk_authority list \<Rightarrow> nat set" where
  "chunk_blobs chunks = (\<Union>c \<in> set chunks. en_t ` set (ck_entries c))"

lemma sorted_wrt_concat:
  "sorted_wrt (<) (concat (map (\<lambda>c. map en_t (ck_entries c)) chunks)) \<Longrightarrow>
   sorted_wrt chunk_less chunks \<and> (\<forall>c \<in> set chunks. sorted_wrt (<) (map en_t (ck_entries c)))"
  by (induction chunks) (auto simp: sorted_wrt_append chunk_less_def)

lemma sorted_last:
  assumes "sorted_wrt (<) (map en_t es)" "e \<in> set es"
  shows "en_t e \<le> en_t (last es)"
  using assms
proof (induction es rule: rev_induct)
  case (snoc x xs)
  then show ?case
    by (auto simp: sorted_wrt_append less_imp_le)
qed simp

text \<open>The chunks of a slot hold its blobs, in order.\<close>

lemma session_chunks_blobs:
  assumes "session_chunks session slot = Inr chunks" "f3_first session \<le> f3_last session"
  shows "chunk_blobs chunks = set (blobs_of (f3_first session) (f3_last session) slot)" "sorted_wrt chunk_less chunks"
    "\<forall>c \<in> set chunks. ck_entries c \<noteq> [] \<and> (\<forall>e \<in> set (ck_entries c). en_t e \<le> chunk_last c)"
proof -
  obtain slots where slots: "chunks = concat (map (slot_chunks (f3_authority session) (f3_sessionId session) (f3_contextHash session)
        (f3_first session) (f3_last session)) slots)" "\<forall>s \<in> set slots. s < 8" "slots = [slot]"
    by (rule planV3Chunks_slots [OF assms(1) [unfolded session_chunks_def]]) (auto simp: num_def)
  then have list: "map en_t (concat (map ck_entries chunks)) = blobs_of (f3_first session) (f3_last session) slot"
    using slot_chunks_blobs [OF _ assms(2), of slot] by simp
  have ne: "ck_entries c \<noteq> []" if "c \<in> set chunks" for c
    using that slots mdu_chunk_ok unfolding slot_chunks_def by (fastforce simp: List.map_filter_def chunk_ok_def)
  have "sorted_wrt (<) (blobs_of (f3_first session) (f3_last session) slot)"
    unfolding blobs_of_def by (rule sorted_wrt_filter) (simp only: sorted_wrt_upt)
  then have sorted: "sorted_wrt (<) (concat (map (\<lambda>c. map en_t (ck_entries c)) chunks))"
    using list by (simp add: map_concat comp_def)
  show "chunk_blobs chunks = set (blobs_of (f3_first session) (f3_last session) slot)"
    unfolding list [symmetric] by (auto simp: chunk_blobs_def)
  show "sorted_wrt chunk_less chunks"
    using sorted_wrt_concat [OF sorted] by simp
  show "\<forall>c \<in> set chunks. ck_entries c \<noteq> [] \<and> (\<forall>e \<in> set (ck_entries c). en_t e \<le> chunk_last c)"
    using sorted_wrt_concat [OF sorted] ne sorted_last unfolding chunk_last_def by blast
qed

lemma no_chunks:
  assumes "f3_last session < f3_first session" "session_chunks session slot = Inr chunks"
  shows "chunks = []"
proof -
  obtain slots where slots: "chunks = concat (map (slot_chunks (f3_authority session) (f3_sessionId session) (f3_contextHash session)
        (f3_first session) (f3_last session)) slots)"
    by (rule planV3Chunks_slots [OF assms(2) [unfolded session_chunks_def]])
  have "mdu_chunk a i c (f3_first session) (f3_last session) k u = None" for a i c k u
  proof -
    have "(if u * 64 + 63 < f3_last session then u * 64 + 63 else f3_last session)
        < (if u * 64 > f3_first session then u * 64 else f3_first session) + d" for d
      using assms(1) by simp
    then show ?thesis
      by (simp only: mdu_chunk_def Let_def if_True)
  qed
  then have "slot_chunks a i c (f3_first session) (f3_last session) k = []" for a i c k
    by (simp add: slot_chunks_def List.map_filter_def)
  then show ?thesis
    by (simp add: slots)
qed

text \<open>
  C16: A checkpoint that was read goes on at a chunk. Its cursor for a slot splits the chunks that
  are planned for the bound session into those that are completely durable and those of which
  nothing is; the retrieval of the slot therefore fetches exactly the second part.
\<close>

theorem checkpoint_resumes:
  assumes "readRetrievalV3Checkpoint lib (Some raw) = Inr (Some state)" "cs_cursors state slot = Some through"
  shows "\<exists>session old new. cs_session state = Some session \<and> sessionMatchesState state session \<and> session_chunks session slot = Inr (old @ new)
    \<and> through \<in> int ` chunk_blobs old \<and> (\<forall>t \<in> chunk_blobs old. int t \<le> through) \<and> (\<forall>t \<in> chunk_blobs new. through < int t)
    \<and> filter (\<lambda>c. int (chunk_last c) \<le> through) (old @ new) = old"
proof -
  have valid: "checkpoint_valid lib state"
    by (rule read_checkpoint_valid [OF assms(1)])
  then obtain session where s: "cs_session state = Some session" "sessionMatchesState state session" "cursorIsChunkBoundary session slot through"
    using assms(2) unfolding checkpoint_valid_def by blast
  obtain chunks c where c: "session_chunks session slot = Inr chunks" "c \<in> set chunks" "int (chunk_last c) = through"
    using s(3) by (auto simp: cursorIsChunkBoundary_def list_ex_iff split: sum.splits)
  have "f3_first session \<le> f3_last session"
    using no_chunks [OF _ c(1)] c(2) by fastforce
  note b = session_chunks_blobs [OF c(1) this]
  obtain before after where split: "chunks = before @ c # after"
    using split_list [OF c(2)] by blast
  have less: "chunk_less x c" if "x \<in> set before" for x
    using b(2) that by (auto simp: split sorted_wrt_append)
  have more: "chunk_less c x" if "x \<in> set after" for x
    using b(2) by (simp add: split sorted_wrt_append that)
  have entry: "last (ck_entries x) \<in> set (ck_entries x)" "\<forall>e \<in> set (ck_entries x). en_t e \<le> chunk_last x" if "x \<in> set chunks" for x
    using b(3) that by simp_all
  have old: "int (chunk_last x) \<le> through" if "x \<in> set (before @ [c])" for x
    using that less [of x] entry(1) [of x] entry(1) [OF c(2)] c(3) by (auto simp: chunk_less_def chunk_last_def split less_imp_le)
  have new: "through < int (en_t e)" if "x \<in> set after" "e \<in> set (ck_entries x)" for x e
    using more [OF that(1)] that(2) entry(1) [OF c(2)] c(3) by (auto simp: chunk_less_def chunk_last_def)
  have "through \<in> int ` chunk_blobs (before @ [c])"
    using entry(1) [OF c(2)] c(3) by (force simp: chunk_blobs_def chunk_last_def)
  moreover have "\<forall>t \<in> chunk_blobs (before @ [c]). int t \<le> through"
    using old entry(2) by (fastforce simp: chunk_blobs_def split)
  moreover have "\<forall>t \<in> chunk_blobs after. through < int t"
    using new by (auto simp: chunk_blobs_def)
  moreover have "filter (\<lambda>c. int (chunk_last c) \<le> through) ((before @ [c]) @ after) = before @ [c]"
  proof -
    have "\<not> int (chunk_last x) \<le> through" if "x \<in> set after" for x
      using new [OF that] entry(1) [of x] that by (auto simp: split chunk_last_def not_le)
    then show ?thesis
      using old by (simp add: filter_id_conv filter_empty_conv)
  qed
  ultimately show ?thesis
    using s(1,2) c(1) split by (intro exI [of _ session] exI [of _ "before @ [c]"] exI [of _ after]) simp
qed

theorem checkpoint_resumes_witness:
  "\<exists>old new. session_chunks v3_session 0 = Inr (old @ new) \<and> 0 \<in> int ` chunk_blobs old \<and> (\<forall>t \<in> chunk_blobs new. 0 < int t)"
proof -
  have "readRetrievalV3Checkpoint sample_bech32 (Some (stored_checkpoint v3_resumed)) = Inr (Some v3_resumed)"
    by (rule read_stored_checkpoint [OF v3_resumed_valid])
  from checkpoint_resumes [OF this, of 0 0] show ?thesis
    by (auto simp: v3_resumed_def v3_checkpoint_def)
qed

end
