(* ===== verification/RetrievalPacking.thy ===== *)
theory RetrievalPacking
  imports RetrievalPlan Interfaces
begin

text \<open>
  How user bytes are packed into blobs and read back (\<open>lib/retrievalFlow.ts\<close>). A blob has
  4096 scalars of 32 bytes; a scalar holds up to 31 bytes, right-aligned after zeros. The
  reader of a slice first checks that every other byte of the blob is zero.
\<close>


section \<open>Reading a slice\<close>

text \<open>The number of leading bytes of a scalar that must be zero.\<close>

definition scalar_padding :: "nat \<Rightarrow> nat \<Rightarrow> nat \<Rightarrow> nat" where
  "scalar_padding full remainder scalar =
     (if scalar < full then 1 else if scalar = full \<and> remainder \<noteq> 0 then 32 - remainder else 32)"

fun check_scalars :: "bytes \<Rightarrow> nat \<Rightarrow> nat \<Rightarrow> nat list \<Rightarrow> unit result" where
  "check_scalars encoded full remainder [] = Inr ()"
| "check_scalars encoded full remainder (scalar # scalars) =
     (let start = scalar * 32 in
      if encoded ! start \<noteq> 0 then Inl ''nonzero user payload prefix''
      else if list_ex (\<lambda>i. encoded ! (start + i) \<noteq> 0) [1..<scalar_padding full remainder scalar]
      then Inl ''nonzero user payload padding''
      else check_scalars encoded full remainder scalars)"

text \<open>The copy loop, with what it still has to write when \<open>i\<close> bytes are written.\<close>

function copy_slice :: "bytes \<Rightarrow> nat \<Rightarrow> nat \<Rightarrow> nat \<Rightarrow> nat \<Rightarrow> nat \<Rightarrow> bytes" where
  "copy_slice encoded full remainder offset len i =
     (if i < len then
        let at_pos = offset + i; scalar = at_pos div 31; position = at_pos mod 31;
            count = min (len - i) (31 - position);
            start = scalar * 32 + (if scalar = full \<and> remainder \<noteq> 0 then 32 - remainder else 1) + position
        in subarray start (start + count) encoded @ copy_slice encoded full remainder offset len (i + count)
      else [])"
  by auto
termination
  by (relation "measure (\<lambda>(_, _, _, _, len, i). len - i)") (auto simp: less_diff_conv2)

declare copy_slice.simps [simp del]

definition decodeRetrievalSlice :: "bytes \<Rightarrow> jsnum \<Rightarrow> jsnum \<Rightarrow> jsnum \<Rightarrow> bytes result" where
  "decodeRetrievalSlice encoded validLength offset len =
     (if length encoded \<noteq> 131072 \<or> \<not> list_all isSafeInteger [validLength, offset, len]
         \<or> js_floor validLength < 0 \<or> js_floor validLength > int RAW_BLOB_BYTES \<or> js_floor offset < 0 \<or> js_floor len < 0
         \<or> js_floor offset + js_floor len > js_floor validLength
      then Inl ''invalid packed range''
      else
        let valid = nat (js_floor validLength); full = valid div 31; remainder = valid mod 31
        in sbind (check_scalars encoded full remainder [0..<4096]) (\<lambda>_.
           Inr (copy_slice encoded full remainder (nat (js_floor offset)) (nat (js_floor len)) 0)))"


section \<open>The packing\<close>

definition pack_scalar :: "bytes \<Rightarrow> bytes" where
  "pack_scalar chunk = replicate (32 - length chunk) 0 @ chunk"

definition pack_blob :: "bytes \<Rightarrow> bytes" where
  "pack_blob raw = concat (map (\<lambda>s. pack_scalar (subarray (31 * s) (31 * s + 31) raw)) [0..<4096])"

text \<open>Where byte \<open>j\<close> of \<open>v\<close> bytes lies in its blob.\<close>

definition packed_position :: "nat \<Rightarrow> nat \<Rightarrow> nat" where
  "packed_position v j = (j div 31) * 32 + scalar_padding (v div 31) (v mod 31) (j div 31) + j mod 31"

lemma div_mod_less: "(j :: nat) < v \<Longrightarrow> j div n < v div n \<or> (j div n = v div n \<and> j mod n < v mod n)"
  using div_le_mono [of j v n] div_mult_mod_eq [of j n] div_mult_mod_eq [of v n]
  by (metis add_less_cancel_left le_neq_implies_less less_imp_le)

lemma scalar_padding_start:
  assumes "j < v"
  shows "scalar_padding (v div 31) (v mod 31) (j div 31) = (if j div 31 = v div 31 \<and> v mod 31 \<noteq> 0 then 32 - v mod 31 else 1)"
    and "scalar_padding (v div 31) (v mod 31) (j div 31) + j mod 31 < 32"
proof -
  have "j div 31 < v div 31 \<or> (j div 31 = v div 31 \<and> j mod 31 < v mod 31)"
    using assms by (rule div_mod_less)
  then show "scalar_padding (v div 31) (v mod 31) (j div 31) = (if j div 31 = v div 31 \<and> v mod 31 \<noteq> 0 then 32 - v mod 31 else 1)"
    and "scalar_padding (v div 31) (v mod 31) (j div 31) + j mod 31 < 32"
    using mod_less_divisor [of 31 j] by (auto simp: scalar_padding_def)
qed

lemma length_chunk: "length (subarray (31 * s) (31 * s + 31) raw) = min 31 (length raw - 31 * s)"
  by (simp add: length_subarray)

lemma length_pack_scalar [simp]: "length chunk \<le> 32 \<Longrightarrow> length (pack_scalar chunk) = 32"
  by (simp add: pack_scalar_def)

lemma chunk_padding:
  "32 - length (subarray (31 * s) (31 * s + 31) raw) = scalar_padding (length raw div 31) (length raw mod 31) s"
proof -
  let ?v = "length raw"
  have v: "?v = 31 * (?v div 31) + ?v mod 31"
    by simp
  consider "s < ?v div 31" | "s = ?v div 31" | "?v div 31 < s"
    by linarith
  then show ?thesis
  proof cases
    case 1
    then have "31 * s + 31 \<le> ?v"
      using v by linarith
    with 1 show ?thesis
      by (simp add: length_chunk scalar_padding_def)
  next
    case 2
    then have "?v - 31 * s = ?v mod 31"
      by (simp add: minus_mult_div_eq_mod)
    with 2 show ?thesis
      by (auto simp: length_chunk scalar_padding_def)
  next
    case 3
    then have "?v \<le> 31 * s"
      using v mod_less_divisor [of 31 ?v] by linarith
    with 3 show ?thesis
      by (simp add: length_chunk scalar_padding_def)
  qed
qed

lemma length_pack_blob [simp]: "length (pack_blob raw) = 131072"
  unfolding pack_blob_def by (subst length_concat_uniform [where w = 32]) (auto simp: length_chunk)

lemma nth_pack_blob:
  assumes "s < 4096" "i < 32"
  shows "pack_blob raw ! (s * 32 + i) =
    (if i < scalar_padding (length raw div 31) (length raw mod 31) s then 0
     else raw ! (31 * s + (i - scalar_padding (length raw div 31) (length raw mod 31) s)))"
proof -
  let ?chunk = "subarray (31 * s) (31 * s + 31) raw"
  let ?pad = "scalar_padding (length raw div 31) (length raw mod 31) s"
  have "pack_blob raw ! (s * 32 + i) = pack_scalar ?chunk ! i"
    unfolding pack_blob_def using assms by (subst nth_concat_uniform [where w = 32]) (auto simp: length_chunk)
  also have "\<dots> = (if i < ?pad then 0 else ?chunk ! (i - ?pad))"
    by (simp add: pack_scalar_def nth_append chunk_padding)
  also have "?chunk ! (i - ?pad) = raw ! (31 * s + (i - ?pad))" if "\<not> i < ?pad"
  proof -
    have "length ?chunk \<le> 31"
      by (simp add: length_chunk)
    then have "i - ?pad < length ?chunk"
      using that assms(2) chunk_padding [of s raw] by linarith
    then have "i - ?pad < 31 \<and> i - ?pad < length raw - 31 * s"
      by (simp add: length_chunk)
    then have "i - ?pad < 31" "31 * s \<le> length raw"
      by linarith+
    then show ?thesis
      by (simp add: subarray_def)
  qed
  ultimately show ?thesis
    by simp
qed

lemma nth_pack_blob_position:
  assumes "j < length raw" "length raw \<le> 126976"
  shows "pack_blob raw ! packed_position (length raw) j = raw ! j"
proof -
  let ?pad = "scalar_padding (length raw div 31) (length raw mod 31) (j div 31)"
  have "j div 31 < 4096"
    using assms by (simp add: less_mult_imp_div_less)
  moreover have "?pad + j mod 31 < 32"
    by (rule scalar_padding_start(2) [OF assms(1)])
  ultimately show ?thesis
    unfolding packed_position_def using nth_pack_blob [of "j div 31" "?pad + j mod 31" raw] by (simp add: add.assoc)
qed


section \<open>The checks accept exactly the packings\<close>

lemma check_scalars_iff:
  "check_scalars encoded c r scalars = Inr () \<longleftrightarrow>
   (\<forall>s \<in> set scalars. \<forall>i. i = 0 \<or> i < scalar_padding c r s \<longrightarrow> encoded ! (s * 32 + i) = 0)"
proof (induction scalars)
  case (Cons a scalars)
  have one: "(encoded ! (a * 32) = 0 \<and> (\<forall>i \<in> {1..<n}. encoded ! (a * 32 + i) = 0)) \<longleftrightarrow> (\<forall>i. i = 0 \<or> i < n \<longrightarrow> encoded ! (a * 32 + i) = 0)" for n
  proof (intro iffI allI impI)
    fix i
    assume "encoded ! (a * 32) = 0 \<and> (\<forall>i \<in> {1..<n}. encoded ! (a * 32 + i) = 0)" "i = 0 \<or> i < n"
    then show "encoded ! (a * 32 + i) = 0"
      by (cases "i = 0") simp_all
  qed auto
  show ?case
    using Cons one [of "scalar_padding c r a"] by (simp add: Let_def list_ex_iff) blast
qed simp

lemma scalar_padding_pos: "0 < scalar_padding c (v mod 31) s"
proof -
  have "v mod 31 < 32"
    by (rule less_trans [of _ 31]) simp_all
  then show ?thesis
    by (simp add: scalar_padding_def)
qed

lemma packed_iff:
  assumes "length encoded = 131072" "v \<le> 126976"
  shows "check_scalars encoded (v div 31) (v mod 31) [0..<4096] = Inr () \<longleftrightarrow>
    encoded = pack_blob (map (\<lambda>j. encoded ! packed_position v j) [0..<v])"
    (is "?checked \<longleftrightarrow> encoded = pack_blob ?raw")
proof
  assume "encoded = pack_blob ?raw"
  then have nth: "encoded ! (s * 32 + i) = 0" if "s < 4096" "i < scalar_padding (v div 31) (v mod 31) s" for s i
  proof -
    have "i < 32"
      using that(2) by (auto simp: scalar_padding_def split: if_splits)
    then have "pack_blob ?raw ! (s * 32 + i) = 0"
      using nth_pack_blob [of s i ?raw] that by simp
    then show ?thesis
      using \<open>encoded = pack_blob ?raw\<close> by metis
  qed
  have "encoded ! (s * 32) = 0" if "s < 4096" for s
    using nth [OF that scalar_padding_pos] by simp
  with nth show ?checked
    by (simp add: check_scalars_iff)
next
  assume checked: ?checked
  show "encoded = pack_blob ?raw"
  proof (rule nth_equalityI)
    fix p
    assume "p < length encoded"
    define s i where "s = p div 32" and "i = p mod 32"
    have p: "p = s * 32 + i" "s < 4096" "i < 32"
      using \<open>p < length encoded\<close> assms(1) by (auto simp: s_def i_def less_mult_imp_div_less)
    let ?pad = "scalar_padding (v div 31) (v mod 31) s"
    show "encoded ! p = pack_blob ?raw ! p"
    proof (cases "i < ?pad")
      case True
      then show ?thesis
        using checked p nth_pack_blob [of s i ?raw] by (auto simp: check_scalars_iff)
    next
      case False
      define j where "j = 31 * s + (i - ?pad)"
      have j31: "i - ?pad < 31"
        using p(3) scalar_padding_pos [of "v div 31" v s] by linarith
      then have js: "j div 31 = s" "j mod 31 = i - ?pad"
        by (simp_all add: j_def)
      have "s < v div 31 \<or> (s = v div 31 \<and> i - ?pad < v mod 31)"
        using False p(3) by (auto simp: scalar_padding_def split: if_splits)
      then have "j < v"
        using j31 by (auto simp: j_def) (metis div_mod_decomp mult.commute nat_add_left_cancel_less
            add_less_mono le_less_trans less_eq_div_iff_mult_less_eq zero_less_numeral)+
      moreover have "packed_position v j = p"
        using False by (simp add: packed_position_def js p(1))
      ultimately show ?thesis
        using False p nth_pack_blob [of s i ?raw] by (simp add: j_def)
    qed
  qed (simp add: assms)
qed


section \<open>The copy loop\<close>

lemma subarray_as_map: "b \<le> length xs \<Longrightarrow> subarray a b xs = map (\<lambda>i. xs ! i) [a..<b]"
  by (rule nth_equalityI) (simp_all add: nth_subarray)

lemma packed_position_less:
  assumes "j < v" "v \<le> 126976"
  shows "packed_position v j < 131072"
proof -
  have "j div 31 < 4096"
    using assms by (simp add: less_mult_imp_div_less)
  moreover have "scalar_padding (v div 31) (v mod 31) (j div 31) + j mod 31 < 32"
    by (rule scalar_padding_start(2) [OF assms(1)])
  ultimately show ?thesis
    unfolding packed_position_def by linarith
qed

lemma packed_position_run:
  assumes "j mod 31 + k < 31"
  shows "packed_position v (j + k) = packed_position v j + k"
proof -
  have q: "(q * 31 + r) div 31 = q" "(q * 31 + r) mod 31 = r" if "r < 31" for q r :: nat
    using that by simp_all
  have "j + k = (j div 31) * 31 + (j mod 31 + k)"
    using div_mult_mod_eq [of j 31] by linarith
  then have "(j + k) div 31 = j div 31" "(j + k) mod 31 = j mod 31 + k"
    using q [OF assms, of "j div 31"] by metis+
  then show ?thesis
    by (simp add: packed_position_def)
qed

lemma copy_slice_map:
  assumes "length encoded = 131072" "v \<le> 126976" "off + len \<le> v"
  shows "copy_slice encoded (v div 31) (v mod 31) off len i = map (\<lambda>j. encoded ! packed_position v (off + j)) [i..<len]"
proof (induction "len - i" arbitrary: i rule: less_induct)
  case less
  show ?case
  proof (cases "i < len")
    case False
    then show ?thesis
      by (subst copy_slice.simps) simp
  next
    case True
    let ?at = "off + i"
    define count where "count = min (len - i) (31 - ?at mod 31)"
    have atv: "?at < v"
      using True assms(3) by linarith
    have "?at mod 31 < 31"
      by simp
    then have count: "0 < count" "count \<le> len - i" "?at mod 31 + count \<le> 31"
      using True by (auto simp: count_def)
    let ?start = "(?at div 31) * 32 + (if ?at div 31 = v div 31 \<and> v mod 31 \<noteq> 0 then 32 - v mod 31 else 1) + ?at mod 31"
    have start: "?start = packed_position v ?at"
      unfolding packed_position_def scalar_padding_start(1) [OF atv] ..
    have run: "packed_position v (?at + k) = packed_position v ?at + k" if "k < count" for k
      using that count by (intro packed_position_run) linarith
    have "packed_position v (?at + (count - 1)) < 131072"
      using count assms by (intro packed_position_less) linarith+
    with run [of "count - 1"] have "packed_position v ?at + count \<le> 131072"
      using count(1) by linarith
    then have "subarray ?start (?start + count) encoded = map (\<lambda>j. encoded ! j) [packed_position v ?at..<packed_position v ?at + count]"
      unfolding start using assms(1) by (simp add: subarray_as_map)
    also have "\<dots> = map (\<lambda>k. encoded ! packed_position v (?at + k)) [0..<count]"
      using run by (intro nth_equalityI) simp_all
    also have "\<dots> = map (\<lambda>j. encoded ! packed_position v (off + j)) [i..<i + count]"
      by (intro nth_equalityI) (simp_all add: add.assoc)
    finally have head: "subarray ?start (?start + count) encoded = map (\<lambda>j. encoded ! packed_position v (off + j)) [i..<i + count]" .
    have "copy_slice encoded (v div 31) (v mod 31) off len i
        = subarray ?start (?start + count) encoded @ copy_slice encoded (v div 31) (v mod 31) off len (i + count)"
      using True by (subst copy_slice.simps) (simp add: Let_def count_def)
    also have "\<dots> = map (\<lambda>j. encoded ! packed_position v (off + j)) ([i..<i + count] @ [i + count..<len])"
      using head less.hyps [of "i + count"] count True by simp
    also have "[i..<i + count] @ [i + count..<len] = [i..<len]"
      using upt_add_eq_append [of i "i + count" "len - (i + count)"] count True by simp
    finally show ?thesis .
  qed
qed


lemma decodeRetrievalSlice_Inr:
  "decodeRetrievalSlice encoded (num v) (num off) (num len) = Inr bs \<longleftrightarrow>
   v \<le> 126976 \<and> off + len \<le> v \<and> (\<exists>raw. length raw = v \<and> encoded = pack_blob raw \<and> bs = subarray off (off + len) raw)"
proof (cases "length encoded = 131072 \<and> v \<le> 126976 \<and> off + len \<le> v")
  case False
  then show ?thesis
    by (auto simp: decodeRetrievalSlice_def)
next
  case True
  define raw where "raw = map (\<lambda>j. encoded ! packed_position v j) [0..<v]"
  have "decodeRetrievalSlice encoded (num v) (num off) (num len)
      = sbind (check_scalars encoded (v div 31) (v mod 31) [0..<4096]) (\<lambda>_. Inr (copy_slice encoded (v div 31) (v mod 31) off len 0))"
    using True by (simp add: decodeRetrievalSlice_def Let_def)
  moreover have "copy_slice encoded (v div 31) (v mod 31) off len 0 = subarray off (off + len) raw"
    using True by (subst copy_slice_map) (auto intro!: nth_equalityI simp: nth_subarray raw_def)
  moreover have "check_scalars encoded (v div 31) (v mod 31) [0..<4096] = Inr () \<longleftrightarrow> encoded = pack_blob raw"
    unfolding raw_def using True by (intro packed_iff) simp_all
  moreover have "raw' = raw" if "length raw' = v" "encoded = pack_blob raw'" for raw'
    using that True nth_pack_blob_position [of _ raw'] by (auto intro!: nth_equalityI simp: raw_def)
  moreover have "length raw = v"
    by (simp add: raw_def)
  ultimately show ?thesis
    using True by (auto simp: sbind_eq_Inr)
qed

text \<open>Packing and reading a whole blob are inverse to each other.\<close>

definition pack_enc :: "nat \<Rightarrow> bytes \<Rightarrow> bytes result" where
  "pack_enc v raw = (if length raw = v \<and> v \<le> RAW_BLOB_BYTES then Inr (pack_blob raw) else Inl ''invalid packed range'')"

interpretation packing: canonical_codec "pack_enc v" "\<lambda>encoded. decodeRetrievalSlice encoded (num v) (num 0) (num v)" for v
  by unfold_locales (auto simp: pack_enc_def decodeRetrievalSlice_Inr subarray_whole)

text \<open>
  C9: Reading a slice accepts exactly the canonical packings. A slice of \<open>len\<close> bytes at \<open>off\<close>
  of a blob with \<open>v\<close> valid bytes is read if and only if the blob is the packing of some \<open>v\<close>
  bytes, at most 126976, and the slice lies within them; the result is then that slice of
  those bytes, which the blob determines. So a blob with any other byte set is refused.
\<close>

theorem packed_slice_exact:
  "(decodeRetrievalSlice encoded (num v) (num off) (num len) = Inr bs \<longleftrightarrow>
      v \<le> RAW_BLOB_BYTES \<and> off + len \<le> v
      \<and> (\<exists>raw. length raw = v \<and> encoded = pack_blob raw \<and> bs = subarray off (off + len) raw))
   \<and> (length raw = length raw' \<and> length raw \<le> RAW_BLOB_BYTES \<and> pack_blob raw = pack_blob raw' \<longrightarrow> raw = raw')"
proof -
  have "raw = raw'" if "length raw = length raw'" "length raw \<le> RAW_BLOB_BYTES" "pack_blob raw = pack_blob raw'"
    using packing.enc_inject [of "length raw" raw "pack_blob raw" raw'] that by (simp add: pack_enc_def)
  then show ?thesis
    using decodeRetrievalSlice_Inr [of encoded v off len bs] by auto
qed

theorem packed_slice_exact_witness:
  "decodeRetrievalSlice (pack_blob [1, 2, 3]) (num 3) (num 1) (num 2) = Inr [2, 3]"
proof -
  have "\<exists>raw. length raw = 3 \<and> pack_blob [1, 2, 3] = pack_blob raw \<and> [2, 3] = subarray 1 (1 + 2) raw"
    by (rule exI [of _ "[1, 2, 3]"]) (simp add: subarray_def)
  then show ?thesis
    using packed_slice_exact [of "pack_blob [1, 2, 3]" 3 1 2 "[2, 3]" "[]" "[]"] by simp
qed


section \<open>Allocation\<close>

text \<open>
  \<open>validateRetrievalAllocation\<close>: every extent starts at an MDU, after the MDUs of the extents
  before it. The sort is stable, by start.
\<close>

fun allocation_loop :: "nat \<Rightarrow> int \<Rightarrow> retrieval_file list \<Rightarrow> unit result" where
  "allocation_loop userMdus end_pos [] = Inr ()"
| "allocation_loop userMdus end_pos (file # files) =
     (if rf_start_offset file mod int RAW_MDU \<noteq> 0 \<or> rf_start_offset file < end_pos
         \<or> rf_start_offset file + rf_size_bytes file > int userMdus * int RAW_MDU
      then Inl ''unsupported or ambiguous packed allocation before payment''
      else allocation_loop userMdus ((rf_start_offset file + rf_size_bytes file + int RAW_MDU - 1) div int RAW_MDU * int RAW_MDU) files)"

definition validateRetrievalAllocation :: "pinned_generation \<Rightarrow> retrieval_file list \<Rightarrow> unit result" where
  "validateRetrievalAllocation pin records =
     allocation_loop (pg_userMdus pin) 0 (sort_key rf_start_offset (filter (\<lambda>r. rf_size_bytes r > 0) records))"

lemma allocation_loop_extent:
  assumes "allocation_loop n e files = Inr ()" "file \<in> set files"
  shows "rf_start_offset file mod int RAW_MDU = 0" "rf_start_offset file + rf_size_bytes file \<le> int n * int RAW_MDU"
  using assms by (induction n e files rule: allocation_loop.induct) auto

lemma allocation_loop_start:
  assumes "allocation_loop n e files = Inr ()" "file \<in> set files" "\<forall>f \<in> set files. rf_size_bytes f > 0"
  shows "e \<le> rf_start_offset file"
  using assms
proof (induction n e files rule: allocation_loop.induct)
  case (2 n e f files)
  let ?e = "(rf_start_offset f + rf_size_bytes f + int RAW_MDU - 1) div int RAW_MDU * int RAW_MDU"
  have "e \<le> rf_start_offset f" "allocation_loop n ?e files = Inr ()" "0 < rf_size_bytes f"
    using "2.prems" by auto
  moreover have "rf_start_offset f \<le> ?e"
    using \<open>0 < rf_size_bytes f\<close> div_mult_mod_eq [of "rf_start_offset f + rf_size_bytes f + int RAW_MDU - 1" "int RAW_MDU"]
      pos_mod_bound [of "int RAW_MDU" "rf_start_offset f + rf_size_bytes f + int RAW_MDU - 1"] by simp
  ultimately show ?case
    using "2.IH" "2.prems" by auto
qed simp

lemma validateRetrievalAllocation_extent:
  assumes "validateRetrievalAllocation pin records = Inr ()" "file \<in> set records" "rf_size_bytes file > 0"
  shows "rf_start_offset file mod int RAW_MDU = 0" "0 \<le> rf_start_offset file"
    "rf_start_offset file + rf_size_bytes file \<le> int (pg_userMdus pin) * int RAW_MDU"
proof -
  let ?files = "sort_key rf_start_offset (filter (\<lambda>r. rf_size_bytes r > 0) records)"
  have run: "allocation_loop (pg_userMdus pin) 0 ?files = Inr ()" and mem: "file \<in> set ?files"
    using assms by (simp_all add: validateRetrievalAllocation_def)
  show "rf_start_offset file mod int RAW_MDU = 0" "rf_start_offset file + rf_size_bytes file \<le> int (pg_userMdus pin) * int RAW_MDU"
    by (rule allocation_loop_extent [OF run mem])+
  show "0 \<le> rf_start_offset file"
    by (rule allocation_loop_start [OF run mem]) simp
qed

text \<open>
  \<open>validateRetrievalMduPacking\<close>: every blob of an MDU is the packing of the bytes that the
  file covering its start has there, or of none.
\<close>

definition packing_valid_length :: "retrieval_file list \<Rightarrow> int \<Rightarrow> int" where
  "packing_valid_length records start =
     (case find (\<lambda>r. rf_size_bytes r > 0 \<and> rf_start_offset r \<le> start \<and> rf_start_offset r + rf_size_bytes r > start) records of
        Some file \<Rightarrow> min (int RAW_BLOB_BYTES) (rf_start_offset file + rf_size_bytes file - start)
      | None \<Rightarrow> 0)"

fun packing_loop :: "retrieval_file list \<Rightarrow> int \<Rightarrow> bytes \<Rightarrow> nat list \<Rightarrow> unit result" where
  "packing_loop records ordinal mdu [] = Inr ()"
| "packing_loop records ordinal mdu (blob # blobs) =
     (let start = ordinal * int RAW_MDU + int (blob * RAW_BLOB_BYTES);
          valid = packing_valid_length records start
      in sbind (decodeRetrievalSlice (subarray (blob * 131072) ((blob + 1) * 131072) mdu) (Fin (of_int valid)) (num 0) (num 0)) (\<lambda>_.
         packing_loop records ordinal mdu blobs))"

definition validateRetrievalMduPacking :: "pinned_generation \<Rightarrow> retrieval_file list \<Rightarrow> int \<Rightarrow> bytes \<Rightarrow> unit result" where
  "validateRetrievalMduPacking pin records ordinal mdu =
     (if ordinal < 0 \<or> ordinal \<ge> int (pg_userMdus pin) \<or> length mdu \<noteq> 8388608 then Inl ''invalid retrieved MDU''
      else packing_loop records ordinal mdu [0..<64])"

lemma packing_valid_bounds: "0 \<le> packing_valid_length records start" "packing_valid_length records start \<le> 126976"
  by (auto simp: packing_valid_length_def find_Some_iff split: option.split)

lemma packing_loop_iff:
  "packing_loop records ordinal mdu blobs = Inr () \<longleftrightarrow>
   (\<forall>blob \<in> set blobs. \<exists>raw. int (length raw) = packing_valid_length records (ordinal * int RAW_MDU + int (blob * RAW_BLOB_BYTES))
      \<and> subarray (blob * 131072) ((blob + 1) * 131072) mdu = pack_blob raw)"
proof (induction blobs)
  case (Cons blob blobs)
  let ?valid = "packing_valid_length records (ordinal * int RAW_MDU + int (blob * RAW_BLOB_BYTES))"
  let ?encoded = "subarray (blob * 131072) ((blob + 1) * 131072) mdu"
  have v: "Fin (of_int ?valid) = num (nat ?valid)" "nat ?valid \<le> 126976"
    using packing_valid_bounds [of records "ordinal * int RAW_MDU + int (blob * RAW_BLOB_BYTES)"] by (simp_all add: num_def)
  have len: "int (length raw) = ?valid \<longleftrightarrow> length raw = nat ?valid" for raw :: bytes
    using packing_valid_bounds(1) [of records "ordinal * int RAW_MDU + int (blob * RAW_BLOB_BYTES)"] by linarith
  have "(\<exists>x. decodeRetrievalSlice ?encoded (Fin (of_int ?valid)) (num 0) (num 0) = Inr x)
      \<longleftrightarrow> (\<exists>raw. int (length raw) = ?valid \<and> ?encoded = pack_blob raw)"
    unfolding v(1) decodeRetrievalSlice_Inr len using v(2) by auto
  then show ?case
    using Cons by (auto simp: Let_def sbind_eq_Inr simp del: raw_values)
qed simp

end
