(* ===== verification/RetrievalFlow.thy ===== *)
theory RetrievalFlow
  imports RetrievalPacking RetrievalSession PolyfsLocal "HOL-Library.Sublist"
begin

text \<open>
  From windows to output (\<open>lib/retrievalFlow.ts\<close>): the verified bytes of a window become
  writes to the output file, and windows are opened, fetched, consumed and confirmed in
  waves. The ports of the executor may answer anything, depending on all that happened
  before; what they are asked and what they answer is the trace of a run.
\<close>


section \<open>Decoding a window\<close>

definition decodeRetrievalOutput ::
  "pinned_generation \<Rightarrow> retrieval_file \<Rightarrow> retrieval_window \<Rightarrow> bytes \<Rightarrow> (nat \<times> bytes) list result" where
  "decodeRetrievalOutput pin file window bytes =
     (if length bytes \<noteq> rw_blobCount window * 131072 \<or> length (rw_slices window) \<noteq> rw_blobCount window
      then Inl ''incomplete encoded output''
      else
        let mduStart = (int (rw_mduIndex window) - int (pg_metadataMdus pin)) * int RAW_MDU
        in smap (\<lambda>(slice, i).
             let blobStart = mduStart + int (sl_encodedBlobIndex slice * RAW_BLOB_BYTES);
                 remaining = rf_start_offset file + rf_size_bytes file - blobStart;
                 validLength = (if remaining < int RAW_BLOB_BYTES then remaining else int RAW_BLOB_BYTES)
             in sbind (decodeRetrievalSlice (subarray (i * 131072) ((i + 1) * 131072) bytes) (Fin (of_int validLength))
                         (num (sl_rawOffset slice)) (num (sl_length slice))) (\<lambda>b. Inr (sl_outputOffset slice, b)))
             (zip (rw_slices window) [0..<length (rw_slices window)]))"


section \<open>The output is the requested range\<close>

text \<open>
  Applying writes to a buffer. If every write agrees with a target and together they cover
  it, the buffer becomes the target, in whatever order they come.
\<close>

definition apply_writes :: "(nat \<times> bytes) list \<Rightarrow> bytes \<Rightarrow> bytes" where
  "apply_writes writes buf = foldl (\<lambda>b (off, bs). set_bytes bs off b) buf writes"

lemma length_set_bytes: "off + length bs \<le> length buf \<Longrightarrow> length (set_bytes bs off buf) = length buf"
  by (simp add: set_bytes_def)

lemma nth_set_bytes:
  "off + length bs \<le> length buf \<Longrightarrow> x < length buf \<Longrightarrow>
   set_bytes bs off buf ! x = (if off \<le> x \<and> x < off + length bs then bs ! (x - off) else buf ! x)"
  by (auto simp: set_bytes_def nth_append min_def)

lemma apply_writes_nth:
  assumes "\<forall>(off, bs) \<in> set writes. off + length bs \<le> length target \<and> bs = subarray off (off + length bs) target"
    and "length buf = length target"
  shows "length (apply_writes writes buf) = length target
    \<and> (\<forall>x < length target. apply_writes writes buf ! x =
         (if \<exists>(off, bs) \<in> set writes. off \<le> x \<and> x < off + length bs then target ! x else buf ! x))"
  using assms
proof (induction writes arbitrary: buf)
  case (Cons w writes)
  obtain off bs where w: "w = (off, bs)"
    by (cases w)
  have off: "off + length bs \<le> length target" and bs: "bs = subarray off (off + length bs) target"
    using Cons.prems(1) by (auto simp: w)
  have len: "length (set_bytes bs off buf) = length target"
    using off Cons.prems(2) by (simp add: length_set_bytes)
  have nth: "set_bytes bs off buf ! x = (if off \<le> x \<and> x < off + length bs then target ! x else buf ! x)" if "x < length target" for x
  proof -
    have "bs ! (x - off) = target ! x" if "off \<le> x" "x < off + length bs"
      using that off by (subst bs) (simp add: nth_subarray)
    then show ?thesis
      using nth_set_bytes [of off bs buf x] off Cons.prems(2) that by simp
  qed
  have "apply_writes (w # writes) buf = apply_writes writes (set_bytes bs off buf)"
    by (simp add: apply_writes_def w)
  moreover have "\<forall>(off, bs) \<in> set writes. off + length bs \<le> length target \<and> bs = subarray off (off + length bs) target"
    using Cons.prems(1) by simp
  note Cons.IH [OF this len]
  ultimately show ?case
    using nth by (auto simp: w)
qed (simp add: apply_writes_def)

lemma apply_writes_target:
  assumes "\<forall>(off, bs) \<in> set writes. off + length bs \<le> length target \<and> bs = subarray off (off + length bs) target"
    and "length buf = length target"
    and "\<And>x. x < length target \<Longrightarrow> \<exists>(off, bs) \<in> set writes. off \<le> x \<and> x < off + length bs"
  shows "apply_writes writes buf = target"
  using apply_writes_nth [OF assms(1,2)] assms(3) by (intro nth_equalityI) auto

text \<open>The blob of a file at position \<open>p\<close> of its content, and what a window should be answered with.\<close>

definition stored_blob :: "bytes \<Rightarrow> nat \<Rightarrow> bytes" where
  "stored_blob content p = pack_blob (subarray p (p + RAW_BLOB_BYTES) content)"

definition window_served :: "pinned_generation \<Rightarrow> retrieval_file \<Rightarrow> bytes \<Rightarrow> retrieval_window \<Rightarrow> bytes \<Rightarrow> bool" where
  "window_served pin file content w bytes \<longleftrightarrow>
     length bytes = rw_blobCount w * 131072
     \<and> (\<forall>i < length (rw_slices w). subarray (i * 131072) ((i + 1) * 131072) bytes
          = stored_blob content ((rw_mduIndex w - pg_metadataMdus pin) * RAW_MDU
              + sl_encodedBlobIndex (rw_slices w ! i) * RAW_BLOB_BYTES - nat (rf_start_offset file)))"

lemma slice_position:
  assumes "slice_ok pin (s * RAW_MDU + r) w sl" "mdu = rw_mduIndex w - pg_metadataMdus pin"
  shows "s * RAW_MDU \<le> mdu * RAW_MDU + sl_encodedBlobIndex sl * RAW_BLOB_BYTES"
    and "mdu * RAW_MDU + sl_encodedBlobIndex sl * RAW_BLOB_BYTES + sl_rawOffset sl = s * RAW_MDU + r + sl_outputOffset sl"
proof -
  show eq: "mdu * RAW_MDU + sl_encodedBlobIndex sl * RAW_BLOB_BYTES + sl_rawOffset sl = s * RAW_MDU + r + sl_outputOffset sl"
    using assms by (simp add: slice_ok_def)
  have "sl_rawOffset sl < RAW_BLOB_BYTES"
    using assms(1) by (simp add: slice_ok_def)
  with eq have "s * 64 * RAW_BLOB_BYTES < (mdu * 64 + sl_encodedBlobIndex sl + 1) * RAW_BLOB_BYTES"
    by simp
  then have "s * 64 < mdu * 64 + sl_encodedBlobIndex sl + 1"
    by (metis mult_less_cancel2)
  then show "s * RAW_MDU \<le> mdu * RAW_MDU + sl_encodedBlobIndex sl * RAW_BLOB_BYTES"
    by simp
qed

lemma subarray_subarray:
  "a \<le> b \<Longrightarrow> p + b \<le> q \<Longrightarrow> subarray a b (subarray p q xs) = subarray (p + a) (p + b) xs"
  by (simp add: subarray_def drop_take min_def add.commute)

lemma decode_stored_slice:
  assumes ok: "slice_ok pin (s * RAW_MDU + r) w sl" and fits: "r + sl_outputOffset sl + sl_length sl \<le> length content"
    and p: "p = (rw_mduIndex w - pg_metadataMdus pin) * RAW_MDU + sl_encodedBlobIndex sl * RAW_BLOB_BYTES - s * RAW_MDU"
    and v: "v = min RAW_BLOB_BYTES (length content - p)"
  shows "decodeRetrievalSlice (stored_blob content p) (num v) (num (sl_rawOffset sl)) (num (sl_length sl))
    = Inr (subarray (r + sl_outputOffset sl) (r + sl_outputOffset sl + sl_length sl) content)"
proof -
  have at: "p + sl_rawOffset sl = r + sl_outputOffset sl"
    using slice_position [OF ok refl] unfolding p by linarith
  have blob: "sl_rawOffset sl + sl_length sl \<le> RAW_BLOB_BYTES"
    using ok by (simp add: slice_ok_def)
  let ?raw = "subarray p (p + RAW_BLOB_BYTES) content"
  have "length ?raw = v"
    by (simp add: v length_subarray)
  moreover have "sl_rawOffset sl + sl_length sl \<le> v" "v \<le> 126976"
    using at blob fits unfolding v by simp_all
  moreover have "subarray (r + sl_outputOffset sl) (r + sl_outputOffset sl + sl_length sl) content
      = subarray (sl_rawOffset sl) (sl_rawOffset sl + sl_length sl) ?raw"
    using blob at [symmetric] by (subst subarray_subarray) (simp_all add: add.assoc)
  ultimately show ?thesis
    unfolding decodeRetrievalSlice_Inr stored_blob_def by blast
qed

definition slice_write :: "nat \<Rightarrow> bytes \<Rightarrow> window_slice \<Rightarrow> nat \<times> bytes" where
  "slice_write r content sl =
     (sl_outputOffset sl, subarray (r + sl_outputOffset sl) (r + sl_outputOffset sl + sl_length sl) content)"

lemma decode_served_window:
  assumes ok: "window_ok pin allow (s * RAW_MDU + r) w"
    and rf: "rf_start_offset file = int (s * RAW_MDU)" "rf_size_bytes file = int (length content)"
    and fits: "\<forall>sl \<in> set (rw_slices w). r + sl_outputOffset sl + sl_length sl \<le> length content"
    and served: "window_served pin file content w bytes"
  shows "decodeRetrievalOutput pin file w bytes = Inr (map (slice_write r content) (rw_slices w))"
proof -
  let ?f = "\<lambda>(slice, i).
     let blobStart = (int (rw_mduIndex w) - int (pg_metadataMdus pin)) * int RAW_MDU + int (sl_encodedBlobIndex slice * RAW_BLOB_BYTES);
         remaining = rf_start_offset file + rf_size_bytes file - blobStart;
         validLength = (if remaining < int RAW_BLOB_BYTES then remaining else int RAW_BLOB_BYTES)
     in sbind (decodeRetrievalSlice (subarray (i * 131072) ((i + 1) * 131072) bytes) (Fin (of_int validLength))
                 (num (sl_rawOffset slice)) (num (sl_length slice))) (\<lambda>b. Inr (sl_outputOffset slice, b))"
  have len: "length (rw_slices w) = rw_blobCount w" "length bytes = rw_blobCount w * 131072"
    using ok served by (simp_all add: window_ok_def window_served_def)
  have "?f x = Inr (slice_write r content (fst x))" if x: "x \<in> set (zip (rw_slices w) [0..<length (rw_slices w)])" for x
  proof -
    obtain i where i: "i < length (rw_slices w)" "x = (rw_slices w ! i, i)"
      using x by (auto simp: in_set_zip)
    define sl where "sl = rw_slices w ! i"
    define p where "p = (rw_mduIndex w - pg_metadataMdus pin) * RAW_MDU + sl_encodedBlobIndex sl * RAW_BLOB_BYTES - s * RAW_MDU"
    define v where "v = min RAW_BLOB_BYTES (length content - p)"
    have sl: "slice_ok pin (s * RAW_MDU + r) w sl" "r + sl_outputOffset sl + sl_length sl \<le> length content"
      using ok fits i(1) unfolding sl_def window_ok_def by auto
    have mdu: "pg_metadataMdus pin \<le> rw_mduIndex w" "0 < sl_length sl"
      using sl(1) by (simp_all add: slice_ok_def)
    have pos: "s * RAW_MDU \<le> (rw_mduIndex w - pg_metadataMdus pin) * RAW_MDU + sl_encodedBlobIndex sl * RAW_BLOB_BYTES"
        "p + sl_rawOffset sl = r + sl_outputOffset sl"
      using slice_position [OF sl(1) refl] unfolding p_def by linarith+
    have start: "(int (rw_mduIndex w) - int (pg_metadataMdus pin)) * int RAW_MDU + int (sl_encodedBlobIndex sl * RAW_BLOB_BYTES)
        = int p + int (s * RAW_MDU)"
      using pos(1) mdu(1) unfolding p_def by (simp only: of_nat_diff of_nat_add of_nat_mult)
    have rem: "rf_start_offset file + rf_size_bytes file - (int p + int (s * RAW_MDU)) = int (length content - p)"
      using pos(2) sl(2) mdu(2) by (simp add: rf of_nat_diff)
    have valid: "(if int (length content - p) < int RAW_BLOB_BYTES then int (length content - p) else int RAW_BLOB_BYTES) = int v"
      unfolding v_def by simp
    have blob: "subarray (i * 131072) ((i + 1) * 131072) bytes = stored_blob content p"
      using served i(1) unfolding window_served_def p_def sl_def rf(1) nat_int by blast
    show ?thesis
      unfolding i(2) sl_def [symmetric] prod.case Let_def start rem valid blob fst_conv of_int_of_nat_eq num_def [symmetric]
        decode_stored_slice [OF sl p_def v_def] by (simp add: slice_write_def)
  qed
  then have "smap ?f (zip (rw_slices w) [0..<length (rw_slices w)])
      = Inr (map (\<lambda>x. slice_write r content (fst x)) (zip (rw_slices w) [0..<length (rw_slices w)]))"
    by (rule smap_total)
  also have "map (\<lambda>x. slice_write r content (fst x)) (zip (rw_slices w) [0..<length (rw_slices w)])
      = map (slice_write r content) (rw_slices w)"
    by (rule nth_equalityI) simp_all
  finally show ?thesis
    using len by (simp add: decodeRetrievalOutput_def Let_def)
qed

lemma slice_writes_exact:
  assumes ss: "mset slices = mset ss" "tiles 0 len (map piece ss)" and fits: "r + len \<le> length content" and buf: "length buf = len"
  shows "apply_writes (map (slice_write r content) slices) buf = subarray r (r + len) content"
proof (rule apply_writes_target)
  have target: "length (subarray r (r + len) content) = len"
    using fits by simp
  have set: "set slices = set ss"
    using ss(1) by (rule mset_eq_setD)
  have bound: "sl_outputOffset sl + sl_length sl \<le> len" if "sl \<in> set slices" for sl
    using tiles_bounds [OF ss(2), of "sl_outputOffset sl" "sl_length sl"] that by (auto simp: piece_def set)
  show "\<forall>(off, bs) \<in> set (map (slice_write r content) slices).
      off + length bs \<le> length (subarray r (r + len) content) \<and> bs = subarray off (off + length bs) (subarray r (r + len) content)"
  proof (clarsimp simp only: target set_map)
    fix off bs sl
    assume sl: "sl \<in> set slices" "(off, bs) = slice_write r content sl"
    have "bs = subarray (r + off) (r + off + sl_length sl) content" "off = sl_outputOffset sl"
      using sl(2) by (simp_all add: slice_write_def)
    moreover have "length bs = sl_length sl"
      using calculation bound [OF sl(1)] fits by simp
    ultimately show "off + length bs \<le> len \<and> bs = subarray off (off + length bs) (subarray r (r + len) content)"
      using bound [OF sl(1)] by (simp add: subarray_subarray add.assoc)
  qed
  show "length buf = length (subarray r (r + len) content)"
    by (simp add: target buf)
  show "\<exists>(off, bs) \<in> set (map (slice_write r content) slices). off \<le> x \<and> x < off + length bs"
    if x: "x < length (subarray r (r + len) content)" for x
  proof -
    obtain sl where sl: "sl \<in> set slices" "sl_outputOffset sl \<le> x" "x < sl_outputOffset sl + sl_length sl"
      using tiles_cover [OF ss(2), of x] x by (auto simp: piece_def set target)
    moreover have "length (snd (slice_write r content sl)) = sl_length sl"
      using bound [OF sl(1)] fits by (simp add: slice_write_def)
    ultimately show ?thesis
      by (force simp: slice_write_def)
  qed
qed


section \<open>Executing windows in waves\<close>

text \<open>
  The calls a run makes to its ports, with their answers, in order. Every port sees the
  calls made so far, so an adversarial or failing port is just another function;
  \<open>fp_aborted\<close> is \<open>signal.reason\<close> once the signal has been aborted.
\<close>

datatype flow_event =
    Opened "retrieval_window list" "frozen_session list result"
  | Fetched frozen_session "bytes result"
  | Consumed retrieval_window bytes "unit result"
  | Progressed nat nat "unit result"
  | Flushed "unit result"
  | Confirmed "frozen_session list" "unit result"

type_synonym flow_trace = "flow_event list"

record retrieval_flow =
  fp_open :: "flow_trace \<Rightarrow> retrieval_window list \<Rightarrow> frozen_session list result"
  fp_fetchAndVerify :: "flow_trace \<Rightarrow> frozen_session \<Rightarrow> bytes result"
  fp_consume :: "flow_trace \<Rightarrow> retrieval_window \<Rightarrow> bytes \<Rightarrow> unit result"
  fp_flush :: "flow_trace \<Rightarrow> unit result"
  fp_confirm :: "flow_trace \<Rightarrow> frozen_session list \<Rightarrow> unit result"
  fp_progress :: "(flow_trace \<Rightarrow> nat \<Rightarrow> nat \<Rightarrow> unit result) option"
  fp_aborted :: "flow_trace \<Rightarrow> string option"

type_synonym 'a flow_run = "flow_trace \<times> 'a result"

definition fbind :: "'a flow_run \<Rightarrow> ('a \<Rightarrow> flow_trace \<Rightarrow> 'b flow_run) \<Rightarrow> 'b flow_run" where
  "fbind r f = (case snd r of Inl e \<Rightarrow> (fst r, Inl e) | Inr x \<Rightarrow> f x (fst r))"

definition throwIfAborted :: "retrieval_flow \<Rightarrow> flow_trace \<Rightarrow> unit flow_run" where
  "throwIfAborted flow tr = (tr, case fp_aborted flow tr of None \<Rightarrow> Inr () | Some reason \<Rightarrow> Inl reason)"

definition flow_open :: "retrieval_flow \<Rightarrow> retrieval_window list \<Rightarrow> flow_trace \<Rightarrow> frozen_session list flow_run" where
  "flow_open flow wave tr = (let r = fp_open flow tr wave in (tr @ [Opened wave r], r))"

definition flow_fetchAndVerify :: "retrieval_flow \<Rightarrow> frozen_session \<Rightarrow> flow_trace \<Rightarrow> bytes flow_run" where
  "flow_fetchAndVerify flow session tr = (let r = fp_fetchAndVerify flow tr session in (tr @ [Fetched session r], r))"

definition flow_consume :: "retrieval_flow \<Rightarrow> retrieval_window \<Rightarrow> bytes \<Rightarrow> flow_trace \<Rightarrow> unit flow_run" where
  "flow_consume flow window bytes tr = (let r = fp_consume flow tr window bytes in (tr @ [Consumed window bytes r], r))"

definition flow_flush :: "retrieval_flow \<Rightarrow> flow_trace \<Rightarrow> unit flow_run" where
  "flow_flush flow tr = (let r = fp_flush flow tr in (tr @ [Flushed r], r))"

definition flow_confirm :: "retrieval_flow \<Rightarrow> frozen_session list \<Rightarrow> flow_trace \<Rightarrow> unit flow_run" where
  "flow_confirm flow sessions tr = (let r = fp_confirm flow tr sessions in (tr @ [Confirmed sessions r], r))"

definition flow_progress :: "retrieval_flow \<Rightarrow> nat \<Rightarrow> nat \<Rightarrow> flow_trace \<Rightarrow> unit flow_run" where
  "flow_progress flow completed encodedBytes tr =
     (case fp_progress flow of
        None \<Rightarrow> (tr, Inr ())
      | Some progress \<Rightarrow> let r = progress tr completed encodedBytes in (tr @ [Progressed completed encodedBytes r], r))"

definition window_matches :: "frozen_session \<Rightarrow> retrieval_window \<Rightarrow> bool" where
  "window_matches s w \<longleftrightarrow>
     rw_mduIndex (fs_window s) = rw_mduIndex w \<and> rw_startBlobIndex (fs_window s) = rw_startBlobIndex w
     \<and> rw_blobCount (fs_window s) = rw_blobCount w \<and> rw_provider (fs_window s) = rw_provider w"

text \<open>The inner loop over the sessions of a wave, with the two running totals.\<close>

fun wave_loop ::
  "retrieval_flow \<Rightarrow> (frozen_session \<times> retrieval_window) list \<Rightarrow> nat \<times> nat \<Rightarrow> flow_trace \<Rightarrow> (nat \<times> nat) flow_run" where
  "wave_loop flow [] totals tr = (tr, Inr totals)"
| "wave_loop flow ((session, window) # pairs) (completed, encodedBytes) tr =
     fbind (throwIfAborted flow tr) (\<lambda>_ tr.
     fbind (flow_fetchAndVerify flow session tr) (\<lambda>bytes tr.
     fbind (throwIfAborted flow tr) (\<lambda>_ tr.
     fbind (flow_consume flow window bytes tr) (\<lambda>_ tr.
     fbind (flow_progress flow (completed + 1) (encodedBytes + length bytes) tr) (\<lambda>_ tr.
     wave_loop flow pairs (completed + 1, encodedBytes + length bytes) tr)))))"

definition run_wave :: "retrieval_flow \<Rightarrow> retrieval_window list \<Rightarrow> nat \<times> nat \<Rightarrow> flow_trace \<Rightarrow> (nat \<times> nat) flow_run" where
  "run_wave flow wave totals tr =
     fbind (throwIfAborted flow tr) (\<lambda>_ tr.
     fbind (flow_open flow wave tr) (\<lambda>sessions tr.
       if length sessions \<noteq> length wave \<or> \<not> list_all2 window_matches sessions wave
       then (tr, Inl ''opened windows do not match requested order'')
       else
         fbind (wave_loop flow (zip sessions wave) totals tr) (\<lambda>totals tr.
         fbind (flow_flush flow tr) (\<lambda>_ tr.
         fbind (throwIfAborted flow tr) (\<lambda>_ tr.
         fbind (flow_confirm flow sessions tr) (\<lambda>_ tr. (tr, Inr totals)))))))"

text \<open>
  The iterable is the windows it yields and the exception it ends with, if any, as
  \<open>planRetrievalWindows\<close> gives them. A wave is filled before it is opened, so an exception
  of the iterator is raised by the wave that reaches it.
\<close>

function wave_rounds ::
  "nat \<Rightarrow> retrieval_flow \<Rightarrow> retrieval_window list \<Rightarrow> string option \<Rightarrow> nat \<times> nat \<Rightarrow> flow_trace \<Rightarrow> unit flow_run" where
  "wave_rounds limit flow windows err totals tr =
     (case (if length windows < limit then err else None) of
        Some e \<Rightarrow> (tr, Inl e)
      | None \<Rightarrow>
          if limit = 0 \<or> windows = [] then (tr, Inr ())
          else fbind (run_wave flow (take limit windows) totals tr) (\<lambda>totals tr.
               wave_rounds limit flow (drop limit windows) err totals tr))"
  by pat_completeness auto
termination by (relation "measure (\<lambda>(limit, flow, windows, err, totals, tr). length windows)") auto

declare wave_rounds.simps [simp del]

definition executeRetrievalWindows ::
  "retrieval_window list \<times> string option \<Rightarrow> retrieval_flow \<Rightarrow> jsnum \<Rightarrow> unit flow_run" where
  "executeRetrievalWindows windows flow waveLimit =
     (if \<not> isSafeInteger waveLimit \<or> js_less waveLimit 1 \<or> js_floor waveLimit > 64 then ([], Inl ''invalid wave bound'')
      else wave_rounds (nat (js_floor waveLimit)) flow (fst windows) (snd windows) (0, 0) [])"


section \<open>Confirmation comes last\<close>

text \<open>What a complete wave leaves in the trace, up to the calls that only report progress.\<close>

fun is_progress :: "flow_event \<Rightarrow> bool" where
  "is_progress (Progressed _ _ _) = True"
| "is_progress _ = False"

abbreviation effects :: "flow_trace \<Rightarrow> flow_trace" where
  "effects tr \<equiv> filter (\<lambda>e. \<not> is_progress e) tr"

record wave_log =
  wl_windows :: "retrieval_window list"
  wl_sessions :: "frozen_session list"
  wl_data :: "bytes list"

definition served_events :: "(frozen_session \<times> retrieval_window) list \<Rightarrow> bytes list \<Rightarrow> flow_trace" where
  "served_events pairs datas =
     concat (map (\<lambda>((s, w), b). [Fetched s (Inr b), Consumed w b (Inr ())]) (zip pairs datas))"

definition durable_events :: "wave_log \<Rightarrow> flow_trace" where
  "durable_events x =
     Opened (wl_windows x) (Inr (wl_sessions x)) # served_events (zip (wl_sessions x) (wl_windows x)) (wl_data x) @ [Flushed (Inr ())]"

definition wave_ok :: "nat \<Rightarrow> wave_log \<Rightarrow> bool" where
  "wave_ok limit x \<longleftrightarrow>
     0 < length (wl_windows x) \<and> length (wl_windows x) \<le> limit \<and> length (wl_data x) = length (wl_windows x)
     \<and> list_all2 window_matches (wl_sessions x) (wl_windows x)"

lemma wave_ok_mono: "wave_ok limit x \<Longrightarrow> limit \<le> limit' \<Longrightarrow> wave_ok limit' x"
  by (simp add: wave_ok_def)

fun is_confirm :: "flow_event \<Rightarrow> bool" where
  "is_confirm (Confirmed _ _) = True"
| "is_confirm _ = False"

lemmas flow_calls = fbind_def throwIfAborted_def flow_open_def flow_fetchAndVerify_def flow_consume_def flow_flush_def
  flow_confirm_def flow_progress_def Let_def

lemma served_events_Cons:
  "served_events ((s, w) # pairs) (b # datas) = Fetched s (Inr b) # Consumed w b (Inr ()) # served_events pairs datas"
  by (simp add: served_events_def)

lemma served_events_confirm: "\<not> list_ex is_confirm (served_events pairs datas)"
  by (auto simp: served_events_def list_ex_iff)

text \<open>One pass of the inner loop either fails or leaves the fetch and the write, both successful.\<close>

lemma wave_loop_step:
  assumes "wave_loop flow ((s, w) # pairs) totals tr = (tr', res)"
  obtains (fail) t e where "tr' = tr @ t" "\<not> list_ex is_confirm t" "res = Inl e"
  | (pass) b t totals' where "effects t = []" "\<not> list_ex is_confirm t"
      "wave_loop flow pairs totals' (tr @ [Fetched s (Inr b), Consumed w b (Inr ())] @ t) = (tr', res)"
proof (cases totals)
  case (Pair c n)
  show ?thesis
    using assms fail [of "[]"] fail [of "[_]"] fail [of "[_, _]"] fail [of "[_, _, _]"] pass [of "[]"] pass [of "[Progressed _ _ _]"]
    unfolding Pair by (auto simp: flow_calls split: option.splits sum.splits)
qed

lemma wave_loop_trace:
  "wave_loop flow pairs totals tr = (tr', res) \<Longrightarrow>
   \<exists>t. tr' = tr @ t \<and> \<not> list_ex is_confirm t
     \<and> (\<forall>totals'. res = Inr totals' \<longrightarrow> (\<exists>datas. length datas = length pairs \<and> effects t = served_events pairs datas))"
proof (induction pairs arbitrary: totals tr)
  case Nil
  then show ?case
    by (simp add: served_events_def)
next
  case (Cons p pairs)
  obtain s w where p: "p = (s, w)"
    by (cases p)
  from Cons.prems [unfolded p] show ?case
  proof (cases rule: wave_loop_step)
    case (fail t e)
    then show ?thesis by auto
  next
    case (pass b t totals')
    obtain t' where t': "tr' = (tr @ [Fetched s (Inr b), Consumed w b (Inr ())] @ t) @ t'" "\<not> list_ex is_confirm t'"
        "\<forall>totals'. res = Inr totals' \<longrightarrow> (\<exists>datas. length datas = length pairs \<and> effects t' = served_events pairs datas)"
      using Cons.IH [OF pass(3)] by blast
    show ?thesis
    proof (intro exI [of _ "[Fetched s (Inr b), Consumed w b (Inr ())] @ t @ t'"] conjI allI impI)
      fix x
      assume "res = Inr x"
      then obtain datas where "length datas = length pairs" "effects t' = served_events pairs datas"
        using t'(3) by blast
      then show "\<exists>datas. length datas = length (p # pairs)
          \<and> effects ([Fetched s (Inr b), Consumed w b (Inr ())] @ t @ t') = served_events (p # pairs) datas"
        using pass(1) by (intro exI [of _ "b # datas"]) (simp add: p served_events_Cons)
    qed (use t' pass in auto)
  qed
qed

text \<open>
  A wave either ends before it confirms, or the call to confirm is the last thing it does,
  after everything else has succeeded.
\<close>

lemma run_wave_trace:
  assumes "run_wave flow wave totals tr = (tr', res)" "0 < length wave" "length wave \<le> limit"
  obtains (unconfirmed) t e where "tr' = tr @ t" "\<not> list_ex is_confirm t" "res = Inl e"
  | (confirmed) t x r where "tr' = tr @ t @ [Confirmed (wl_sessions x) r]" "effects t = durable_events x" "\<not> list_ex is_confirm t"
      "wl_windows x = wave" "wave_ok limit x" "r = Inr () \<longleftrightarrow> (\<exists>totals'. res = Inr totals')"
proof (cases "fp_aborted flow tr")
  case (Some e)
  then show ?thesis
    using assms(1) unconfirmed [of "[]" e] by (simp add: run_wave_def flow_calls)
next
  case go: None
  show ?thesis
  proof (cases "fp_open flow tr wave")
    case (Inl e)
    then show ?thesis
      using go assms(1) unconfirmed [of "[Opened wave (Inl e)]" e] by (simp add: run_wave_def flow_calls)
  next
    case opened: (Inr ss)
    let ?o = "Opened wave (Inr ss)"
    show ?thesis
    proof (cases "list_all2 window_matches ss wave")
      case False
      then show ?thesis
        using go opened assms(1) unconfirmed [of "[?o]"] by (auto simp: run_wave_def flow_calls split: if_splits)
    next
      case ok: True
      obtain tl rl where loop: "wave_loop flow (zip ss wave) totals (tr @ [?o]) = (tl, rl)"
        by (cases "wave_loop flow (zip ss wave) totals (tr @ [?o])")
      obtain t where t: "tl = (tr @ [?o]) @ t" "\<not> list_ex is_confirm t"
          "\<And>totals'. rl = Inr totals' \<Longrightarrow> \<exists>datas. length datas = length (zip ss wave) \<and> effects t = served_events (zip ss wave) datas"
        using wave_loop_trace [OF loop] by blast
      have run: "run_wave flow wave totals tr =
          fbind (tl, rl) (\<lambda>totals tr. fbind (flow_flush flow tr) (\<lambda>_ tr. fbind (throwIfAborted flow tr) (\<lambda>_ tr.
          fbind (flow_confirm flow ss tr) (\<lambda>_ tr. (tr, Inr totals)))))"
        using go opened ok loop list_all2_lengthD [OF ok] by (simp add: run_wave_def fbind_def [of "(_, _)"] throwIfAborted_def [of _ tr] flow_open_def Let_def)
      show ?thesis
      proof (cases rl)
        case (Inl e)
        then show ?thesis
          using assms(1) t unconfirmed [of "?o # t" e] by (simp add: run fbind_def)
      next
        case (Inr n)
        then obtain datas where d: "length datas = length wave" "effects t = served_events (zip ss wave) datas"
          using t(3) list_all2_lengthD [OF ok] by fastforce
        let ?x = "\<lparr>wl_windows = wave, wl_sessions = ss, wl_data = datas\<rparr>"
        have x: "wave_ok limit ?x" "effects (?o # t @ [Flushed (Inr ())]) = durable_events ?x"
          using assms(2,3) d ok by (simp_all add: wave_ok_def durable_events_def)
        show ?thesis
          using assms(1) t(1,2) x confirmed [of "?o # t @ [Flushed (Inr ())]" ?x] unconfirmed [of "?o # t @ [Flushed (Inl _)]"] unconfirmed [of "?o # t @ [Flushed (Inr ())]"]
          unfolding run Inr by (auto simp: flow_calls split: option.splits sum.splits)
      qed
    qed
  qed
qed

lemma wave_rounds_trace:
  assumes "0 < limit" "wave_rounds limit flow windows err totals tr = (tr', res)"
  shows "\<exists>waves tail. tr' = tr @ concat (map (\<lambda>(t, x). t @ [Confirmed (wl_sessions x) (Inr ())]) waves) @ tail
    \<and> (\<forall>(t, x) \<in> set waves. effects t = durable_events x \<and> \<not> list_ex is_confirm t \<and> wave_ok limit x)
    \<and> (\<exists>rest. windows = concat (map (\<lambda>(t, x). wl_windows x) waves) @ rest \<and> (res = Inr () \<longrightarrow> rest = [] \<and> tail = [] \<and> err = None))
    \<and> (\<not> list_ex is_confirm tail \<or> (\<exists>t x r. tail = t @ [Confirmed (wl_sessions x) r] \<and> effects t = durable_events x
         \<and> \<not> list_ex is_confirm t \<and> wave_ok limit x))"
  using assms(2)
proof (induction "length windows" arbitrary: windows totals tr rule: less_induct)
  case less
  show ?case
  proof (cases "(length windows < limit \<and> err \<noteq> None) \<or> windows = []")
    case True
    then have "tr' = tr \<and> (res = Inr () \<longrightarrow> windows = [] \<and> err = None)"
      using less.prems assms(1) by (auto simp: wave_rounds.simps [of limit flow windows] split: option.splits if_splits)
    then show ?thesis
      by (intro exI [of _ "[]"]) auto
  next
    case False
    let ?wave = "take limit windows"
    obtain tw rw where wave: "run_wave flow ?wave totals tr = (tw, rw)"
      by (cases "run_wave flow ?wave totals tr")
    have run: "fbind (tw, rw) (\<lambda>totals tr. wave_rounds limit flow (drop limit windows) err totals tr) = (tr', res)"
      using less.prems False assms(1) wave by (subst (asm) wave_rounds.simps) (auto split: if_splits)
    have "0 < length ?wave" "length ?wave \<le> limit"
      using False assms(1) by auto
    with wave show ?thesis
    proof (cases rule: run_wave_trace)
      case (unconfirmed t e)
      then show ?thesis
        using run by (intro exI [of _ "[]"] exI [of _ t]) (auto simp: fbind_def)
    next
      case (confirmed t x r)
      show ?thesis
      proof (cases rw)
        case (Inl e)
        then show ?thesis
          using run confirmed by (intro exI [of _ "[]"] exI [of _ "t @ [Confirmed (wl_sessions x) r]"]) (auto simp: fbind_def)
      next
        case (Inr n)
        have r: "r = Inr ()"
          using confirmed(6) Inr by blast
        have rest: "wave_rounds limit flow (drop limit windows) err n tw = (tr', res)" "length (drop limit windows) < length windows"
          using run Inr False assms(1) by (auto simp: fbind_def)
        obtain waves tail where IH: "tr' = tw @ concat (map (\<lambda>(t, x). t @ [Confirmed (wl_sessions x) (Inr ())]) waves) @ tail"
            "\<forall>(t, x) \<in> set waves. effects t = durable_events x \<and> \<not> list_ex is_confirm t \<and> wave_ok limit x"
            "\<exists>rest. drop limit windows = concat (map (\<lambda>(t, x). wl_windows x) waves) @ rest \<and> (res = Inr () \<longrightarrow> rest = [] \<and> tail = [] \<and> err = None)"
            "\<not> list_ex is_confirm tail \<or> (\<exists>t x r. tail = t @ [Confirmed (wl_sessions x) r] \<and> effects t = durable_events x
               \<and> \<not> list_ex is_confirm t \<and> wave_ok limit x)"
          using less.hyps [OF rest(2) rest(1)] by blast
        have "windows = wl_windows x @ drop limit windows"
          by (simp add: confirmed(4))
        then have "\<exists>rest. windows = concat (map (\<lambda>(t, x). wl_windows x) ((t, x) # waves)) @ rest
            \<and> (res = Inr () \<longrightarrow> rest = [] \<and> tail = [] \<and> err = None)"
          using IH(3) by auto
        then show ?thesis
          using IH confirmed r by (intro exI [of _ "(t, x) # waves"] exI [of _ tail]) auto
      qed
    qed
  qed
qed

text \<open>Whenever the sessions of a wave are confirmed, the calls just before are that wave's, complete.\<close>

definition confirms_last :: "nat \<Rightarrow> flow_trace \<Rightarrow> bool" where
  "confirms_last limit tr \<longleftrightarrow>
     (\<forall>pre ss r post. tr = pre @ Confirmed ss r # post \<longrightarrow>
        (\<exists>t x. suffix t pre \<and> effects t = durable_events x \<and> wl_sessions x = ss \<and> wave_ok limit x))"

lemma confirms_last_append:
  assumes "confirms_last limit tr" "\<not> list_ex is_confirm t"
  shows "confirms_last limit (tr @ t)"
  unfolding confirms_last_def
proof (intro allI impI)
  fix pre ss r post
  assume eq: "tr @ t = pre @ Confirmed ss r # post"
  have "Confirmed ss r \<notin> set t"
    using assms(2) by (auto simp: list_ex_iff)
  then obtain post' where "tr = pre @ Confirmed ss r # post'"
    using eq by (fastforce simp: append_eq_append_conv2 append_eq_Cons_conv)
  then show "\<exists>t x. suffix t pre \<and> effects t = durable_events x \<and> wl_sessions x = ss \<and> wave_ok limit x"
    using assms(1) by (simp add: confirms_last_def)
qed

lemma confirms_last_wave:
  assumes "confirms_last limit tr" "\<not> list_ex is_confirm t" "effects t = durable_events x" "wave_ok limit x"
  shows "confirms_last limit (tr @ t @ [Confirmed (wl_sessions x) r])"
  unfolding confirms_last_def
proof (intro allI impI)
  fix pre ss r' post
  assume eq: "tr @ t @ [Confirmed (wl_sessions x) r] = pre @ Confirmed ss r' # post"
  show "\<exists>t x. suffix t pre \<and> effects t = durable_events x \<and> wl_sessions x = ss \<and> wave_ok limit x"
  proof (cases post rule: rev_cases)
    case Nil
    then have "pre = tr @ t" "ss = wl_sessions x"
      using eq by auto
    then show ?thesis
      using assms(3,4) by (auto simp: suffix_def)
  next
    case (snoc post' e)
    then have "tr @ t = pre @ Confirmed ss r' # post'"
      using eq by simp
    then show ?thesis
      using confirms_last_append [OF assms(1,2)] unfolding confirms_last_def by blast
  qed
qed

lemma confirms_last_waves:
  assumes "confirms_last limit tr" "\<forall>(t, x) \<in> set waves. effects t = durable_events x \<and> \<not> list_ex is_confirm t \<and> wave_ok limit x"
  shows "confirms_last limit (tr @ concat (map (\<lambda>(t, x). t @ [Confirmed (wl_sessions x) (Inr ())]) waves))"
  using assms
proof (induction waves arbitrary: tr)
  case (Cons tx waves)
  obtain t x where tx: "tx = (t, x)"
    by (cases tx)
  have "confirms_last limit (tr @ t @ [Confirmed (wl_sessions x) (Inr ())])"
    using Cons.prems by (intro confirms_last_wave) (auto simp: tx)
  then show ?case
    using Cons.IH [of "tr @ t @ [Confirmed (wl_sessions x) (Inr ())]"] Cons.prems(2) by (simp add: tx)
qed simp

lemma execute_rounds:
  assumes "executeRetrievalWindows windows flow waveLimit = (tr, res)"
  obtains (bound) "tr = []" "res = Inl ''invalid wave bound''"
  | (rounds) limit where "waveLimit = num limit" "0 < limit" "limit \<le> 64"
      "wave_rounds limit flow (fst windows) (snd windows) (0, 0) [] = (tr, res)"
proof (cases "\<not> isSafeInteger waveLimit \<or> js_less waveLimit 1 \<or> js_floor waveLimit > 64")
  case True
  then show ?thesis
    using assms bound by (simp add: executeRetrievalWindows_def)
next
  case False
  then obtain q where q: "waveLimit = Fin q" "integral q" "1 \<le> q" "\<lfloor>q\<rfloor> \<le> 64"
    by (cases waveLimit) auto
  then have "waveLimit = num (nat \<lfloor>q\<rfloor>)" "0 < nat \<lfloor>q\<rfloor>" "nat \<lfloor>q\<rfloor> \<le> 64"
    by (auto simp: integral_def num_def)
  then show ?thesis
    using assms False rounds [of "nat \<lfloor>q\<rfloor>"] by (simp add: executeRetrievalWindows_def q(1))
qed

text \<open>A run of one wave with one window, for a file of three bytes.\<close>

definition demo_file :: retrieval_file where
  "demo_file = \<lparr>rf_path = ascii ''f'', rf_start_offset = 0, rf_size_bytes = 3, rf_flags = 0\<rparr>"

definition demo_window :: retrieval_window where
  "demo_window = hd (fst (planRetrievalWindows sample_pin demo_file 1 2 False))"

definition demo_session :: "retrieval_window \<Rightarrow> frozen_session" where
  "demo_session w = \<lparr>fs_sessionId = [], fs_pin = sample_pin, fs_window = w, fs_owner = [], fs_payee = [], fs_height = 9,
     fs_openedHeight = 1, fs_expiry = 20, fs_status = 1, fs_funding = 0, fs_context = [], fs_contextHash = [], fs_seed = None\<rparr>"

definition demo_flow :: retrieval_flow where
  "demo_flow = \<lparr>fp_open = (\<lambda>_ ws. Inr (map demo_session ws)), fp_fetchAndVerify = (\<lambda>_ _. Inr (pack_blob [1, 2, 3])),
     fp_consume = (\<lambda>_ _ _. Inr ()), fp_flush = (\<lambda>_. Inr ()), fp_confirm = (\<lambda>_ _. Inr ()), fp_progress = None, fp_aborted = (\<lambda>_. None)\<rparr>"

lemma demo_plan:
  "planRetrievalWindows sample_pin demo_file 1 2 False = ([demo_window], None)"
  "rw_mduIndex demo_window = 2 \<and> rw_blobCount demo_window = 1
   \<and> rw_slices demo_window = [\<lparr>sl_encodedBlobIndex = 0, sl_rawOffset = 1, sl_length = 2, sl_outputOffset = 0\<rparr>]"
  by (simp_all add: demo_window_def planRetrievalWindows_def sample_pin_def demo_file_def window_loop.simps mdu_windows.simps
      window_step_def slice_stop_def Let_def)

lemma demo_run:
  "executeRetrievalWindows ([demo_window], None) demo_flow (num 16) =
   ([Opened [demo_window] (Inr [demo_session demo_window]), Fetched (demo_session demo_window) (Inr (pack_blob [1, 2, 3])),
     Consumed demo_window (pack_blob [1, 2, 3]) (Inr ()), Flushed (Inr ())] @ Confirmed [demo_session demo_window] (Inr ()) # [], Inr ())"
  by (simp add: executeRetrievalWindows_def wave_rounds.simps run_wave_def flow_calls demo_flow_def window_matches_def demo_session_def num_def MAX_SAFE_INTEGER_def)

text \<open>
  C8: Sessions are confirmed only when their data is durable. Whatever the ports answer and
  whenever the signal is aborted, each call that confirms sessions follows directly on the
  complete and successful calls of its wave: at most 64 windows opened, with sessions that
  match them in order, each fetched, verified and consumed in order, and the output flushed.
\<close>

theorem confirm_after_durable:
  assumes "executeRetrievalWindows windows flow waveLimit = (pre @ Confirmed sessions r # post, res)"
  shows "\<exists>t x. suffix t pre \<and> effects t = durable_events x \<and> wl_sessions x = sessions \<and> wave_ok 64 x"
  using assms
proof (cases rule: execute_rounds)
  case (rounds limit)
  obtain waves tail where w: "pre @ Confirmed sessions r # post
        = [] @ concat (map (\<lambda>(t, x). t @ [Confirmed (wl_sessions x) (Inr ())]) waves) @ tail"
      "\<forall>(t, x) \<in> set waves. effects t = durable_events x \<and> \<not> list_ex is_confirm t \<and> wave_ok limit x"
      "\<not> list_ex is_confirm tail \<or> (\<exists>t x r. tail = t @ [Confirmed (wl_sessions x) r] \<and> effects t = durable_events x
         \<and> \<not> list_ex is_confirm t \<and> wave_ok limit x)"
    using wave_rounds_trace [OF rounds(2,4)] by blast
  have "confirms_last limit []"
    by (simp add: confirms_last_def)
  from confirms_last_waves [OF this w(2)] w(1,3) have "confirms_last limit (pre @ Confirmed sessions r # post)"
    using confirms_last_append confirms_last_wave by fastforce
  then obtain t x where "suffix t pre" "effects t = durable_events x" "wl_sessions x = sessions" "wave_ok limit x"
    unfolding confirms_last_def by blast
  then show ?thesis
    using wave_ok_mono [OF _ rounds(3)] by blast
qed simp

theorem confirm_after_durable_witness:
  "\<exists>t x. effects t = durable_events x \<and> wl_sessions x = [demo_session demo_window] \<and> wave_ok 64 x"
  using confirm_after_durable [OF demo_run] by blast


section \<open>A completed retrieval\<close>

fun consumed :: "flow_trace \<Rightarrow> (retrieval_window \<times> bytes) list" where
  "consumed [] = []"
| "consumed (Consumed w b (Inr u) # tr) = (w, b) # consumed tr"
| "consumed (_ # tr) = consumed tr"

fun confirmed_sessions :: "flow_trace \<Rightarrow> frozen_session list" where
  "confirmed_sessions [] = []"
| "confirmed_sessions (Confirmed ss (Inr u) # tr) = ss @ confirmed_sessions tr"
| "confirmed_sessions (_ # tr) = confirmed_sessions tr"

lemma consumed_append [simp]: "consumed (t @ u) = consumed t @ consumed u"
  by (induction t rule: consumed.induct) auto

lemma confirmed_append [simp]: "confirmed_sessions (t @ u) = confirmed_sessions t @ confirmed_sessions u"
  by (induction t rule: confirmed_sessions.induct) auto

lemma consumed_effects: "consumed (effects t) = consumed t"
  by (induction t rule: consumed.induct) auto

lemma confirmed_none: "\<not> list_ex is_confirm t \<Longrightarrow> confirmed_sessions t = []"
  by (induction t rule: confirmed_sessions.induct) auto

lemma consumed_mem: "(w, b) \<in> set (consumed tr) \<Longrightarrow> Consumed w b (Inr ()) \<in> set tr"
  by (induction tr rule: consumed.induct) auto

lemma consumed_served:
  "length pairs = length datas \<Longrightarrow> consumed (served_events pairs datas) = zip (map snd pairs) datas"
  by (induction pairs datas rule: list_induct2) (auto simp: served_events_def)

lemma consumed_durable: "wave_ok limit x \<Longrightarrow> consumed (durable_events x) = zip (wl_windows x) (wl_data x)"
  by (auto simp: durable_events_def wave_ok_def consumed_served dest!: list_all2_lengthD)

lemma waves_consumed:
  assumes "\<forall>(t, x) \<in> set waves. effects t = durable_events x \<and> \<not> list_ex is_confirm t \<and> wave_ok limit x"
    and "tr = concat (map (\<lambda>(t, x). t @ [Confirmed (wl_sessions x) (Inr ())]) waves)"
  shows "map fst (consumed tr) = concat (map (\<lambda>(t, x). wl_windows x) waves)"
    and "list_all2 window_matches (confirmed_sessions tr) (concat (map (\<lambda>(t, x). wl_windows x) waves))"
proof -
  have w: "map fst (consumed t) = wl_windows x \<and> confirmed_sessions t = [] \<and> list_all2 window_matches (wl_sessions x) (wl_windows x)"
    if "effects t = durable_events x" "\<not> list_ex is_confirm t" "wave_ok limit x" for t x
  proof -
    have "consumed t = zip (wl_windows x) (wl_data x)"
      using that consumed_durable [of limit x] consumed_effects [of t] by simp
    then show ?thesis
      using that confirmed_none [of t] by (simp add: wave_ok_def)
  qed
  show "map fst (consumed tr) = concat (map (\<lambda>(t, x). wl_windows x) waves)"
    unfolding assms(2) using assms(1) w by (induction waves) auto
  show "list_all2 window_matches (confirmed_sessions tr) (concat (map (\<lambda>(t, x). wl_windows x) waves))"
    unfolding assms(2) using assms(1) w by (induction waves) (auto intro!: list_all2_appendI)
qed

lemma execute_success:
  assumes "executeRetrievalWindows windows flow waveLimit = (tr, Inr ())"
  shows "map fst (consumed tr) = fst windows" "list_all2 window_matches (confirmed_sessions tr) (fst windows)" "snd windows = None"
  using assms
proof (atomize(full), cases rule: execute_rounds)
  case (rounds limit)
  obtain waves tail rest where w: "tr = [] @ concat (map (\<lambda>(t, x). t @ [Confirmed (wl_sessions x) (Inr ())]) waves) @ tail"
      "\<forall>(t, x) \<in> set waves. effects t = durable_events x \<and> \<not> list_ex is_confirm t \<and> wave_ok limit x"
      "fst windows = concat (map (\<lambda>(t, x). wl_windows x) waves) @ rest" "rest = [] \<and> tail = [] \<and> snd windows = None"
    using wave_rounds_trace [OF rounds(2,4)] by blast
  then show "map fst (consumed tr) = fst windows \<and> list_all2 window_matches (confirmed_sessions tr) (fst windows) \<and> snd windows = None"
    using waves_consumed [OF w(2), of tr] by simp
qed simp

lemma decode_consumed:
  assumes "\<forall>(w, b) \<in> set ps. decodeRetrievalOutput pin file w b = Inr (map f (rw_slices w))"
  shows "smap (\<lambda>(w, b). decodeRetrievalOutput pin file w b) ps = Inr (map (\<lambda>p. map f (rw_slices (fst p))) ps)"
  using assms by (intro smap_total) auto

lemma planned_output_exact:
  assumes pin: "wf_pin pin" and alloc: "validateRetrievalAllocation pin records = Inr ()" "file \<in> set records"
    and len: "rf_size_bytes file = int (length content)"
    and plan: "planRetrievalWindows pin file rs rl allow = (map fst ps, None)"
    and served: "\<forall>(w, b) \<in> set ps. window_served pin file content w b" and buf: "length buf = nat rl"
  shows "\<exists>writes. smap (\<lambda>(w, b). decodeRetrievalOutput pin file w b) ps = Inr writes
    \<and> apply_writes (concat writes) buf = subarray (nat rs) (nat rs + nat rl) content"
proof -
  have flags: "rf_flags file = 0"
    using plan by (auto simp: planRetrievalWindows_def split: if_splits)
  have p: "0 \<le> rf_start_offset file" "0 \<le> rs" "0 < rl" "rs + rl \<le> rf_size_bytes file"
      "window_loop pin allow (nat (rf_start_offset file + rs))
        (nat (rf_start_offset file + rs) + nat rl) (nat (rf_start_offset file + rs)) = (map fst ps, None)"
    using plan_run [OF plan] flags by simp_all
  obtain s where s: "rf_start_offset file = int (s * RAW_MDU)"
  proof -
    have "rf_start_offset file mod int RAW_MDU = 0"
      using validateRetrievalAllocation_extent(1) [OF alloc] p(2-4) by simp
    then have "rf_start_offset file = int (nat (rf_start_offset file div int RAW_MDU) * RAW_MDU)"
      using p(1) div_mult_mod_eq [of "rf_start_offset file" "int RAW_MDU"] by simp
    then show ?thesis
      by (rule that)
  qed
  have first: "nat (rf_start_offset file + rs) = s * RAW_MDU + nat rs"
    using p(2) unfolding s by simp
  obtain ss where ok: "\<forall>w \<in> set (map fst ps). window_ok pin allow (s * RAW_MDU + nat rs) w"
      and ss: "mset (concat (map rw_slices (map fst ps))) = mset ss" "tiles 0 (nat rl) (map piece ss)"
    using window_loop_spec [OF pin _ _ p(5)] unfolding first by auto
  have fits: "nat rs + nat rl \<le> length content"
    using p(2-4) by (simp add: len)
  have slices: "nat rs + sl_outputOffset sl + sl_length sl \<le> length content" if "w \<in> set (map fst ps)" "sl \<in> set (rw_slices w)" for w sl
  proof -
    have "sl \<in> set ss"
      using that mset_eq_setD [OF ss(1)] by auto
    then show ?thesis
      using tiles_bounds [OF ss(2), of "sl_outputOffset sl" "sl_length sl"] fits by (force simp: piece_def)
  qed
  have "decodeRetrievalOutput pin file w b = Inr (map (slice_write (nat rs) content) (rw_slices w))" if "(w, b) \<in> set ps" for w b
    using that ok served slices by (intro decode_served_window [OF _ s len]) force+
  then have "smap (\<lambda>(w, b). decodeRetrievalOutput pin file w b) ps
      = Inr (map (\<lambda>p. map (slice_write (nat rs) content) (rw_slices (fst p))) ps)"
    by (intro decode_consumed) auto
  moreover have "concat (map (\<lambda>p. map (slice_write (nat rs) content) (rw_slices (fst p))) ps)
      = map (slice_write (nat rs) content) (concat (map rw_slices (map fst ps)))"
    by (simp add: map_concat comp_def)
  ultimately show ?thesis
    using slice_writes_exact [OF ss fits buf] by simp
qed

text \<open>
  C7: A completed retrieval yields exactly the requested bytes. If the allocation of the
  records has been validated and executing the planned windows of a range of one of them
  returns, with each consumed window answered by the packed blobs of the stored content, then
  every window has been consumed once, in plan order, and its session confirmed, every
  decoding succeeds, and the writes fill the output with the requested range of the content,
  whatever it held before and although the slots' windows interleave its bytes.
\<close>

theorem retrieval_flow_exact:
  assumes "wf_pin pin" and "validateRetrievalAllocation pin records = Inr ()" and "file \<in> set records"
    and "rf_size_bytes file = int (length content)" and "length buf = nat rangeLength"
    and "planRetrievalWindows pin file rangeStart rangeLength allow = plan"
    and "executeRetrievalWindows plan flow waveLimit = (tr, Inr ())"
    and "\<forall>w b. Consumed w b (Inr ()) \<in> set tr \<longrightarrow> window_served pin file content w b"
  shows "map fst (consumed tr) = fst plan \<and> list_all2 window_matches (confirmed_sessions tr) (fst plan)
    \<and> (\<exists>writes. smap (\<lambda>(w, b). decodeRetrievalOutput pin file w b) (consumed tr) = Inr writes
        \<and> apply_writes (concat writes) buf = subarray (nat rangeStart) (nat rangeStart + nat rangeLength) content)"
proof -
  note finished = execute_success [OF assms(7)]
  have "planRetrievalWindows pin file rangeStart rangeLength allow = (map fst (consumed tr), None)"
    using finished assms(6) by (cases plan) simp
  moreover have "\<forall>(w, b) \<in> set (consumed tr). window_served pin file content w b"
    using assms(8) consumed_mem by blast
  ultimately show ?thesis
    using planned_output_exact [OF assms(1-4) _ _ assms(5)] finished by blast
qed

theorem retrieval_flow_exact_witness:
  "\<exists>tr writes. executeRetrievalWindows (planRetrievalWindows sample_pin demo_file 1 2 False) demo_flow (num 16) = (tr, Inr ())
     \<and> smap (\<lambda>(w, b). decodeRetrievalOutput sample_pin demo_file w b) (consumed tr) = Inr writes
     \<and> apply_writes (concat writes) [0, 0] = [2, 3]"
proof -
  have "window_served sample_pin demo_file [1, 2, 3] demo_window (pack_blob [1, 2, 3])"
    by (simp add: window_served_def demo_plan stored_blob_def sample_pin_def demo_file_def)
      (simp add: subarray_def)
  moreover have "wf_pin sample_pin" "validateRetrievalAllocation sample_pin [demo_file] = Inr ()"
    by (simp_all add: wf_pin_def sample_pin_def validateRetrievalAllocation_def demo_file_def)
  ultimately show ?thesis
    using retrieval_flow_exact [of sample_pin "[demo_file]" demo_file "[1, 2, 3]" "[0, 0]" 2 1 False _ demo_flow "num 16", OF _ _ _ _ _ demo_plan(1) demo_run]
    unfolding demo_plan(1) demo_run by (auto simp: demo_file_def subarray_def)
qed

end
