(* ===== verification/RetrievalV3Flow.thy ===== *)
theory RetrievalV3Flow
  imports RetrievalV3Checkpoint RetrievalFlow
begin

text \<open>
  Execution of a session of version 3 (\<open>lib/retrievalV3Flow.ts\<close>) with its checkpoint
  (\<open>advance\<close>, \<open>refresh\<close> and \<open>cursors\<close> of \<open>lib/retrievalV3Checkpoint.ts\<close>). As in \<open>RetrievalFlow\<close>
  the ports see the calls made so far. Two chunks are fetched and verified ahead; what a
  chunk's promise yields is decided when it is awaited, so every interleaving of the fetches
  with the writes is an answer of the port. Timing and diagnostics are left out.
\<close>


section \<open>Ports, events and the run\<close>

datatype proof_state = ProofAccepted | ProofPending | ProofFailed | ProofBusy | ProofUnknown

record proof_outcome =
  po_state :: proof_state
  po_slot :: "nat option"
  po_remaining :: "nat option"

datatype v3_event =
    Observed3 frozen_session_v3 "frozen_session_v3 result"
  | Requested3 chunk_authority
  | Verified3 chunk_authority "bytes result"
  | Wrote3 nat bytes "unit result"
  | Flushed3 "unit result"
  | Advanced3 nat nat "unit result"
  | Progressed3 nat nat "unit result"
  | Acked3 frozen_session_v3 nat "frozen_session_v3 result"
  | Refreshed3 frozen_session_v3 "unit result"
  | Proved3 nat "proof_outcome result"

type_synonym v3_trace = "v3_event list"

record v3_flow =
  vf_observe :: "v3_trace \<Rightarrow> frozen_session_v3 \<Rightarrow> frozen_session_v3 result"
  vf_verified :: "v3_trace \<Rightarrow> chunk_authority \<Rightarrow> bytes result"
  vf_write :: "v3_trace \<Rightarrow> nat \<Rightarrow> bytes \<Rightarrow> unit result"
  vf_flush :: "v3_trace \<Rightarrow> unit result"
  vf_put :: "v3_trace \<Rightarrow> unit result"
  vf_progress :: "(v3_trace \<Rightarrow> nat \<Rightarrow> nat \<Rightarrow> unit result) option"
  vf_acknowledge :: "v3_trace \<Rightarrow> frozen_session_v3 \<Rightarrow> nat \<Rightarrow> frozen_session_v3 result"
  vf_requestProof :: "v3_trace \<Rightarrow> frozen_session_v3 \<Rightarrow> nat \<Rightarrow> proof_outcome result"
  vf_aborted :: "v3_trace \<Rightarrow> string option"

text \<open>The trace and the state of the checkpoint.\<close>

record v3_run =
  vr_trace :: v3_trace
  vr_state :: checkpoint_state

definition xbind :: "v3_run \<times> 'a result \<Rightarrow> ('a \<Rightarrow> v3_run \<Rightarrow> v3_run \<times> 'b result) \<Rightarrow> v3_run \<times> 'b result" where
  "xbind r f = (case snd r of Inl e \<Rightarrow> (fst r, Inl e) | Inr x \<Rightarrow> f x (fst r))"

definition logged :: "v3_event \<Rightarrow> v3_run \<Rightarrow> v3_run" where
  "logged e s = s\<lparr>vr_trace := vr_trace s @ [e]\<rparr>"

definition v3_throwIfAborted :: "v3_flow \<Rightarrow> v3_run \<Rightarrow> v3_run \<times> unit result" where
  "v3_throwIfAborted flow s = (s, case vf_aborted flow (vr_trace s) of None \<Rightarrow> Inr () | Some reason \<Rightarrow> Inl reason)"

definition observe :: "v3_flow \<Rightarrow> frozen_session_v3 \<Rightarrow> v3_run \<Rightarrow> v3_run \<times> frozen_session_v3 result" where
  "observe flow session s = (let r = vf_observe flow (vr_trace s) session in (logged (Observed3 session r) s, r))"

definition await_chunk :: "v3_flow \<Rightarrow> chunk_authority \<Rightarrow> v3_run \<Rightarrow> v3_run \<times> bytes result" where
  "await_chunk flow chunk s = (let r = vf_verified flow (vr_trace s) chunk in (logged (Verified3 chunk r) s, r))"

definition output_write :: "v3_flow \<Rightarrow> nat \<Rightarrow> bytes \<Rightarrow> v3_run \<Rightarrow> v3_run \<times> unit result" where
  "output_write flow off bs s = (let r = vf_write flow (vr_trace s) off bs in (logged (Wrote3 off bs r) s, r))"

definition output_flush :: "v3_flow \<Rightarrow> v3_run \<Rightarrow> v3_run \<times> unit result" where
  "output_flush flow s = (let r = vf_flush flow (vr_trace s) in (logged (Flushed3 r) s, r))"

definition v3_progress :: "v3_flow \<Rightarrow> nat \<Rightarrow> nat \<Rightarrow> v3_run \<Rightarrow> v3_run \<times> unit result" where
  "v3_progress flow chunks logicalBytes s =
     (case vf_progress flow of
        None \<Rightarrow> (s, Inr ())
      | Some progress \<Rightarrow> let r = progress (vr_trace s) chunks logicalBytes in (logged (Progressed3 chunks logicalBytes r) s, r))"

definition acknowledge :: "v3_flow \<Rightarrow> frozen_session_v3 \<Rightarrow> nat \<Rightarrow> v3_run \<Rightarrow> v3_run \<times> frozen_session_v3 result" where
  "acknowledge flow session slot s =
     (let r = vf_acknowledge flow (vr_trace s) session slot in (logged (Acked3 session slot r) s, r))"

definition requestProof :: "v3_flow \<Rightarrow> frozen_session_v3 \<Rightarrow> nat \<Rightarrow> v3_run \<Rightarrow> v3_run \<times> proof_outcome result" where
  "requestProof flow session slot s =
     (let r = vf_requestProof flow (vr_trace s) session slot in (logged (Proved3 slot r) s, r))"


section \<open>The checkpoint in the run\<close>

definition run_advance :: "v3_flow \<Rightarrow> nat \<Rightarrow> nat \<Rightarrow> v3_run \<Rightarrow> v3_run \<times> unit result" where
  "run_advance flow slot through s =
     (case advance (vf_put flow (vr_trace s)) slot (int through) (vr_state s) of
        Inl e \<Rightarrow> (logged (Advanced3 slot through (Inl e)) s, Inl e)
      | Inr state \<Rightarrow> ((logged (Advanced3 slot through (Inr ())) s)\<lparr>vr_state := state\<rparr>, Inr ()))"

definition run_refresh :: "v3_flow \<Rightarrow> frozen_session_v3 \<Rightarrow> v3_run \<Rightarrow> v3_run \<times> unit result" where
  "run_refresh flow session s =
     (case refresh (vf_put flow (vr_trace s)) session (vr_state s) of
        Inl e \<Rightarrow> (logged (Refreshed3 session (Inl e)) s, Inl e)
      | Inr state \<Rightarrow> ((logged (Refreshed3 session (Inr ())) s)\<lparr>vr_state := state\<rparr>, Inr ()))"

abbreviation run_cursor :: "v3_run \<Rightarrow> nat \<Rightarrow> int" where
  "run_cursor s \<equiv> cursor (cs_cursors (vr_state s))"


section \<open>Execution\<close>

text \<open>\<open>enqueue\<close>: fill the two places, passing over the chunks that the cursor covers.\<close>

fun enqueue_chunks :: "nat \<Rightarrow> chunk_authority list \<Rightarrow> chunk_authority list \<Rightarrow> v3_run \<Rightarrow> chunk_authority list \<times> chunk_authority list \<times> v3_run" where
  "enqueue_chunks slot pending [] s = (pending, [], s)"
| "enqueue_chunks slot pending (chunk # source) s =
     (if length pending \<ge> 2 then (pending, chunk # source, s)
      else if int (chunk_last chunk) \<le> run_cursor s slot then enqueue_chunks slot pending source s
      else enqueue_chunks slot (pending @ [chunk]) source (logged (Requested3 chunk) s))"

definition wanted_start :: "frozen_session_v3 \<Rightarrow> int" where
  "wanted_start session = rf_start_offset (f3_file session) + int (f3_rangeStart session)"

definition wanted_end :: "frozen_session_v3 \<Rightarrow> int" where
  "wanted_end session = wanted_start session + int (f3_rangeLength session)"

definition piece_from :: "frozen_session_v3 \<Rightarrow> nat \<Rightarrow> int" where
  "piece_from session t =
     (let blobStart = int (t * RAW_BLOB_BYTES) in if blobStart > wanted_start session then blobStart else wanted_start session)"

definition piece_to :: "frozen_session_v3 \<Rightarrow> nat \<Rightarrow> int" where
  "piece_to session t =
     (let blobEnd = int (t * RAW_BLOB_BYTES) + int RAW_BLOB_BYTES in if blobEnd < wanted_end session then blobEnd else wanted_end session)"

definition decode_piece :: "frozen_session_v3 \<Rightarrow> nat \<Rightarrow> bytes \<Rightarrow> bytes result" where
  "decode_piece session t blob =
     (let blobStart = int (t * RAW_BLOB_BYTES);
          valid = rf_start_offset (f3_file session) + rf_size_bytes (f3_file session) - blobStart;
          validLength = (if valid < int RAW_BLOB_BYTES then valid else int RAW_BLOB_BYTES)
      in decodeRetrievalSlice blob (Fin (of_int validLength)) (Fin (of_int (piece_from session t - blobStart)))
           (Fin (of_int (piece_to session t - piece_from session t))))"

fun write_loop :: "v3_flow \<Rightarrow> frozen_session_v3 \<Rightarrow> bytes \<Rightarrow> nat \<Rightarrow> chunk_entry list \<Rightarrow> nat \<Rightarrow> v3_run \<Rightarrow> v3_run \<times> nat result" where
  "write_loop flow session encoded i [] logicalBytes s = (s, Inr logicalBytes)"
| "write_loop flow session encoded i (entry # entries) logicalBytes s =
     (if piece_from session (en_t entry) \<ge> piece_to session (en_t entry)
      then (s, Inl ''v3 chunk lies outside the frozen requested range'')
      else
        case decode_piece session (en_t entry) (subarray (i * BLOB_SIZE_BYTES) ((i + 1) * BLOB_SIZE_BYTES) encoded) of
          Inl e \<Rightarrow> (s, Inl e)
        | Inr bs \<Rightarrow>
            xbind (output_write flow (nat (piece_from session (en_t entry) - wanted_start session)) bs s) (\<lambda>_ s.
            write_loop flow session encoded (i + 1) entries (logicalBytes + length bs) s))"

lemma enqueue_total:
  "enqueue_chunks slot pending source s = (p, src, s') \<Longrightarrow> length p + length src \<le> length pending + length source"
  by (induction slot pending source s rule: enqueue_chunks.induct) (fastforce split: if_splits)+

function drain_chunks ::
  "v3_flow \<Rightarrow> frozen_session_v3 \<Rightarrow> nat \<Rightarrow> chunk_authority list \<Rightarrow> chunk_authority list \<Rightarrow> nat \<times> nat \<Rightarrow> v3_run
   \<Rightarrow> v3_run \<times> (nat \<times> nat) result" where
  "drain_chunks flow session slot [] source totals s = (s, Inr totals)"
| "drain_chunks flow session slot (chunk # pending) source (chunks, logicalBytes) s =
     xbind (v3_throwIfAborted flow s) (\<lambda>_ s.
     xbind (await_chunk flow chunk s) (\<lambda>encoded s.
     let r = enqueue_chunks slot pending source s in
     xbind (write_loop flow session encoded 0 (ck_entries chunk) logicalBytes (snd (snd r))) (\<lambda>logicalBytes s.
     xbind (output_flush flow s) (\<lambda>_ s.
     xbind (run_advance flow slot (chunk_last chunk) s) (\<lambda>_ s.
     xbind (v3_progress flow (chunks + 1) logicalBytes s) (\<lambda>_ s.
     drain_chunks flow session slot (fst r) (fst (snd r)) (chunks + 1, logicalBytes) s))))))"
  by pat_completeness auto
termination
proof (relation "measure (\<lambda>(flow, session, slot, pending, source, totals, s). length pending + length source)")
  fix flow session slot chunk pending source chunks logicalBytes s u s1 encoded s2 r
  assume "r = enqueue_chunks slot pending source s2"
  then have "length (fst r) + length (fst (snd r)) \<le> length pending + length source"
    using enqueue_total [of slot pending source s2 "fst r" "fst (snd r)" "snd (snd r)"] by simp
  then show "((flow, session, slot, fst r, fst (snd r), (chunks + 1, l), s3), flow, session, slot, chunk # pending, source, (chunks, logicalBytes), s)
      \<in> measure (\<lambda>(flow, session, slot, pending, source, totals, s). length pending + length source)" for l s3
    by simp
qed simp

definition slot_chunks_run ::
  "v3_flow \<Rightarrow> frozen_session_v3 \<Rightarrow> nat \<Rightarrow> nat \<times> nat \<Rightarrow> v3_run \<Rightarrow> v3_run \<times> (nat \<times> nat) result" where
  "slot_chunks_run flow session slot totals s =
     (case session_chunks session slot of
        Inl e \<Rightarrow> (s, Inl e)
      | Inr source \<Rightarrow>
          let r = enqueue_chunks slot [] source s
          in drain_chunks flow session slot (fst r) (fst (snd r)) totals (snd (snd r)))"

text \<open>At most three requests for a proof of one slot.\<close>

fun proof_loop ::
  "v3_flow \<Rightarrow> nat \<Rightarrow> nat \<Rightarrow> frozen_session_v3 \<Rightarrow> proof_outcome list \<Rightarrow> v3_run
   \<Rightarrow> v3_run \<times> (frozen_session_v3 \<times> proof_outcome list) result" where
  "proof_loop flow slot 0 session outcomes s = (s, Inr (session, outcomes))"
| "proof_loop flow slot (Suc attempts) session outcomes s =
     (if int32 (f3_settledMask session) AND slot_bit slot \<noteq> 0 then (s, Inr (session, outcomes))
      else
        xbind (requestProof flow session slot s) (\<lambda>outcome s.
        if po_slot outcome \<noteq> None \<and> po_slot outcome \<noteq> Some slot then (s, Inl ''provider proof outcome has the wrong v3 slot'')
        else
          xbind (observe flow session s) (\<lambda>session s.
          xbind (run_refresh flow session s) (\<lambda>_ s.
          if po_state outcome \<noteq> ProofAccepted \<or> po_remaining outcome = None \<or> po_remaining outcome = Some 0
          then (s, Inr (session, outcomes @ [outcome]))
          else proof_loop flow slot attempts session (outcomes @ [outcome]) s))))"

definition output_slot ::
  "v3_flow \<Rightarrow> nat \<Rightarrow> frozen_session_v3 \<Rightarrow> nat \<times> nat \<Rightarrow> v3_run \<Rightarrow> v3_run \<times> (frozen_session_v3 \<times> nat \<times> nat) result" where
  "output_slot flow slot session totals s =
     (if int32 (f3_ackedMask session) AND slot_bit slot \<noteq> 0 then
        if run_cursor s slot < retrievalV3SlotEnd (f3_last session) slot
        then (s, Inl ''v3 obligation was acknowledged before durable output completed'')
        else (s, Inr (session, totals))
      else
        xbind (slot_chunks_run flow session slot totals s) (\<lambda>totals s.
        xbind (acknowledge flow session slot s) (\<lambda>session s.
        xbind (run_refresh flow session s) (\<lambda>_ s.
        (s, Inr (session, totals))))))"

definition settle_slot ::
  "v3_flow \<Rightarrow> nat \<Rightarrow> frozen_session_v3 \<Rightarrow> proof_outcome list \<Rightarrow> v3_run
   \<Rightarrow> v3_run \<times> (frozen_session_v3 \<times> proof_outcome list) result" where
  "settle_slot flow slot session outcomes s =
     (if int32 (f3_settledMask session) AND slot_bit slot = 0 \<and> int32 (f3_refundedMask session) AND slot_bit slot = 0
      then proof_loop flow slot 3 session outcomes s
      else (s, Inr (session, outcomes)))"

fun obligation_loop ::
  "v3_flow \<Rightarrow> obligation_v3 list \<Rightarrow> frozen_session_v3 \<Rightarrow> nat \<times> nat \<Rightarrow> proof_outcome list \<Rightarrow> v3_run
   \<Rightarrow> v3_run \<times> (frozen_session_v3 \<times> proof_outcome list) result" where
  "obligation_loop flow [] session totals outcomes s = (s, Inr (session, outcomes))"
| "obligation_loop flow (obligation # rest) session totals outcomes s =
     xbind (output_slot flow (ob_slot obligation) session totals s) (\<lambda>(session, totals) s.
     xbind (settle_slot flow (ob_slot obligation) session outcomes s) (\<lambda>(session, outcomes) s.
     obligation_loop flow rest session totals outcomes s))"

definition executeRetrievalV3 ::
  "v3_flow \<Rightarrow> frozen_session_v3 \<Rightarrow> checkpoint_state \<Rightarrow> v3_run \<times> (frozen_session_v3 \<times> proof_outcome list) result" where
  "executeRetrievalV3 flow initial state =
     xbind (observe flow initial \<lparr>vr_trace = [], vr_state = state\<rparr>) (\<lambda>session s.
     obligation_loop flow (f3_obligations session) session (0, 0) [] s)"


section \<open>What a step leaves alone\<close>

fun is_acked :: "v3_event \<Rightarrow> bool" where
  "is_acked (Acked3 session slot r) = True"
| "is_acked _ = False"

text \<open>The request that the state was frozen for: everything but the session and the cursors.\<close>

definition frozen_request :: "checkpoint_state \<Rightarrow> checkpoint_state" where
  "frozen_request state = state\<lparr>cs_session := None, cs_cursors := Map.empty\<rparr>"

text \<open>A run goes on: the trace grows, without acknowledgements, and other cursors stay.\<close>

definition keeps :: "nat \<Rightarrow> v3_run \<Rightarrow> v3_run \<Rightarrow> bool" where
  "keeps slot s s' \<longleftrightarrow>
     (\<exists>ext. vr_trace s' = vr_trace s @ ext \<and> \<not> list_ex is_acked ext)
     \<and> (\<forall>k. k \<noteq> slot \<longrightarrow> run_cursor s' k = run_cursor s k)
     \<and> frozen_request (vr_state s') = frozen_request (vr_state s)"

lemma keeps_refl [simp]: "keeps slot s s"
  by (auto simp: keeps_def)

lemma keeps_trans: "keeps slot s s' \<Longrightarrow> keeps slot s' s'' \<Longrightarrow> keeps slot s s''"
  unfolding keeps_def by (metis append.assoc list_ex_append)

lemma keeps_logged [simp]: "\<not> is_acked e \<Longrightarrow> keeps slot s (logged e s)"
  by (auto simp: keeps_def logged_def)

lemma xbind_Inr:
  "xbind r f = (s', Inr y) \<longleftrightarrow> (\<exists>x. snd r = Inr x \<and> f x (fst r) = (s', Inr y))"
  by (auto simp: xbind_def split: sum.splits)

lemma xbind_success:
  "xbind r f = (s', Inr y) \<longleftrightarrow> (\<exists>s1 x. r = (s1, Inr x) \<and> f x s1 = (s', Inr y))"
  by (cases r) (auto simp: xbind_def split: sum.splits)

lemma keeps_xbind:
  assumes "keeps slot s (fst r)" "\<And>x s1. snd r = Inr x \<Longrightarrow> keeps slot s s1 \<Longrightarrow> keeps slot s (fst (f x s1))"
  shows "keeps slot s (fst (xbind r f))"
  using assms by (auto simp: xbind_def split: sum.splits)

lemma keeps_ports:
  assumes "keeps slot s0 s"
  shows "keeps slot s0 (fst (v3_throwIfAborted flow s))" "keeps slot s0 (fst (await_chunk flow chunk s))"
    "keeps slot s0 (fst (output_write flow off bs s))" "keeps slot s0 (fst (output_flush flow s))"
    "keeps slot s0 (fst (v3_progress flow n l s))" "keeps slot s0 (fst (observe flow session s))"
    "keeps slot s0 (fst (requestProof flow session k s))"
  using assms
  by (auto simp: v3_throwIfAborted_def await_chunk_def output_write_def output_flush_def v3_progress_def observe_def
      requestProof_def Let_def split: option.splits intro: keeps_trans)

lemma save_state_Inr [simp]: "save_state put next_state = Inr state \<longleftrightarrow> put = Inr () \<and> state = next_state"
  by (cases put) (auto simp: save_state_def)

lemma advance_Inr:
  "advance put slot through state = Inr state' \<longleftrightarrow>
     slot \<le> 7 \<and> cursor (cs_cursors state) slot < through \<and> put = Inr ()
     \<and> state' = state\<lparr>cs_cursors := (cs_cursors state)(slot \<mapsto> through)\<rparr>"
  by (auto simp: advance_def)

lemma refresh_Inr:
  "refresh put session state = Inr state' \<longleftrightarrow>
     (\<exists>s. cs_session state = Some s \<and> f3_sessionId s = f3_sessionId session) \<and> sessionMatchesState state session \<and> put = Inr ()
     \<and> state' = state\<lparr>cs_session := Some session\<rparr>"
  by (auto simp: refresh_def split: option.splits)

lemma keeps_advance: "keeps slot s0 s \<Longrightarrow> keeps slot s0 (fst (run_advance flow slot through s))"
  by (erule keeps_trans)
    (auto simp: run_advance_def advance_Inr keeps_def logged_def cursor_def frozen_request_def split: sum.splits)

lemma keeps_refresh: "keeps slot s0 s \<Longrightarrow> keeps slot s0 (fst (run_refresh flow session s))"
  by (erule keeps_trans)
    (auto simp: run_refresh_def refresh_Inr keeps_def logged_def cursor_def frozen_request_def split: sum.splits)

lemmas keeps_steps = keeps_ports keeps_advance keeps_refresh

lemma keeps_write: "keeps slot s0 s \<Longrightarrow> keeps slot s0 (fst (write_loop flow session encoded i entries l s))"
proof (induction entries arbitrary: i l s)
  case (Cons entry entries)
  then show ?case
    by (auto split: sum.splits intro!: keeps_xbind keeps_steps)
qed simp

lemma keeps_enqueue: "keeps slot s0 s \<Longrightarrow> keeps slot s0 (snd (snd (enqueue_chunks k pending source s)))"
proof (induction source arbitrary: pending s)
  case (Cons chunk source)
  have "keeps slot s0 (logged (Requested3 chunk) s)"
    by (rule keeps_trans [OF Cons.prems]) simp
  with Cons show ?case
    by simp
qed simp

lemma keeps_drain: "keeps slot s0 s \<Longrightarrow> keeps slot s0 (fst (drain_chunks flow session slot pending source totals s))"
proof (induction flow session slot pending source totals s rule: drain_chunks.induct)
  case (2 flow session slot chunk pending source chunks logicalBytes s)
  show ?case
    unfolding drain_chunks.simps Let_def
    by (intro keeps_xbind keeps_steps keeps_write keeps_enqueue 2(2)) (assumption | (rule 2(1), rule refl, assumption))+
qed simp

lemma keeps_slot_chunks: "keeps slot s (fst (slot_chunks_run flow session slot totals s))"
  by (auto simp: slot_chunks_run_def Let_def split: sum.splits intro!: keeps_drain keeps_enqueue)

lemma keeps_proof_loop: "keeps slot s0 s \<Longrightarrow> keeps slot s0 (fst (proof_loop flow k n session outcomes s))"
proof (induction n arbitrary: session outcomes s)
  case (Suc n)
  then show ?case
    by (auto intro!: keeps_xbind keeps_steps Suc.IH)
qed simp

lemma keeps_settle: "keeps slot s (fst (settle_slot flow k session outcomes s))"
  by (auto simp: settle_slot_def intro: keeps_proof_loop)


lemmas v3_calls = xbind_def logged_def observe_def await_chunk_def output_write_def output_flush_def v3_progress_def acknowledge_def
  requestProof_def v3_throwIfAborted_def run_advance_def run_refresh_def Let_def


section \<open>Durable pieces\<close>

text \<open>
  The piece of blob \<open>t\<close> in the requested range is durable: its bytes, decoded from a verified
  chunk, were written at their place, and the output was flushed afterwards.
\<close>

definition piece_durable :: "frozen_session_v3 \<Rightarrow> v3_trace \<Rightarrow> nat \<Rightarrow> bool" where
  "piece_durable session tr t \<longleftrightarrow>
     (\<exists>u v w chunk encoded i bs.
        tr = u @ Wrote3 (nat (piece_from session t - wanted_start session)) bs (Inr ()) # v @ Flushed3 (Inr ()) # w
        \<and> Verified3 chunk (Inr encoded) \<in> set u \<and> i < length (ck_entries chunk) \<and> en_t (ck_entries chunk ! i) = t
        \<and> piece_from session t < piece_to session t
        \<and> decode_piece session t (subarray (i * BLOB_SIZE_BYTES) ((i + 1) * BLOB_SIZE_BYTES) encoded) = Inr bs)"

lemma piece_durable_append: "piece_durable session tr t \<Longrightarrow> piece_durable session (tr @ ext) t"
  unfolding piece_durable_def by (metis (no_types, lifting) append.assoc append_Cons)

lemma piece_durable_keeps: "piece_durable session (vr_trace s) t \<Longrightarrow> keeps slot s s' \<Longrightarrow> piece_durable session (vr_trace s') t"
  by (auto simp: keeps_def piece_durable_append)

text \<open>What the write loop leaves in the trace.\<close>

lemma write_loop_trace:
  assumes "write_loop flow session encoded i entries l s = (s', Inr l')"
  shows "vr_state s' = vr_state s \<and> (\<exists>ext. vr_trace s' = vr_trace s @ ext
    \<and> (\<forall>j < length entries. piece_from session (en_t (entries ! j)) < piece_to session (en_t (entries ! j))
         \<and> (\<exists>bs. Wrote3 (nat (piece_from session (en_t (entries ! j)) - wanted_start session)) bs (Inr ()) \<in> set ext
              \<and> decode_piece session (en_t (entries ! j)) (subarray ((i + j) * BLOB_SIZE_BYTES) ((i + j + 1) * BLOB_SIZE_BYTES) encoded) = Inr bs)))"
  using assms
proof (induction entries arbitrary: i l s)
  case (Cons entry entries)
  let ?t = "en_t entry"
  let ?off = "nat (piece_from session ?t - wanted_start session)"
  from Cons.prems obtain bs where bs: "piece_from session ?t < piece_to session ?t"
      "decode_piece session ?t (subarray (i * BLOB_SIZE_BYTES) ((i + 1) * BLOB_SIZE_BYTES) encoded) = Inr bs"
      "snd (output_write flow ?off bs s) = Inr ()"
      "write_loop flow session encoded (i + 1) entries (l + length bs) (fst (output_write flow ?off bs s)) = (s', Inr l')"
    by (auto simp: xbind_Inr split: if_splits sum.splits)
  obtain ext where ext: "vr_state s' = vr_state (fst (output_write flow ?off bs s))"
      "vr_trace s' = vr_trace (fst (output_write flow ?off bs s)) @ ext"
      "\<forall>j < length entries. piece_from session (en_t (entries ! j)) < piece_to session (en_t (entries ! j))
         \<and> (\<exists>bs. Wrote3 (nat (piece_from session (en_t (entries ! j)) - wanted_start session)) bs (Inr ()) \<in> set ext
              \<and> decode_piece session (en_t (entries ! j)) (subarray ((i + 1 + j) * BLOB_SIZE_BYTES) ((i + 1 + j + 1) * BLOB_SIZE_BYTES) encoded) = Inr bs)"
    using Cons.IH [OF bs(4)] by blast
  have w: "vr_trace (fst (output_write flow ?off bs s)) = vr_trace s @ [Wrote3 ?off bs (Inr ())]"
      "vr_state (fst (output_write flow ?off bs s)) = vr_state s"
    using bs(3) by (simp_all add: output_write_def logged_def Let_def)
  have "piece_from session (en_t ((entry # entries) ! j)) < piece_to session (en_t ((entry # entries) ! j))
      \<and> (\<exists>bs'. Wrote3 (nat (piece_from session (en_t ((entry # entries) ! j)) - wanted_start session)) bs' (Inr ()) \<in> set (Wrote3 ?off bs (Inr ()) # ext)
        \<and> decode_piece session (en_t ((entry # entries) ! j)) (subarray ((i + j) * BLOB_SIZE_BYTES) ((i + j + 1) * BLOB_SIZE_BYTES) encoded) = Inr bs')"
    if j: "j < length (entry # entries)" for j
  proof (cases j)
    case 0
    then show ?thesis
      using bs(1,2) by auto
  next
    case (Suc k)
    then show ?thesis
      using j ext(3) [rule_format, of k] by (auto simp del: mult_Suc)
  qed
  moreover have "vr_state s' = vr_state s" "vr_trace s' = vr_trace s @ (Wrote3 ?off bs (Inr ()) # ext)"
    using ext(1,2) w by simp_all
  ultimately show ?case
    by blast
qed auto

lemma write_flush_durable:
  assumes "write_loop flow session encoded 0 (ck_entries chunk) l s = (s1, Inr l')" "Verified3 chunk (Inr encoded) \<in> set (vr_trace s)"
    and "output_flush flow s1 = (s2, Inr ())"
  shows "vr_state s2 = vr_state s \<and> (\<forall>e \<in> set (ck_entries chunk). piece_durable session (vr_trace s2) (en_t e))"
proof -
  obtain ext where ext: "vr_state s1 = vr_state s" "vr_trace s1 = vr_trace s @ ext"
      "\<forall>j < length (ck_entries chunk). piece_from session (en_t (ck_entries chunk ! j)) < piece_to session (en_t (ck_entries chunk ! j))
         \<and> (\<exists>bs. Wrote3 (nat (piece_from session (en_t (ck_entries chunk ! j)) - wanted_start session)) bs (Inr ()) \<in> set ext
              \<and> decode_piece session (en_t (ck_entries chunk ! j)) (subarray (j * BLOB_SIZE_BYTES) ((j + 1) * BLOB_SIZE_BYTES) encoded) = Inr bs)"
    using write_loop_trace [OF assms(1)] by auto
  have flush: "vr_trace s2 = vr_trace s1 @ [Flushed3 (Inr ())]" "vr_state s2 = vr_state s1"
    using assms(3) by (auto simp: output_flush_def logged_def Let_def)
  have "piece_durable session (vr_trace s2) (en_t e)" if e: "e \<in> set (ck_entries chunk)" for e
  proof -
    obtain j where j: "j < length (ck_entries chunk)" "ck_entries chunk ! j = e"
      using e by (auto simp: in_set_conv_nth)
    obtain bs where bs: "piece_from session (en_t e) < piece_to session (en_t e)"
        "Wrote3 (nat (piece_from session (en_t e) - wanted_start session)) bs (Inr ()) \<in> set ext"
        "decode_piece session (en_t e) (subarray (j * BLOB_SIZE_BYTES) ((j + 1) * BLOB_SIZE_BYTES) encoded) = Inr bs"
      using ext(3) j by auto
    obtain u v where uv: "ext = u @ Wrote3 (nat (piece_from session (en_t e) - wanted_start session)) bs (Inr ()) # v"
      using split_list [OF bs(2)] by blast
    have tr: "vr_trace s2 = (vr_trace s @ u) @ Wrote3 (nat (piece_from session (en_t e) - wanted_start session)) bs (Inr ()) # v @ Flushed3 (Inr ()) # []"
      using flush(1) ext(2) uv by simp
    show ?thesis
      unfolding piece_durable_def
      by (rule exI [of _ "vr_trace s @ u"], rule exI [of _ v], rule exI [of _ "[]"], rule exI [of _ chunk], rule exI [of _ encoded],
          rule exI [of _ j], rule exI [of _ bs]) (use tr assms(2) j bs in simp)
  qed
  then show ?thesis
    using flush(2) ext(1) by simp
qed

lemma enqueue_state: "vr_state (snd (snd (enqueue_chunks slot pending source s))) = vr_state s"
  by (induction slot pending source s rule: enqueue_chunks.induct) (auto simp: logged_def)

lemma drain_step:
  assumes "drain_chunks flow session slot (chunk # pending) source totals s = (s', Inr totals')"
  obtains s2 s3 totals'' where "keeps slot s s2" "vr_state s2 = vr_state s" "keeps slot s2 s3"
    "\<forall>e \<in> set (ck_entries chunk). piece_durable session (vr_trace s3) (en_t e)"
    "run_cursor s3 slot = int (chunk_last chunk)"
    "drain_chunks flow session slot (fst (enqueue_chunks slot pending source s2)) (fst (snd (enqueue_chunks slot pending source s2)))
       totals'' s3 = (s', Inr totals')"
proof -
  obtain n l where nl: "totals = (n, l)"
    by (cases totals)
  from assms obtain encoded l' s1 s2 s3 s4 s5 where
    a: "await_chunk flow chunk s = (s1, Inr encoded)"
    and w: "write_loop flow session encoded 0 (ck_entries chunk) l (snd (snd (enqueue_chunks slot pending source s1))) = (s2, Inr l')"
    and f: "output_flush flow s2 = (s3, Inr ())"
    and v: "run_advance flow slot (chunk_last chunk) s3 = (s4, Inr ())"
    and p: "v3_progress flow (n + 1) l' s4 = (s5, Inr ())"
    and d: "drain_chunks flow session slot (fst (enqueue_chunks slot pending source s1))
        (fst (snd (enqueue_chunks slot pending source s1))) (n + 1, l') s5 = (s', Inr totals')"
    by (auto simp: nl xbind_success Let_def v3_throwIfAborted_def)
  let ?q = "snd (snd (enqueue_chunks slot pending source s1))"
  have s1: "vr_state s1 = vr_state s" "Verified3 chunk (Inr encoded) \<in> set (vr_trace s1)" "keeps slot s s1"
    using a keeps_ports(2) [OF keeps_refl, of slot s flow chunk] by (auto simp: await_chunk_def logged_def Let_def)
  have q: "keeps slot s1 ?q" "vr_state ?q = vr_state s"
    by (auto intro: keeps_enqueue simp: enqueue_state s1(1))
  then have dur: "\<forall>e \<in> set (ck_entries chunk). piece_durable session (vr_trace s3) (en_t e)"
    using write_flush_durable [OF w _ f] s1(2) by (auto simp: keeps_def)
  have k: "keeps slot s1 s2" "keeps slot s2 s3" "keeps slot s3 s4" "keeps slot s4 s5"
    using keeps_write [OF q(1), of flow session encoded 0 "ck_entries chunk" l] keeps_ports(4) [OF keeps_refl, of slot s2 flow]
      keeps_advance [OF keeps_refl, of slot s3 flow "chunk_last chunk"] keeps_ports(5) [OF keeps_refl, of slot s4 flow "n + 1" l']
    by (simp_all add: w f v p [simplified])
  show ?thesis
  proof (rule that [OF s1(3,1)])
    show "keeps slot s1 s5"
      using k by (meson keeps_trans)
    show "\<forall>e \<in> set (ck_entries chunk). piece_durable session (vr_trace s5) (en_t e)"
      using dur piece_durable_keeps [OF _ keeps_trans [OF k(3,4)]] by blast
    have "vr_state s5 = vr_state s4"
      using p by (auto simp: v3_progress_def logged_def Let_def split: option.splits)
    then show "run_cursor s5 slot = int (chunk_last chunk)"
      using v by (auto simp: run_advance_def advance_Inr cursor_def split: sum.splits)
  qed (rule d)
qed

lemma chunk_blobs_Cons: "chunk_blobs (c # cs) = en_t ` set (ck_entries c) \<union> chunk_blobs cs"
  by (simp add: chunk_blobs_def)

lemma enqueue_chunks_rest:
  "enqueue_chunks slot pending source s = (p, src, s') \<Longrightarrow>
     subseq (p @ src) (pending @ source) \<and> (\<forall>c \<in> set (pending @ source) - set (p @ src). int (chunk_last c) \<le> run_cursor s slot)"
proof (induction source arbitrary: pending s)
  case (Cons chunk source)
  consider "length pending \<ge> 2" | "length pending < 2" "int (chunk_last chunk) \<le> run_cursor s slot"
    | "length pending < 2" "run_cursor s slot < int (chunk_last chunk)"
    by linarith
  then show ?case
  proof cases
    case 2
    with Cons.prems have "enqueue_chunks slot pending source s = (p, src, s')"
      by simp
    note ih = Cons.IH [OF this]
    have "subseq (pending @ source) (pending @ chunk # source)"
      by (rule list_emb_append_mono) auto
    with ih show ?thesis
      using 2 by (auto intro: subseq_order.trans)
  next
    case 3
    with Cons.prems have "enqueue_chunks slot (pending @ [chunk]) source (logged (Requested3 chunk) s) = (p, src, s')"
      by simp
    from Cons.IH [OF this] show ?thesis
      by (simp add: logged_def)
  qed (use Cons.prems in auto)
qed auto

lemma enqueue_chunks_full: "enqueue_chunks slot pending source s = (p, src, s') \<Longrightarrow> src \<noteq> [] \<Longrightarrow> length p \<ge> 2"
  by (induction slot pending source s rule: enqueue_chunks.induct) (auto split: if_splits)

lemma sorted_wrt_subseq: "subseq xs ys \<Longrightarrow> sorted_wrt P ys \<Longrightarrow> sorted_wrt P xs"
  by (induction rule: list_emb.induct) (auto dest: list_emb_set)

lemma drain_durable:
  assumes "drain_chunks flow session slot pending source totals s = (s', Inr totals')"
    and "sorted_wrt chunk_less (pending @ source)"
    and "\<forall>c \<in> set (pending @ source). ck_entries c \<noteq> [] \<and> (\<forall>e \<in> set (ck_entries c). en_t e \<le> chunk_last c)"
    and "\<forall>t \<in> B. t \<in> chunk_blobs (pending @ source) \<or> int t \<le> c0 \<or> piece_durable session (vr_trace s) t"
    and "\<forall>t \<in> B. int t \<le> run_cursor s slot \<longrightarrow> int t \<le> c0 \<or> piece_durable session (vr_trace s) t"
    and "source \<noteq> [] \<longrightarrow> pending \<noteq> []"
  shows "\<forall>t \<in> B. int t \<le> c0 \<or> piece_durable session (vr_trace s') t"
  using assms
proof (induction "length pending + length source" arbitrary: pending source totals s rule: less_induct)
  case less
  show ?case
  proof (cases pending)
    case Nil
    then show ?thesis
      using less.prems by (auto simp: chunk_blobs_def)
  next
    case (Cons chunk rest)
    from less.prems(1) [unfolded Cons] obtain s2 s3 totals'' where st: "keeps slot s s2" "vr_state s2 = vr_state s" "keeps slot s2 s3"
      "\<forall>e \<in> set (ck_entries chunk). piece_durable session (vr_trace s3) (en_t e)"
      "run_cursor s3 slot = int (chunk_last chunk)"
      "drain_chunks flow session slot (fst (enqueue_chunks slot rest source s2)) (fst (snd (enqueue_chunks slot rest source s2)))
         totals'' s3 = (s', Inr totals')"
      by (rule drain_step)
    obtain p src q where enq: "enqueue_chunks slot rest source s2 = (p, src, q)"
      by (cases "enqueue_chunks slot rest source s2")
    note r = enqueue_chunks_rest [OF enq]
    have k: "keeps slot s s3"
      by (rule keeps_trans [OF st(1,3)])
    have sub: "set (p @ src) \<subseteq> set (rest @ source)"
      using r by (blast dest: list_emb_set)
    show ?thesis
    proof (rule less.hyps)
      show "drain_chunks flow session slot p src totals'' s3 = (s', Inr totals')"
        using st(6) by (simp add: enq)
      show "length p + length src < length pending + length source"
        using enqueue_total [OF enq] by (simp add: Cons)
      show "sorted_wrt chunk_less (p @ src)"
        using r less.prems(2) sorted_wrt_subseq by (auto simp: Cons)
      show "\<forall>c \<in> set (p @ src). ck_entries c \<noteq> [] \<and> (\<forall>e \<in> set (ck_entries c). en_t e \<le> chunk_last c)"
        using sub less.prems(3) by (auto simp: Cons)
      have old: "int t \<le> c0 \<or> piece_durable session (vr_trace s3) t"
        if "t \<in> B" "t \<in> chunk_blobs (rest @ source) - chunk_blobs (p @ src) \<or> piece_durable session (vr_trace s) t" for t
      proof (cases "piece_durable session (vr_trace s) t")
        case False
        with that(2) obtain c e where c: "c \<in> set (rest @ source) - set (p @ src)" "e \<in> set (ck_entries c)" "t = en_t e"
          unfolding chunk_blobs_def by blast
        then have "int t \<le> run_cursor s slot"
          using r less.prems(3) st(2) by (force simp: Cons)
        then show ?thesis
          using less.prems(5) that(1) piece_durable_keeps [OF _ k] by blast
      qed (use piece_durable_keeps [OF _ k] in blast)
      show blobs: "\<forall>t \<in> B. t \<in> chunk_blobs (p @ src) \<or> int t \<le> c0 \<or> piece_durable session (vr_trace s3) t"
      proof
        fix t
        assume t: "t \<in> B"
        then consider "t \<in> en_t ` set (ck_entries chunk)" | "t \<in> chunk_blobs (rest @ source)" | "int t \<le> c0" | "piece_durable session (vr_trace s) t"
          using less.prems(4) unfolding Cons append_Cons chunk_blobs_Cons by blast
        then show "t \<in> chunk_blobs (p @ src) \<or> int t \<le> c0 \<or> piece_durable session (vr_trace s3) t"
          using st(4) old [OF t] by cases blast+
      qed
      show "\<forall>t \<in> B. int t \<le> run_cursor s3 slot \<longrightarrow> int t \<le> c0 \<or> piece_durable session (vr_trace s3) t"
      proof (intro ballI impI)
        fix t
        assume t: "t \<in> B" "int t \<le> run_cursor s3 slot"
        have "t \<notin> chunk_blobs (p @ src)"
        proof
          assume "t \<in> chunk_blobs (p @ src)"
          then obtain c e where c: "c \<in> set (rest @ source)" "e \<in> set (ck_entries c)" "t = en_t e"
            using sub by (auto simp: chunk_blobs_def)
          have "chunk_less chunk c"
            using less.prems(2) c(1) by (auto simp: Cons)
          moreover have "last (ck_entries chunk) \<in> set (ck_entries chunk)"
            using less.prems(3) by (simp add: Cons)
          ultimately have "chunk_last chunk < t"
            using c(2,3) by (simp add: chunk_less_def chunk_last_def)
          then show False
            using t(2) st(5) by simp
        qed
        then show "int t \<le> c0 \<or> piece_durable session (vr_trace s3) t"
          using blobs t(1) by blast
      qed
      show "src \<noteq> [] \<longrightarrow> p \<noteq> []"
        using enqueue_chunks_full [OF enq] by auto
    qed
  qed
qed

definition slot_done :: "frozen_session_v3 \<Rightarrow> int \<Rightarrow> v3_trace \<Rightarrow> nat \<Rightarrow> bool" where
  "slot_done session through tr slot \<longleftrightarrow>
     (\<forall>t \<in> set (blobs_of (f3_first session) (f3_last session) slot). int t \<le> through \<or> piece_durable session tr t)"

lemma slot_chunks_done:
  assumes "slot_chunks_run flow session slot totals s = (s', Inr totals')"
  shows "slot_done session (run_cursor s slot) (vr_trace s') slot"
proof (cases "f3_first session \<le> f3_last session")
  case True
  from assms obtain chunks where chunks: "session_chunks session slot = Inr chunks"
    by (auto simp: slot_chunks_run_def split: sum.splits)
  obtain p src q where enq: "enqueue_chunks slot [] chunks s = (p, src, q)"
    by (cases "enqueue_chunks slot [] chunks s")
  have "drain_chunks flow session slot p src totals q = (s', Inr totals')"
    using assms by (simp add: slot_chunks_run_def chunks enq)
  note run = chunks enq this
  note c = session_chunks_blobs [OF run(1) True]
  note r = enqueue_chunks_rest [OF run(2), unfolded append_Nil]
  have q: "vr_state q = vr_state s"
    using enqueue_state [of slot "[]" chunks s] run(2) by simp
  have sub: "set (p @ src) \<subseteq> set chunks"
    using r by (blast dest: list_emb_set)
  have "\<forall>t \<in> set (blobs_of (f3_first session) (f3_last session) slot). int t \<le> run_cursor s slot \<or> piece_durable session (vr_trace s') t"
  proof (rule drain_durable [OF run(3)])
    show "sorted_wrt chunk_less (p @ src)"
      using r c(2) sorted_wrt_subseq by blast
    show "\<forall>c \<in> set (p @ src). ck_entries c \<noteq> [] \<and> (\<forall>e \<in> set (ck_entries c). en_t e \<le> chunk_last c)"
      using sub c(3) by blast
    show "\<forall>t \<in> set (blobs_of (f3_first session) (f3_last session) slot).
        t \<in> chunk_blobs (p @ src) \<or> int t \<le> run_cursor s slot \<or> piece_durable session (vr_trace q) t"
    proof
      fix t
      assume "t \<in> set (blobs_of (f3_first session) (f3_last session) slot)"
      then obtain c' e where e: "c' \<in> set chunks" "e \<in> set (ck_entries c')" "t = en_t e"
        unfolding c(1) [symmetric] chunk_blobs_def by blast
      then have "int t \<le> int (chunk_last c')"
        using c(3) by simp
      then show "t \<in> chunk_blobs (p @ src) \<or> int t \<le> run_cursor s slot \<or> piece_durable session (vr_trace q) t"
        using e r unfolding chunk_blobs_def by (cases "c' \<in> set (p @ src)") force+
    qed
    show "src \<noteq> [] \<longrightarrow> p \<noteq> []"
      using enqueue_chunks_full [OF run(2)] by auto
  qed (simp add: q)
  then show ?thesis
    by (simp add: slot_done_def)
qed (simp add: slot_done_def blobs_of_def)


section \<open>Acknowledgement follows durable output\<close>

text \<open>Every acknowledgement in the trace comes after the output of its slot.\<close>

definition acks_ok :: "(nat \<Rightarrow> int) \<Rightarrow> v3_trace \<Rightarrow> bool" where
  "acks_ok c0 tr \<longleftrightarrow> (\<forall>pre session slot r post. tr = pre @ Acked3 session slot r # post \<longrightarrow> slot_done session (c0 slot) pre slot)"

lemma acks_ok_Nil: "acks_ok c0 []"
  by (simp add: acks_ok_def)

lemma acks_ok_snoc:
  "acks_ok c0 (tr @ [e]) \<longleftrightarrow> acks_ok c0 tr \<and> (\<forall>session slot r. e = Acked3 session slot r \<longrightarrow> slot_done session (c0 slot) tr slot)"
proof -
  have "tr @ [e] = pre @ x # post \<longleftrightarrow> (post = [] \<and> pre = tr \<and> x = e) \<or> (\<exists>post'. post = post' @ [e] \<and> tr = pre @ x # post')" for pre x post
    by (cases post rule: rev_cases) auto
  then show ?thesis
    unfolding acks_ok_def by (simp only:) auto
qed

lemma acks_ok_append: "acks_ok c0 tr \<Longrightarrow> \<not> list_ex is_acked ext \<Longrightarrow> acks_ok c0 (tr @ ext)"
proof (induction ext rule: rev_induct)
  case (snoc e ext)
  then have "acks_ok c0 (tr @ ext)" "\<not> is_acked e"
    by simp_all
  then show ?case
    unfolding append.assoc [symmetric] acks_ok_snoc by auto
qed simp

lemma acks_ok_keeps: "acks_ok c0 (vr_trace s) \<Longrightarrow> keeps slot s s' \<Longrightarrow> acks_ok c0 (vr_trace s')"
  by (auto simp: keeps_def acks_ok_append)

lemma slot_done_append: "slot_done session c tr slot \<Longrightarrow> slot_done session c (tr @ ext) slot"
  by (auto simp: slot_done_def piece_durable_append)

text \<open>What the step for one slot does to the trace, whatever its result.\<close>

lemma output_slot_acks:
  assumes "output_slot flow slot session totals s = (s', res)" and "acks_ok c0 (vr_trace s)" "run_cursor s slot = c0 slot"
  shows "acks_ok c0 (vr_trace s') \<and> (\<forall>k. k \<noteq> slot \<longrightarrow> run_cursor s' k = run_cursor s k)"
proof (cases "int32 (f3_ackedMask session) AND slot_bit slot = 0")
  case True
  obtain s1 r1 where r1: "slot_chunks_run flow session slot totals s = (s1, r1)"
    by fastforce
  have k1: "keeps slot s s1"
    using keeps_slot_chunks [of slot s flow session totals] by (simp add: r1)
  show ?thesis
  proof (cases r1)
    case (Inl e)
    then show ?thesis
      using assms(1,2) True r1 acks_ok_keeps [OF assms(2) k1] k1 by (auto simp: output_slot_def xbind_def keeps_def)
  next
    case (Inr totals')
    obtain s2 r2 where r2: "acknowledge flow session slot s1 = (s2, r2)"
      by fastforce
    have tr: "vr_trace s2 = vr_trace s1 @ [Acked3 session slot r2]" "vr_state s2 = vr_state s1"
      using r2 by (auto simp: acknowledge_def logged_def Let_def)
    have "slot_done session (c0 slot) (vr_trace s1) slot"
      using slot_chunks_done [OF r1 [unfolded Inr]] assms(3) by simp
    then have ok: "acks_ok c0 (vr_trace s2)"
      unfolding tr(1) acks_ok_snoc using acks_ok_keeps [OF assms(2) k1] by simp
    have k2: "keeps slot s2 s'"
      using assms(1) True r1 r2 Inr keeps_refresh [OF keeps_refl, of slot s2 flow]
      by (auto simp: output_slot_def xbind_def split: sum.splits)
    show ?thesis
      using acks_ok_keeps [OF ok k2] k1 k2 tr(2) by (simp add: keeps_def)
  qed
qed (use assms in \<open>auto simp: output_slot_def split: if_splits\<close>)

lemma obligation_loop_acks:
  assumes "obligation_loop flow obligations session totals outcomes s = (s', res)"
    and "acks_ok c0 (vr_trace s)" "\<forall>x \<in> set obligations. run_cursor s (ob_slot x) = c0 (ob_slot x)" "distinct (map ob_slot obligations)"
  shows "acks_ok c0 (vr_trace s')"
  using assms
proof (induction obligations arbitrary: session totals outcomes s)
  case (Cons x rest)
  obtain s1 r1 where r1: "output_slot flow (ob_slot x) session totals s = (s1, r1)"
    by fastforce
  have o1: "acks_ok c0 (vr_trace s1)" "\<forall>k. k \<noteq> ob_slot x \<longrightarrow> run_cursor s1 k = run_cursor s k"
    using output_slot_acks [OF r1 Cons.prems(2)] Cons.prems(3) by auto
  show ?case
  proof (cases r1)
    case (Inl e)
    then show ?thesis
      using Cons.prems(1) r1 o1 by (auto simp: xbind_def)
  next
    case (Inr y)
    obtain session1 totals1 where y: "y = (session1, totals1)"
      by (cases y)
    obtain s2 r2 where r2: "settle_slot flow (ob_slot x) session1 outcomes s1 = (s2, r2)"
      by fastforce
    have k: "keeps (ob_slot x) s1 s2"
      using keeps_settle [of "ob_slot x" s1 flow "ob_slot x" session1 outcomes] by (simp add: r2)
    have o2: "acks_ok c0 (vr_trace s2)"
      by (rule acks_ok_keeps [OF o1(1) k])
    have c2: "\<forall>z \<in> set rest. run_cursor s2 (ob_slot z) = c0 (ob_slot z)"
    proof
      fix z
      assume z: "z \<in> set rest"
      then have "ob_slot z \<noteq> ob_slot x"
        using Cons.prems(4) by (auto simp: image_iff)
      then show "run_cursor s2 (ob_slot z) = c0 (ob_slot z)"
        using k o1(2) Cons.prems(3) z by (simp add: keeps_def)
    qed
    show ?thesis
    proof (cases r2)
      case (Inl e)
      then show ?thesis
        using Cons.prems(1) r1 \<open>r1 = Inr y\<close> y r2 o2 by (simp add: xbind_def)
    next
      case (Inr z)
      then show ?thesis
        using Cons.prems(1,4) \<open>r1 = Inr y\<close> r1 y r2 Cons.IH [OF _ o2 c2] by (cases z) (simp add: xbind_def)
    qed
  qed
qed simp

text \<open>
  C14: A provider is paid for a slot only after its data is safe. Whatever the ports answer,
  whenever a slot is acknowledged, each of its blobs in the range was either below the cursor of
  the checkpoint at the start, or its requested bytes, decoded from a verified chunk, were
  written at their place and flushed before.
\<close>

theorem v3_ack_after_durable:
  assumes "executeRetrievalV3 flow initial state = (run, res)" and "vr_trace run = pre @ Acked3 session slot r # post"
    and "\<And>s. vf_observe flow [] initial = Inr s \<Longrightarrow> distinct (map ob_slot (f3_obligations s))"
  shows "\<forall>t \<in> set (blobs_of (f3_first session) (f3_last session) slot).
    int t \<le> cursor (cs_cursors state) slot \<or> piece_durable session pre t"
proof (cases "vf_observe flow [] initial")
  case (Inl e)
  with assms(1,2) show ?thesis
    by (auto simp: executeRetrievalV3_def xbind_def observe_def logged_def Let_def Cons_eq_append_conv)
next
  case (Inr s)
  let ?s = "\<lparr>vr_trace = [Observed3 initial (Inr s)], vr_state = state\<rparr>"
  have "obligation_loop flow (f3_obligations s) s (0, 0) [] ?s = (run, res)"
    using assms(1) Inr by (simp add: executeRetrievalV3_def xbind_def observe_def logged_def Let_def)
  moreover have "acks_ok (cursor (cs_cursors state)) (vr_trace ?s)"
    using acks_ok_append [OF acks_ok_Nil, of "[Observed3 initial (Inr s)]"] by simp
  ultimately have "acks_ok (cursor (cs_cursors state)) (vr_trace run)"
    by (rule obligation_loop_acks) (simp_all add: assms(3) [OF Inr])
  then show ?thesis
    unfolding assms(2) acks_ok_def slot_done_def by blast
qed


section \<open>The output is the requested range\<close>

text \<open>Every write of the trace is one that \<open>Q\<close> allows, and every verified chunk was answered by the port.\<close>

fun write_allowed :: "v3_flow \<Rightarrow> (nat \<Rightarrow> bytes \<Rightarrow> bool) \<Rightarrow> v3_event \<Rightarrow> bool" where
  "write_allowed flow Q (Wrote3 off bs r) = Q off bs"
| "write_allowed flow Q (Verified3 chunk r) = (\<exists>tr. vf_verified flow tr chunk = r)"
| "write_allowed flow Q _ = True"

definition writes_allowed :: "v3_flow \<Rightarrow> (nat \<Rightarrow> bytes \<Rightarrow> bool) \<Rightarrow> v3_run \<Rightarrow> bool" where
  "writes_allowed flow Q s \<longleftrightarrow> list_all (write_allowed flow Q) (vr_trace s)"

lemma allowed_logged [simp]: "writes_allowed flow Q (logged e s) \<longleftrightarrow> writes_allowed flow Q s \<and> write_allowed flow Q e"
  by (simp add: writes_allowed_def logged_def)

lemma allowed_state [simp]: "writes_allowed flow Q (s\<lparr>vr_state := state\<rparr>) = writes_allowed flow Q s"
  by (simp add: writes_allowed_def)

lemma allowed_xbind:
  assumes "writes_allowed flow Q (fst r)" "\<And>x s1. snd r = Inr x \<Longrightarrow> writes_allowed flow Q s1 \<Longrightarrow> writes_allowed flow Q (fst (f x s1))"
  shows "writes_allowed flow Q (fst (xbind r f))"
  using assms by (auto simp: xbind_def split: sum.splits)

lemma allowed_steps:
  assumes "writes_allowed flow Q s"
  shows "writes_allowed flow Q (fst (v3_throwIfAborted flow s))" "writes_allowed flow Q (fst (await_chunk flow chunk s))"
    "writes_allowed flow Q (fst (output_flush flow s))" "writes_allowed flow Q (fst (v3_progress flow n l s))"
    "writes_allowed flow Q (fst (observe flow session s))" "writes_allowed flow Q (fst (requestProof flow session k s))"
    "writes_allowed flow Q (fst (acknowledge flow session k s))" "writes_allowed flow Q (fst (run_advance flow k through s))"
    "writes_allowed flow Q (fst (run_refresh flow session s))"
  using assms
  by (auto simp: v3_throwIfAborted_def await_chunk_def output_flush_def v3_progress_def observe_def requestProof_def
      acknowledge_def run_advance_def run_refresh_def Let_def split: option.splits sum.splits)

lemma allowed_enqueue: "writes_allowed flow Q s \<Longrightarrow> writes_allowed flow Q (snd (snd (enqueue_chunks k pending source s)))"
  by (induction k pending source s rule: enqueue_chunks.induct) auto

text \<open>The pieces that a verified chunk yields.\<close>

definition pieces_allowed :: "(nat \<Rightarrow> bytes \<Rightarrow> bool) \<Rightarrow> frozen_session_v3 \<Rightarrow> chunk_authority \<Rightarrow> bytes \<Rightarrow> bool" where
  "pieces_allowed Q session chunk encoded \<longleftrightarrow>
     (\<forall>j < length (ck_entries chunk). \<forall>bs. let t = en_t (ck_entries chunk ! j) in
        piece_from session t < piece_to session t
        \<longrightarrow> decode_piece session t (subarray (j * BLOB_SIZE_BYTES) ((j + 1) * BLOB_SIZE_BYTES) encoded) = Inr bs
        \<longrightarrow> Q (nat (piece_from session t - wanted_start session)) bs)"

lemma allowed_write:
  assumes "writes_allowed flow Q s"
    and "\<forall>j < length entries. \<forall>bs. piece_from session (en_t (entries ! j)) < piece_to session (en_t (entries ! j))
        \<longrightarrow> decode_piece session (en_t (entries ! j)) (subarray ((i + j) * BLOB_SIZE_BYTES) ((i + j + 1) * BLOB_SIZE_BYTES) encoded) = Inr bs
        \<longrightarrow> Q (nat (piece_from session (en_t (entries ! j)) - wanted_start session)) bs"
  shows "writes_allowed flow Q (fst (write_loop flow session encoded i entries l s))"
  using assms
proof (induction entries arbitrary: i l s)
  case (Cons entry entries)
  let ?t = "en_t entry"
  let ?off = "nat (piece_from session ?t - wanted_start session)"
  show ?case
  proof (cases "piece_from session ?t < piece_to session ?t")
    case True
    show ?thesis
    proof (cases "decode_piece session ?t (subarray (i * BLOB_SIZE_BYTES) ((i + 1) * BLOB_SIZE_BYTES) encoded)")
      case (Inr bs)
      have "Q ?off bs"
        using Cons.prems(2) [rule_format, of 0 bs] True Inr by simp
      then have w: "writes_allowed flow Q (fst (output_write flow ?off bs s))"
        using Cons.prems(1) by (simp add: output_write_def Let_def)
      have "writes_allowed flow Q (fst (write_loop flow session encoded (i + 1) entries l' s1))" if "writes_allowed flow Q s1" for l' s1
      proof (rule Cons.IH [OF that], intro allI impI)
        fix j bs
        assume j: "j < length entries" "piece_from session (en_t (entries ! j)) < piece_to session (en_t (entries ! j))"
          "decode_piece session (en_t (entries ! j)) (subarray ((i + 1 + j) * BLOB_SIZE_BYTES) ((i + 1 + j + 1) * BLOB_SIZE_BYTES) encoded) = Inr bs"
        show "Q (nat (piece_from session (en_t (entries ! j)) - wanted_start session)) bs"
          using Cons.prems(2) [rule_format, of "Suc j" bs] j by (simp del: mult_Suc)
      qed
      then show ?thesis
        using True Inr by (auto intro!: allowed_xbind w)
    qed (use Cons.prems True in simp)
  qed (use Cons.prems in simp)
qed simp

lemma allowed_drain:
  assumes "writes_allowed flow Q s" and "\<And>tr chunk encoded. vf_verified flow tr chunk = Inr encoded \<Longrightarrow> pieces_allowed Q session chunk encoded"
  shows "writes_allowed flow Q (fst (drain_chunks flow session slot pending source totals s))"
  using assms
proof (induction flow session slot pending source totals s rule: drain_chunks.induct)
  case (2 flow session slot chunk pending source chunks logicalBytes s)
  have w: "writes_allowed flow Q (fst (write_loop flow session encoded 0 (ck_entries chunk) l s2))"
    if "snd (await_chunk flow chunk s1) = Inr encoded" "writes_allowed flow Q s2" for encoded l s1 s2
    using 2(3) [of "vr_trace s1" chunk encoded] that
    by (intro allowed_write) (simp_all add: await_chunk_def pieces_allowed_def Let_def)
  show ?case
    unfolding drain_chunks.simps Let_def
    by (intro allowed_xbind allowed_steps 2(2)) (assumption | (rule w, assumption, rule allowed_enqueue, assumption) |
        (rule 2(1), rule refl, assumption, rule 2(3), assumption))+
qed simp

lemma allowed_slot_chunks:
  assumes "writes_allowed flow Q s" and "\<And>tr chunk encoded. vf_verified flow tr chunk = Inr encoded \<Longrightarrow> pieces_allowed Q session chunk encoded"
  shows "writes_allowed flow Q (fst (slot_chunks_run flow session slot totals s))"
  using assms by (auto simp: slot_chunks_run_def Let_def split: sum.splits intro!: allowed_drain allowed_enqueue)

lemma allowed_settle: "writes_allowed flow Q s \<Longrightarrow> writes_allowed flow Q (fst (settle_slot flow k session outcomes s))"
proof -
  have "writes_allowed flow Q (fst (proof_loop flow k n session outcomes s))" if "writes_allowed flow Q s" for n
    using that
  proof (induction n arbitrary: session outcomes s)
    case (Suc n)
    then show ?case
      by (auto intro!: allowed_xbind allowed_steps Suc.IH)
  qed simp
  then show "writes_allowed flow Q s \<Longrightarrow> writes_allowed flow Q (fst (settle_slot flow k session outcomes s))"
    by (simp add: settle_slot_def)
qed

text \<open>The session is for a range of a file that starts at a blob and has this content.\<close>

definition session_for :: "nat \<Rightarrow> bytes \<Rightarrow> nat \<Rightarrow> nat \<Rightarrow> frozen_session_v3 \<Rightarrow> bool" where
  "session_for k content rs rl session \<longleftrightarrow>
     rf_start_offset (f3_file session) = int (k * RAW_BLOB_BYTES) \<and> rf_size_bytes (f3_file session) = int (length content)
     \<and> f3_rangeStart session = rs \<and> f3_rangeLength session = rl"

definition chunk_served :: "nat \<Rightarrow> bytes \<Rightarrow> chunk_authority \<Rightarrow> bytes \<Rightarrow> bool" where
  "chunk_served k content chunk encoded \<longleftrightarrow>
     (\<forall>j < length (ck_entries chunk). subarray (j * BLOB_SIZE_BYTES) ((j + 1) * BLOB_SIZE_BYTES) encoded
        = stored_blob content (en_t (ck_entries chunk ! j) * RAW_BLOB_BYTES - k * RAW_BLOB_BYTES))"

lemma decode_piece_exact:
  assumes session: "session_for k content rs rl session" "rs + rl \<le> length content"
    and piece: "piece_from session t < piece_to session t"
  defines "off \<equiv> nat (piece_from session t - wanted_start session)" and "len \<equiv> nat (piece_to session t - piece_from session t)"
  shows "decode_piece session t (stored_blob content (t * RAW_BLOB_BYTES - k * RAW_BLOB_BYTES))
      = Inr (subarray (rs + off) (rs + off + len) content)" and "off + len \<le> rl"
proof -
  define p where "p = t * RAW_BLOB_BYTES - k * RAW_BLOB_BYTES"
  define v where "v = min RAW_BLOB_BYTES (length content - p)"
  define a where "a = nat (piece_from session t - int (t * RAW_BLOB_BYTES))"
  have w: "wanted_start session = int (k * RAW_BLOB_BYTES) + int rs" "wanted_end session = int (k * RAW_BLOB_BYTES) + int rs + int rl"
    using session(1) by (simp_all add: session_for_def wanted_start_def wanted_end_def)
  have ft: "piece_from session t = max (int (t * RAW_BLOB_BYTES)) (wanted_start session)"
      "piece_to session t = min (int (t * RAW_BLOB_BYTES) + int RAW_BLOB_BYTES) (wanted_end session)"
    by (simp_all add: piece_from_def piece_to_def Let_def)
  have "int (k * RAW_BLOB_BYTES) < int ((t + 1) * RAW_BLOB_BYTES)"
    using piece ft w by simp
  then have "k * RAW_BLOB_BYTES < (t + 1) * RAW_BLOB_BYTES"
    by (simp only: of_nat_less_iff)
  then have "k < t + 1"
    by (simp only: mult_less_cancel2)
  then have kt: "k * RAW_BLOB_BYTES \<le> t * RAW_BLOB_BYTES"
    by simp
  have ints: "int p = int (t * RAW_BLOB_BYTES) - int (k * RAW_BLOB_BYTES)" "int off = piece_from session t - wanted_start session"
      "int len = piece_to session t - piece_from session t" "int a = piece_from session t - int (t * RAW_BLOB_BYTES)"
    using kt piece ft by (simp_all add: p_def off_def len_def a_def)
  show rl: "off + len \<le> rl"
    using ints ft w by linarith
  have at: "p + a = rs + off"
    using ints w by linarith
  have blob: "a + len \<le> RAW_BLOB_BYTES"
    using ints(3,4) ft by linarith
  have valid: "rf_start_offset (f3_file session) + rf_size_bytes (f3_file session) - int (t * RAW_BLOB_BYTES) = int (length content - p)"
    using session at rl piece ints(3) ints(1) by (simp add: session_for_def of_nat_diff)
  let ?raw = "subarray p (p + RAW_BLOB_BYTES) content"
  have "length ?raw = v"
    by (simp add: v_def length_subarray)
  moreover have "a + len \<le> v" "v \<le> 126976"
    using at blob rl session(2) unfolding v_def by simp_all
  moreover have "subarray (rs + off) (rs + off + len) content = subarray a (a + len) ?raw"
    using blob at [symmetric] by (subst subarray_subarray) (simp_all add: add.assoc)
  ultimately have dec: "decodeRetrievalSlice (stored_blob content p) (num v) (num a) (num len) = Inr (subarray (rs + off) (rs + off + len) content)"
    unfolding decodeRetrievalSlice_Inr stored_blob_def by blast
  have least: "(if int (length content - p) < int RAW_BLOB_BYTES then int (length content - p) else int RAW_BLOB_BYTES) = int v"
    unfolding v_def by simp
  show "decode_piece session t (stored_blob content (t * RAW_BLOB_BYTES - k * RAW_BLOB_BYTES))
      = Inr (subarray (rs + off) (rs + off + len) content)"
    unfolding decode_piece_def Let_def valid p_def [symmetric] ints(3,4) [symmetric] least of_int_of_nat_eq num_def [symmetric] by (rule dec)
qed

text \<open>Sessions that the ports return, once the checkpoint has taken them.\<close>

lemma matches_frozen: "frozen_request a = frozen_request b \<Longrightarrow> sessionMatchesState a session = sessionMatchesState b session"
  by (cases a; cases b) (simp add: frozen_request_def sessionMatchesState_def)

definition returned :: "v3_flow \<Rightarrow> frozen_session_v3 \<Rightarrow> bool" where
  "returned flow session \<longleftrightarrow> (\<exists>tr x. vf_observe flow tr x = Inr session \<or> (\<exists>k. vf_acknowledge flow tr x k = Inr session))"

definition taken :: "v3_flow \<Rightarrow> checkpoint_state \<Rightarrow> frozen_session_v3 \<Rightarrow> bool" where
  "taken flow state session \<longleftrightarrow> returned flow session \<and> sessionMatchesState state session"

lemma run_refresh_Inr:
  "run_refresh flow session s = (s', Inr ()) \<Longrightarrow> sessionMatchesState (vr_state s) session"
  by (auto simp: run_refresh_def refresh_Inr split: sum.splits)

lemma below_slot_end:
  assumes "t \<in> set (blobs_of a b slot)"
  shows "int t \<le> retrievalV3SlotEnd b slot"
proof -
  have t: "t \<le> b" "t mod 8 = slot"
    using assms by (auto simp: blobs_of_def)
  obtain q where q: "t = 8 * q + slot" "slot < 8"
    using t(2) by (metis mult_div_mod_eq mod_less_divisor zero_less_numeral)
  obtain p r where p: "b = 8 * p + r" "r < 8"
    by (metis mult_div_mod_eq mod_less_divisor zero_less_numeral)
  have r: "b mod 8 = r"
    using p by simp
  show ?thesis
  proof (cases "slot \<le> r")
    case True
    then have "(int r - int slot + 8) mod 8 = int r - int slot"
      using p(2) by (simp add: mod_pos_pos_trivial)
    moreover have "q \<le> p"
      using t(1) q p True by linarith
    ultimately show ?thesis
      unfolding retrievalV3SlotEnd_def r using p(1) q(1) by simp
  next
    case False
    then have "(int r - int slot + 8) mod 8 = int r - int slot + 8"
      using q(2) by (intro mod_pos_pos_trivial) simp_all
    moreover have "q < p"
      using t(1) q p False by linarith
    ultimately show ?thesis
      unfolding retrievalV3SlotEnd_def r using p(1) q(1) by simp
  qed
qed

lemma output_slot_done:
  assumes "output_slot flow slot session totals s = (s', Inr (session', totals'))" and "taken flow (vr_state s) session"
  shows "slot_done session (run_cursor s slot) (vr_trace s') slot" "\<exists>ext. vr_trace s' = vr_trace s @ ext"
    "\<forall>k. k \<noteq> slot \<longrightarrow> run_cursor s' k = run_cursor s k" "frozen_request (vr_state s') = frozen_request (vr_state s)"
    "taken flow (vr_state s) session'"
proof -
  have "slot_done session (run_cursor s slot) (vr_trace s') slot \<and> (\<exists>ext. vr_trace s' = vr_trace s @ ext)
    \<and> (\<forall>k. k \<noteq> slot \<longrightarrow> run_cursor s' k = run_cursor s k) \<and> frozen_request (vr_state s') = frozen_request (vr_state s)
    \<and> taken flow (vr_state s) session'"
  proof (cases "int32 (f3_ackedMask session) AND slot_bit slot = 0")
    case True
    then obtain s1 s2 where r: "slot_chunks_run flow session slot totals s = (s1, Inr totals')"
        "acknowledge flow session slot s1 = (s2, Inr session')" "run_refresh flow session' s2 = (s', Inr ())"
      using assms(1) by (auto simp: output_slot_def xbind_success)
    have k: "keeps slot s s1" "keeps slot s2 s'"
      using keeps_slot_chunks [of slot s flow session totals] keeps_refresh [OF keeps_refl, of slot s2 flow session'] by (simp_all add: r)
    have s2: "vr_trace s2 = vr_trace s1 @ [Acked3 session slot (Inr session')]" "vr_state s2 = vr_state s1" "returned flow session'"
      using r(2) by (auto simp: acknowledge_def logged_def Let_def returned_def)
    have f: "frozen_request (vr_state s1) = frozen_request (vr_state s)" "frozen_request (vr_state s') = frozen_request (vr_state s1)"
      using k s2(2) by (simp_all add: keeps_def)
    have taken: "taken flow (vr_state s) session'"
      using run_refresh_Inr [OF r(3)] s2(2,3) matches_frozen [OF f(1), of session'] by (simp add: taken_def)
    obtain ext ext' where ext: "vr_trace s1 = vr_trace s @ ext" "vr_trace s' = vr_trace s2 @ ext'"
      using k unfolding keeps_def by blast
    have "slot_done session (run_cursor s slot) (vr_trace s') slot"
      unfolding ext(2) s2(1) by (intro slot_done_append slot_chunks_done [OF r(1)])
    moreover have "\<forall>k. k \<noteq> slot \<longrightarrow> run_cursor s' k = run_cursor s k"
      using k s2(2) by (simp add: keeps_def)
    ultimately show ?thesis
      using taken f ext s2(1) by simp
  next
    case False
    then have eq: "s' = s" "session' = session" "retrievalV3SlotEnd (f3_last session) slot \<le> run_cursor s slot"
      using assms(1) by (auto simp: output_slot_def split: if_splits)
    have "int t \<le> run_cursor s slot" if "t \<in> set (blobs_of (f3_first session) (f3_last session) slot)" for t
      using below_slot_end [OF that] eq(3) by simp
    then show ?thesis
      using assms(2) by (simp add: slot_done_def eq(1,2))
  qed
  then show "slot_done session (run_cursor s slot) (vr_trace s') slot" "\<exists>ext. vr_trace s' = vr_trace s @ ext"
    "\<forall>k. k \<noteq> slot \<longrightarrow> run_cursor s' k = run_cursor s k" "frozen_request (vr_state s') = frozen_request (vr_state s)"
    "taken flow (vr_state s) session'"
    by blast+
qed

lemma settle_slot_taken:
  assumes "settle_slot flow slot session outcomes s = (s', Inr (session', outcomes'))" and "taken flow (vr_state s) session"
  shows "taken flow (vr_state s) session'"
proof -
  have "proof_loop flow slot n session outcomes s = (s', Inr (session', outcomes')) \<Longrightarrow> taken flow (vr_state s) session
      \<Longrightarrow> taken flow (vr_state s) session'" for n
  proof (induction n arbitrary: session outcomes s)
    case (Suc n)
    show ?case
    proof (cases "int32 (f3_settledMask session) AND slot_bit slot = 0")
      case True
      obtain outcome s1 where r1: "requestProof flow session slot s = (s1, Inr outcome)"
        and rest: "(if po_slot outcome \<noteq> None \<and> po_slot outcome \<noteq> Some slot then (s1, Inl ''provider proof outcome has the wrong v3 slot'')
           else xbind (observe flow session s1) (\<lambda>session s. xbind (run_refresh flow session s) (\<lambda>_ s.
             if po_state outcome \<noteq> ProofAccepted \<or> po_remaining outcome = None \<or> po_remaining outcome = Some 0
             then (s, Inr (session, outcomes @ [outcome]))
             else proof_loop flow slot n session (outcomes @ [outcome]) s))) = (s', Inr (session', outcomes'))"
        using Suc.prems(1) True by (auto simp: xbind_success [of "requestProof flow session slot s"])
      obtain session1 s2 where r2: "observe flow session s1 = (s2, Inr session1)"
        and rest: "xbind (run_refresh flow session1 s2) (\<lambda>_ s.
             if po_state outcome \<noteq> ProofAccepted \<or> po_remaining outcome = None \<or> po_remaining outcome = Some 0
             then (s, Inr (session1, outcomes @ [outcome]))
             else proof_loop flow slot n session1 (outcomes @ [outcome]) s) = (s', Inr (session', outcomes'))"
        using rest by (auto simp: xbind_success [of "observe flow session s1"] split: if_splits)
      obtain s3 where r3: "run_refresh flow session1 s2 = (s3, Inr ())"
        and r4: "session' = session1 \<or> proof_loop flow slot n session1 (outcomes @ [outcome]) s3 = (s', Inr (session', outcomes'))"
        using rest by (auto simp: xbind_success split: if_splits)
      have s: "vr_state s1 = vr_state s" "vr_state s2 = vr_state s" "returned flow session1"
        using r1 r2 by (auto simp: requestProof_def observe_def logged_def Let_def returned_def)
      have t1: "taken flow (vr_state s) session1"
        using run_refresh_Inr [OF r3] s by (simp add: taken_def)
      have f: "frozen_request (vr_state s3) = frozen_request (vr_state s)"
        using keeps_refresh [OF keeps_refl, of slot s2 flow session1] r3 s(2) by (simp add: keeps_def)
      show ?thesis
        using r4
      proof
        assume "proof_loop flow slot n session1 (outcomes @ [outcome]) s3 = (s', Inr (session', outcomes'))"
        from Suc.IH [OF this] show ?thesis
          using t1 unfolding taken_def matches_frozen [OF f] .
      qed (use t1 in simp)
    qed (use Suc.prems in auto)
  qed simp
  then show ?thesis
    using assms by (auto simp: settle_slot_def split: if_splits)
qed

lemma output_slot_allowed:
  assumes "output_slot flow slot session totals s = (s', res)" and "writes_allowed flow Q s"
    and "\<And>tr chunk encoded. vf_verified flow tr chunk = Inr encoded \<Longrightarrow> pieces_allowed Q session chunk encoded"
  shows "writes_allowed flow Q s'"
proof -
  have "writes_allowed flow Q (fst (output_slot flow slot session totals s))"
    using assms(2,3) unfolding output_slot_def by (auto intro!: allowed_xbind allowed_steps allowed_slot_chunks)
  then show ?thesis
    by (simp add: assms(1))
qed

lemma obligation_loop_done:
  assumes "obligation_loop flow obligations session totals outcomes s = (s', Inr res)"
    and "taken flow (vr_state s) session" "writes_allowed flow Q s"
    and "\<forall>session. taken flow (vr_state s) session \<longrightarrow>
          (\<forall>tr chunk encoded. vf_verified flow tr chunk = Inr encoded \<longrightarrow> pieces_allowed Q session chunk encoded)"
    and "\<forall>x \<in> set obligations. run_cursor s (ob_slot x) = c0 (ob_slot x)" "distinct (map ob_slot obligations)"
  shows "writes_allowed flow Q s' \<and> (\<exists>ext. vr_trace s' = vr_trace s @ ext)
    \<and> (\<forall>x \<in> set obligations. \<exists>y. taken flow (vr_state s) y \<and> slot_done y (c0 (ob_slot x)) (vr_trace s') (ob_slot x))"
  using assms
proof (induction obligations arbitrary: session totals outcomes s)
  case (Cons x rest)
  obtain session1 totals1 s1 session2 outcomes2 s2 where
    r1: "output_slot flow (ob_slot x) session totals s = (s1, Inr (session1, totals1))" and
    r2: "settle_slot flow (ob_slot x) session1 outcomes s1 = (s2, Inr (session2, outcomes2))" and
    r3: "obligation_loop flow rest session2 totals1 outcomes2 s2 = (s', Inr res)"
    using Cons.prems(1) by (auto simp: xbind_success split: prod.splits)
  note o1 = output_slot_done [OF r1 Cons.prems(2)]
  have same1: "taken flow (vr_state s1) y = taken flow (vr_state s) y" for y
    unfolding taken_def matches_frozen [OF o1(4)] ..
  have t2: "taken flow (vr_state s) session2"
    using settle_slot_taken [OF r2] o1(5) by (simp add: same1)
  have k: "keeps (ob_slot x) s1 s2"
    using keeps_settle [of "ob_slot x" s1 flow "ob_slot x" session1 outcomes] by (simp add: r2)
  have f2: "frozen_request (vr_state s2) = frozen_request (vr_state s1)"
    using k by (simp add: keeps_def)
  have same2: "taken flow (vr_state s2) y = taken flow (vr_state s) y" for y
    unfolding same1 [symmetric] unfolding taken_def matches_frozen [OF f2] ..
  have w1: "writes_allowed flow Q s1"
    using output_slot_allowed [OF r1 Cons.prems(3)] Cons.prems(4) Cons.prems(2) by blast
  have w2: "writes_allowed flow Q s2"
    using allowed_settle [OF w1, of "ob_slot x" session1 outcomes] by (simp add: r2)
  have c2: "\<forall>z \<in> set rest. run_cursor s2 (ob_slot z) = c0 (ob_slot z)"
  proof
    fix z
    assume z: "z \<in> set rest"
    then have "ob_slot z \<noteq> ob_slot x"
      using Cons.prems(6) by (auto simp: image_iff)
    then show "run_cursor s2 (ob_slot z) = c0 (ob_slot z)"
      using k o1(3) Cons.prems(5) z by (simp add: keeps_def)
  qed
  have t2': "taken flow (vr_state s2) session2"
    using t2 same2 by simp
  have pieces: "\<forall>y. taken flow (vr_state s2) y \<longrightarrow>
      (\<forall>tr chunk encoded. vf_verified flow tr chunk = Inr encoded \<longrightarrow> pieces_allowed Q y chunk encoded)"
    using Cons.prems(4) unfolding same2 .
  have "distinct (map ob_slot rest)"
    using Cons.prems(6) by simp
  note ih = Cons.IH [OF r3 t2' w2 pieces c2 this, unfolded same2]
  obtain ext1 ext2 ext3 where ext: "vr_trace s1 = vr_trace s @ ext1" "vr_trace s2 = vr_trace s1 @ ext2" "vr_trace s' = vr_trace s2 @ ext3"
    using o1(2) k ih unfolding keeps_def by blast
  have "slot_done session (c0 (ob_slot x)) (vr_trace s') (ob_slot x)"
    using o1(1) Cons.prems(5) unfolding ext(2,3) by (simp add: slot_done_append)
  then show ?case
    using ih Cons.prems(2) ext by auto
qed simp

definition v3_writes :: "v3_trace \<Rightarrow> (nat \<times> bytes) list" where
  "v3_writes tr = List.map_filter (\<lambda>e. case e of Wrote3 off bs (Inr _) \<Rightarrow> Some (off, bs) | _ \<Rightarrow> None) tr"

lemma set_v3_writes: "set (v3_writes tr) = {(off, bs). Wrote3 off bs (Inr ()) \<in> set tr}"
  by (auto simp: v3_writes_def List.map_filter_def split: v3_event.splits sum.splits)

text \<open>The blobs of a session are those that its range touches, as the range planner computes them.\<close>

definition canonical_blobs :: "frozen_session_v3 \<Rightarrow> bool" where
  "canonical_blobs session \<longleftrightarrow>
     int (f3_first session) = wanted_start session div int RAW_BLOB_BYTES
     \<and> int (f3_last session) = (wanted_end session - 1) div int RAW_BLOB_BYTES"

definition state_for :: "nat \<Rightarrow> bytes \<Rightarrow> nat \<Rightarrow> nat \<Rightarrow> checkpoint_state \<Rightarrow> bool" where
  "state_for k content rs rl state \<longleftrightarrow>
     rf_start_offset (cs_file state) = int (k * RAW_BLOB_BYTES) \<and> rf_size_bytes (cs_file state) = int (length content)
     \<and> cs_rangeStart state = int rs \<and> cs_rangeLength state = int rl"

lemma session_for_matching:
  "state_for k content rs rl state \<Longrightarrow> sessionMatchesState state session \<Longrightarrow> session_for k content rs rl session"
  by (auto simp: state_for_def sessionMatchesState_def sameFile_def session_for_def)

definition piece_of :: "bytes \<Rightarrow> nat \<Rightarrow> nat \<Rightarrow> nat \<Rightarrow> bytes \<Rightarrow> bool" where
  "piece_of content rs rl off bs \<longleftrightarrow> off + length bs \<le> rl \<and> bs = subarray (rs + off) (rs + off + length bs) content"

lemma served_pieces:
  assumes "session_for k content rs rl session" "rs + rl \<le> length content" "chunk_served k content chunk encoded"
  shows "pieces_allowed (piece_of content rs rl) session chunk encoded"
proof -
  have "piece_of content rs rl (nat (piece_from session t - wanted_start session)) bs"
    if t: "piece_from session t < piece_to session t"
      "decode_piece session t (stored_blob content (t * RAW_BLOB_BYTES - k * RAW_BLOB_BYTES)) = Inr bs" for t bs
    using decode_piece_exact [OF assms(1,2) t(1)] t(2) assms(2) by (auto simp: piece_of_def)
  then show ?thesis
    using assms(3) unfolding pieces_allowed_def chunk_served_def Let_def by simp
qed

text \<open>A durable piece covers the bytes of its blob.\<close>

lemma durable_byte:
  assumes "session_for k content rs rl session" "rs + rl \<le> length content" "x < rl"
    and "t = (k * RAW_BLOB_BYTES + rs + x) div RAW_BLOB_BYTES" "piece_durable session tr t"
    and "\<forall>chunk encoded. Verified3 chunk (Inr encoded) \<in> set tr \<longrightarrow> chunk_served k content chunk encoded"
  shows "\<exists>off bs. Wrote3 off bs (Inr ()) \<in> set tr \<and> off \<le> x \<and> x < off + length bs"
proof -
  let ?off = "nat (piece_from session t - wanted_start session)"
  let ?len = "nat (piece_to session t - piece_from session t)"
  obtain u v w chunk encoded i bs where tr: "tr = u @ Wrote3 ?off bs (Inr ()) # v @ Flushed3 (Inr ()) # w" "Verified3 chunk (Inr encoded) \<in> set u"
    and i: "i < length (ck_entries chunk)" "en_t (ck_entries chunk ! i) = t" "piece_from session t < piece_to session t"
      "decode_piece session t (subarray (i * BLOB_SIZE_BYTES) ((i + 1) * BLOB_SIZE_BYTES) encoded) = Inr bs"
    using assms(5) unfolding piece_durable_def by blast
  have "Wrote3 ?off bs (Inr ()) \<in> set tr" "Verified3 chunk (Inr encoded) \<in> set tr"
    using tr by simp_all
  note d = this i
  have "decode_piece session t (stored_blob content (t * RAW_BLOB_BYTES - k * RAW_BLOB_BYTES)) = Inr bs"
    using d(3,4,6) assms(6) [rule_format, OF d(2), unfolded chunk_served_def, rule_format, OF d(3)] by simp
  then have bs: "length bs = ?len"
    using decode_piece_exact [OF assms(1,2) d(5)] assms(2) by (auto simp: length_subarray)
  have t: "t * RAW_BLOB_BYTES \<le> k * RAW_BLOB_BYTES + rs + x" "k * RAW_BLOB_BYTES + rs + x < t * RAW_BLOB_BYTES + RAW_BLOB_BYTES"
    unfolding assms(4) by (rule div_times_less_eq_dividend) (simp add: dividend_less_div_times)
  have w: "wanted_start session = int (k * RAW_BLOB_BYTES) + int rs" "wanted_end session = int (k * RAW_BLOB_BYTES) + int rs + int rl"
    using assms(1) by (simp_all add: session_for_def wanted_start_def wanted_end_def)
  have ft: "piece_from session t = max (int (t * RAW_BLOB_BYTES)) (wanted_start session)"
      "piece_to session t = min (int (t * RAW_BLOB_BYTES) + int RAW_BLOB_BYTES) (wanted_end session)"
    by (simp_all add: piece_from_def piece_to_def Let_def)
  have "?off \<le> x"
    using t(1) w ft(1) by (simp add: nat_le_iff)
  moreover have "x < ?off + ?len"
  proof -
    have "int x < int ?off + int ?len"
      using t(2) w ft d(5) assms(3) by (simp add: min_def split: if_splits)
    then show ?thesis
      by linarith
  qed
  ultimately show ?thesis
    using d(1) bs by (intro exI [of _ ?off] exI [of _ bs]) auto
qed

lemma byte_blob:
  assumes "session_for k content rs rl session" "canonical_blobs session" "x < rl"
    and "t = (k * RAW_BLOB_BYTES + rs + x) div RAW_BLOB_BYTES"
  shows "t \<in> set (blobs_of (f3_first session) (f3_last session) (t mod 8))"
proof -
  have "int (f3_first session) = int (k * RAW_BLOB_BYTES + rs) div int RAW_BLOB_BYTES"
    using assms(1,2) by (simp add: canonical_blobs_def session_for_def wanted_start_def)
  then have first: "f3_first session = (k * RAW_BLOB_BYTES + rs) div RAW_BLOB_BYTES"
    by (simp only: zdiv_int [symmetric] of_nat_eq_iff)
  have "int (f3_last session) = int (k * RAW_BLOB_BYTES + rs + rl - 1) div int RAW_BLOB_BYTES"
    using assms(1-3) by (simp add: canonical_blobs_def session_for_def wanted_start_def wanted_end_def of_nat_diff algebra_simps)
  then have last: "f3_last session = (k * RAW_BLOB_BYTES + rs + rl - 1) div RAW_BLOB_BYTES"
    by (simp only: zdiv_int [symmetric] of_nat_eq_iff)
  have "f3_first session \<le> t" "t \<le> f3_last session"
    unfolding first last assms(4) using assms(3) by (auto intro: div_le_mono)
  then show ?thesis
    unfolding blobs_of_def set_filter set_upt by simp
qed

text \<open>A run for a session with one blob, from an empty checkpoint.\<close>

definition v3_settled :: frozen_session_v3 where
  "v3_settled = v3_session\<lparr>f3_ackedMask := 1, f3_settledMask := 1\<rparr>"

definition v3_ports :: v3_flow where
  "v3_ports = \<lparr>vf_observe = (\<lambda>_ _. Inr v3_session), vf_verified = (\<lambda>_ c. if c = v3_chunk then Inr (pack_blob [1, 2, 3]) else Inl ''chunk''), vf_write = (\<lambda>_ _ _. Inr ()),
     vf_flush = (\<lambda>_. Inr ()), vf_put = (\<lambda>_. Inr ()), vf_progress = None, vf_acknowledge = (\<lambda>_ _ _. Inr v3_settled),
     vf_requestProof = (\<lambda>_ _ _. Inl ''unused''), vf_aborted = (\<lambda>_. None)\<rparr>"

lemma v3_session_matches: "sessionMatchesState v3_checkpoint v3_session" "sessionMatchesState v3_checkpoint v3_settled"
  by (simp_all add: sessionMatchesState_def v3_checkpoint_def v3_settled_def sameFile_def sameFrozenGenerationV3_def list_all_iff)

lemma v3_piece_run: "decode_piece v3_session 0 (pack_blob [1, 2, 3]) = Inr [1, 2, 3]"
  using decode_piece_exact(1) [of 0 "[1, 2, 3]" 0 3 v3_session 0]
  by (simp add: session_for_def v3_file_def stored_blob_def subarray_def piece_from_def piece_to_def wanted_start_def wanted_end_def)

lemma v3_ports_simps [simp]:
  "vf_observe v3_ports tr x = Inr v3_session" "vf_verified v3_ports tr c = (if c = v3_chunk then Inr (pack_blob [1, 2, 3]) else Inl ''chunk'')" "vf_write v3_ports tr off bs = Inr ()"
  "vf_flush v3_ports tr = Inr ()" "vf_put v3_ports tr = Inr ()" "vf_progress v3_ports = None" "vf_acknowledge v3_ports tr x k = Inr v3_settled"
  "vf_aborted v3_ports tr = None" "cs_cursors v3_checkpoint = Map.empty" "cs_session v3_checkpoint = Some v3_session"
  "ck_entries v3_chunk = [\<lparr>en_t = 0, en_mduIndex = 2, en_leafIndex = 0, en_integrityPosition = 0\<rparr>]" "chunk_last v3_chunk = 0"
  by (simp_all add: v3_ports_def v3_checkpoint_def v3_chunk_def chunk_last_def)

lemma v3_write_run:
  "write_loop v3_ports v3_session (pack_blob [1, 2, 3]) 0 [\<lparr>en_t = 0, en_mduIndex = 2, en_leafIndex = 0, en_integrityPosition = 0\<rparr>] 0 s = (logged (Wrote3 0 [1, 2, 3] (Inr ())) s, Inr 3)"
proof -
  have "piece_from v3_session 0 = 0" "piece_to v3_session 0 = 3" "wanted_start v3_session = 0"
    by (simp_all add: piece_from_def piece_to_def wanted_start_def wanted_end_def v3_file_def)
  moreover have "subarray 0 131072 (pack_blob [1, 2, 3]) = pack_blob [1, 2, 3]"
    using subarray_whole [of "pack_blob [1, 2, 3]"] by simp
  ultimately show ?thesis
    by (simp add: v3_piece_run xbind_def output_write_def Let_def)
qed

definition v3_before_ack :: v3_trace where
  "v3_before_ack = [Observed3 v3_session (Inr v3_session), Requested3 v3_chunk, Verified3 v3_chunk (Inr (pack_blob [1, 2, 3])),
     Wrote3 0 [1, 2, 3] (Inr ()), Flushed3 (Inr ()), Advanced3 0 0 (Inr ())]"

lemma v3_slot_run:
  "slot_chunks_run v3_ports v3_session 0 (0, 0) \<lparr>vr_trace = [Observed3 v3_session (Inr v3_session)], vr_state = v3_checkpoint\<rparr>
   = (\<lparr>vr_trace = v3_before_ack, vr_state = v3_checkpoint\<lparr>cs_cursors := [0 \<mapsto> 0]\<rparr>\<rparr>, Inr (1, 3))"
  by (simp add: slot_chunks_run_def v3_chunk_run v3_write_run xbind_def logged_def v3_throwIfAborted_def await_chunk_def output_flush_def
      run_advance_def advance_def save_state_def v3_progress_def cursor_def v3_before_ack_def Let_def del: write_loop.simps)

lemma v3_run:
  "\<exists>run. executeRetrievalV3 v3_ports v3_session v3_checkpoint = (run, Inr (v3_settled, []))
     \<and> vr_trace run = v3_before_ack @ Acked3 v3_session 0 (Inr v3_settled) # [Refreshed3 v3_settled (Inr ())]"
proof -
  have masks: "int32 0 AND slot_bit 0 = 0" "int32 (f3_settledMask v3_settled) AND slot_bit 0 \<noteq> 0"
    by (simp_all add: v3_settled_def int32_def slot_bit_def)
  obtain x where x: "f3_obligations v3_session = [x]" "ob_slot x = 0"
    by (simp add: v3_session_def)
  have matches: "sessionMatchesState (v3_checkpoint\<lparr>cs_cursors := c\<rparr>) v3_settled" "f3_sessionId v3_settled = hex (replicate 32 4)" for c
    using v3_session_matches(2) by (simp_all add: sessionMatchesState_def v3_settled_def)
  show ?thesis
    by (simp add: executeRetrievalV3_def xbind_def observe_def logged_def Let_def x output_slot_def masks v3_slot_run acknowledge_def
        run_refresh_def refresh_def save_state_def matches settle_slot_def)
qed

theorem v3_ack_after_durable_witness:
  "piece_durable v3_session v3_before_ack 0"
proof -
  obtain run where "executeRetrievalV3 v3_ports v3_session v3_checkpoint = (run, Inr (v3_settled, []))"
      "vr_trace run = v3_before_ack @ Acked3 v3_session 0 (Inr v3_settled) # [Refreshed3 v3_settled (Inr ())]"
    using v3_run by blast
  from v3_ack_after_durable [OF this] show ?thesis
    by (simp add: blobs_of_def cursor_def)
qed

text \<open>
  C13: A retrieval that completes has produced the requested bytes, also when it goes on from a
  checkpoint. Suppose the verified chunks are the stored blobs of the file, the sessions that the
  ports return have the blobs of their range, and the output already holds the bytes of the blobs
  that the cursors cover. Then applying the writes of a completed run to the output gives
  exactly the requested range of the content.
\<close>

theorem v3_output_exact:
  assumes "executeRetrievalV3 flow initial state = (run, Inr res)"
    and "state_for k content rs rl state" "rs + rl \<le> length content"
    and "vf_observe flow [] initial = Inr s" "sessionMatchesState state s" "distinct (map ob_slot (f3_obligations s))"
    and "\<forall>slot. blobs_of (f3_first s) (f3_last s) slot \<noteq> [] \<longrightarrow> slot \<in> ob_slot ` set (f3_obligations s)"
    and "\<forall>session. returned flow session \<longrightarrow> canonical_blobs session"
    and "\<forall>tr chunk encoded. vf_verified flow tr chunk = Inr encoded \<longrightarrow> chunk_served k content chunk encoded"
    and "length buf = rl"
    and "\<forall>x < rl. let t = (k * RAW_BLOB_BYTES + rs + x) div RAW_BLOB_BYTES in
           int t \<le> cursor (cs_cursors state) (t mod 8) \<longrightarrow> buf ! x = content ! (rs + x)"
  shows "apply_writes (v3_writes (vr_trace run)) buf = subarray rs (rs + rl) content"
proof -
  let ?s = "\<lparr>vr_trace = [Observed3 initial (Inr s)], vr_state = state\<rparr>"
  let ?Q = "piece_of content rs rl" and ?c = "cursor (cs_cursors state)" and ?target = "subarray rs (rs + rl) content"
  have loop: "obligation_loop flow (f3_obligations s) s (0, 0) [] ?s = (run, Inr res)"
    using assms(1,4) by (simp add: executeRetrievalV3_def xbind_def observe_def logged_def Let_def)
  have fits: "session_for k content rs rl y" if "taken flow (vr_state ?s) y" for y
    using that session_for_matching [OF assms(2)] by (simp add: taken_def)
  have "taken flow (vr_state ?s) s"
    using assms(4,5) by (auto simp: taken_def returned_def)
  moreover have "writes_allowed flow ?Q ?s"
    by (simp add: writes_allowed_def)
  moreover have "\<forall>y. taken flow (vr_state ?s) y \<longrightarrow>
      (\<forall>tr chunk encoded. vf_verified flow tr chunk = Inr encoded \<longrightarrow> pieces_allowed ?Q y chunk encoded)"
    using served_pieces [OF fits assms(3)] assms(9) by blast
  moreover have "\<forall>x \<in> set (f3_obligations s). run_cursor ?s (ob_slot x) = ?c (ob_slot x)"
    by simp
  ultimately have finished: "writes_allowed flow ?Q run \<and> (\<exists>ext. vr_trace run = vr_trace ?s @ ext)
      \<and> (\<forall>x \<in> set (f3_obligations s). \<exists>y. taken flow (vr_state ?s) y \<and> slot_done y (?c (ob_slot x)) (vr_trace run) (ob_slot x))"
    using assms(6) by (rule obligation_loop_done [OF loop])
  have events: "\<forall>e \<in> set (vr_trace run). write_allowed flow ?Q e"
    using finished by (simp add: writes_allowed_def list_all_iff)
  have served: "\<forall>chunk encoded. Verified3 chunk (Inr encoded) \<in> set (vr_trace run) \<longrightarrow> chunk_served k content chunk encoded"
    using events assms(9) by fastforce
  have target: "length ?target = rl"
    using assms(3) by (simp add: length_subarray)
  have pieces: "\<forall>(off, bs) \<in> set (v3_writes (vr_trace run)). off + length bs \<le> length ?target \<and> bs = subarray off (off + length bs) ?target"
  proof (clarsimp simp only: set_v3_writes target)
    fix off bs
    assume "Wrote3 off bs (Inr ()) \<in> set (vr_trace run)"
    then have "piece_of content rs rl off bs"
      using events by fastforce
    then show "off + length bs \<le> rl \<and> bs = subarray off (off + length bs) ?target"
      unfolding piece_of_def by (subst subarray_subarray) (auto simp: add.assoc)
  qed
  have "length buf = length ?target"
    using assms(10) target by simp
  note result = apply_writes_nth [OF pieces this]
  have "apply_writes (v3_writes (vr_trace run)) buf ! x = ?target ! x" if x: "x < rl" for x
  proof (cases "int ((k * RAW_BLOB_BYTES + rs + x) div RAW_BLOB_BYTES) \<le> ?c ((k * RAW_BLOB_BYTES + rs + x) div RAW_BLOB_BYTES mod 8)")
    case True
    then have "buf ! x = ?target ! x"
      using assms(3,11) x by (simp add: Let_def nth_subarray)
    then show ?thesis
      using result x target by auto
  next
    case False
    define t where "t = (k * RAW_BLOB_BYTES + rs + x) div RAW_BLOB_BYTES"
    have in_s: "t \<in> set (blobs_of (f3_first s) (f3_last s) (t mod 8))"
      using byte_blob [OF fits _ x t_def] assms(4,5,8) by (auto simp: taken_def returned_def)
    then obtain z where z: "z \<in> set (f3_obligations s)" "ob_slot z = t mod 8"
      using assms(7) by (metis empty_iff empty_set imageE)
    then obtain y where y: "taken flow (vr_state ?s) y" "slot_done y (?c (t mod 8)) (vr_trace run) (t mod 8)"
      using finished by metis
    have "t \<in> set (blobs_of (f3_first y) (f3_last y) (t mod 8))"
      using byte_blob [OF fits [OF y(1)] _ x t_def] assms(8) y(1) by (simp add: taken_def)
    then have "piece_durable y (vr_trace run) t"
      using y(2) False unfolding slot_done_def t_def by blast
    from durable_byte [OF fits [OF y(1)] assms(3) x t_def this served] have
      "\<exists>(off, bs) \<in> set (v3_writes (vr_trace run)). off \<le> x \<and> x < off + length bs"
      by (auto simp: set_v3_writes)
    then show ?thesis
      using result x target by simp
  qed
  then show ?thesis
    using result target by (intro nth_equalityI) simp_all
qed

theorem v3_output_exact_witness:
  "\<exists>run. executeRetrievalV3 v3_ports v3_session v3_checkpoint = (run, Inr (v3_settled, []))
     \<and> apply_writes (v3_writes (vr_trace run)) [0, 0, 0] = [1, 2, 3]"
proof -
  obtain run where run: "executeRetrievalV3 v3_ports v3_session v3_checkpoint = (run, Inr (v3_settled, []))"
    using v3_run by blast
  have "state_for 0 [1, 2, 3] 0 3 v3_checkpoint"
    by (simp add: state_for_def v3_checkpoint_def v3_file_def)
  moreover have "\<forall>slot. blobs_of (f3_first v3_session) (f3_last v3_session) slot \<noteq> [] \<longrightarrow> slot \<in> ob_slot ` set (f3_obligations v3_session)"
    by (simp add: blobs_of_def v3_session_def)
  moreover have "canonical_blobs session" if "returned v3_ports session" for session
    using that by (auto simp: returned_def canonical_blobs_def wanted_start_def wanted_end_def v3_file_def v3_settled_def)
  moreover have "chunk_served 0 [1, 2, 3] chunk encoded" if "vf_verified v3_ports tr chunk = Inr encoded" for tr chunk encoded
    using that subarray_whole [of "pack_blob [1, 2, 3]"] by (auto simp: chunk_served_def stored_blob_def subarray_def split: if_splits)
  ultimately have "apply_writes (v3_writes (vr_trace run)) [0, 0, 0] = subarray 0 (0 + 3) [1, 2, 3]"
    using v3_session_matches(1) by (intro v3_output_exact [OF run]) (auto simp: cursor_def)
  then show ?thesis
    using run by (simp add: subarray_def)
qed

end
