(* ===== verification/Transport.thy ===== *)
theory Transport
  imports Interfaces
begin

text \<open>
  The transport router (\<open>lib/transport\<close>): route preferences, error classes, candidate
  ordering and execution with fallback. Executing a candidate, reading the clock and
  sleeping act on a world of type \<open>'w\<close>: \<open>ca_execute\<close> returns the data or the thrown value
  with the next world. \<open>URL\<close> parsing is a parameter that returns host name and port.
\<close>


section \<open>Types and error classes\<close>

datatype transport_op = Upload | Fetch | ListFiles | Slab | Plan | ManifestInfo | MduKzg

datatype route_preference = Auto | PreferGateway | GatewayOnly | PreferDirectSp | PreferP2p

datatype backend_name = Gateway | DirectSp | Libp2p

datatype error_class =
    Timeout | ConnectionRefused | Dns | Http429 | Http4xx | Http5xx | Cors | ProviderMismatch
  | InvalidResponse | Unknown

text \<open>A thrown value: a \<open>TransportError\<close>, another \<open>Error\<close> with name and message, or anything else.\<close>

datatype thrown =
    TransportError string error_class "nat option"
  | PlainError string string
  | OtherThrown

record classified =
  cf_errorClass :: error_class
  cf_status :: "nat option"
  cf_message :: string

text \<open>Case-insensitive search for an ASCII substring.\<close>

definition to_lower :: "char \<Rightarrow> char" where
  "to_lower c = (let n = (of_char c :: nat) in if 65 \<le> n \<and> n \<le> 90 then char_of (n + 32) else c)"

fun contains :: "'a list \<Rightarrow> 'a list \<Rightarrow> bool" where
  "contains p [] = (p = [])"
| "contains p (x # xs) = (take (length p) (x # xs) = p \<or> contains p xs)"

definition matches :: "string list \<Rightarrow> string \<Rightarrow> bool" where
  "matches patterns msg = list_ex (\<lambda>p. contains p (map to_lower msg)) patterns"

definition classifyError :: "thrown \<Rightarrow> classified" where
  "classifyError err =
     (case err of
        TransportError message cls status \<Rightarrow> \<lparr>cf_errorClass = cls, cf_status = status, cf_message = message\<rparr>
      | PlainError name message \<Rightarrow>
          if name = ''AbortError'' then \<lparr>cf_errorClass = Timeout, cf_status = None, cf_message = message\<rparr>
          else
            let msg = if message = [] then ''unknown error'' else message in
            \<lparr>cf_errorClass =
               (if matches [''provider mismatch''] msg then ProviderMismatch
                else if matches [''cors''] msg then Cors
                else if matches [''failed to fetch'', ''networkerror'', ''network error''] msg then ConnectionRefused
                else if matches [''dns'', ''not known'', ''not found''] msg then Dns
                else Unknown),
             cf_status = None, cf_message = msg\<rparr>
      | OtherThrown \<Rightarrow> \<lparr>cf_errorClass = Unknown, cf_status = None, cf_message = ''unknown error''\<rparr>)"

definition classifyStatus :: "nat \<Rightarrow> error_class" where
  "classifyStatus status =
     (if status = 429 then Http429 else if status \<ge> 500 then Http5xx
      else if status \<ge> 400 then Http4xx else Unknown)"

definition isRetryable :: "error_class \<Rightarrow> bool" where
  "isRetryable c \<longleftrightarrow> c = Timeout \<or> c = ConnectionRefused \<or> c = Dns \<or> c = Http5xx \<or> c = Http429"

definition isTerminal :: "error_class \<Rightarrow> bool" where
  "isTerminal c \<longleftrightarrow> c = ProviderMismatch \<or> c = InvalidResponse"


section \<open>Route preferences\<close>

definition resolveTransportPreference :: "route_preference \<Rightarrow> bool \<Rightarrow> bool \<Rightarrow> bool \<Rightarrow> route_preference" where
  "resolveTransportPreference candidate gatewayDisabled p2pEnabled localGatewayConnected =
     (if candidate = GatewayOnly then candidate
      else if gatewayDisabled then
        (if candidate = PreferP2p \<and> p2pEnabled then PreferP2p else PreferDirectSp)
      else if \<not> localGatewayConnected then
        (if candidate = PreferP2p \<and> p2pEnabled then PreferP2p else PreferDirectSp)
      else if candidate = Auto then PreferGateway
      else if candidate = PreferP2p \<and> \<not> p2pEnabled then Auto
      else candidate)"

definition allowNonGatewayBackends :: "route_preference \<Rightarrow> bool" where
  "allowNonGatewayBackends preference \<longleftrightarrow> preference \<noteq> GatewayOnly"

text \<open>\<open>String.prototype.trim\<close> on ASCII strings.\<close>

definition space_char :: "char \<Rightarrow> bool" where
  "space_char c \<longleftrightarrow> (of_char c :: nat) \<in> {9, 10, 11, 12, 13, 32}"

definition trim :: "string \<Rightarrow> string" where
  "trim s = rev (dropWhile space_char (rev (dropWhile space_char s)))"

definition isTrustedLocalGatewayBase :: "(string \<Rightarrow> (string \<times> string) option) \<Rightarrow> string \<Rightarrow> bool" where
  "isTrustedLocalGatewayBase parse_url base =
     (let raw = trim base in
      if raw = [] then False
      else
        case parse_url raw of
          None \<Rightarrow> False
        | Some (hostname, port) \<Rightarrow>
            let host = map to_lower hostname in
            if \<not> (host = ''localhost'' \<or> host = ''127.0.0.1'' \<or> host = ''::1'' \<or> host = ''[::1]'') then False
            else if port = [] then False
            else port = ''8080'' \<or> port = ''18080'')"

definition isGatewayTransportEnabled ::
  "(string \<Rightarrow> (string \<times> string) option) \<Rightarrow> bool \<Rightarrow> string \<Rightarrow> bool \<Rightarrow> bool" where
  "isGatewayTransportEnabled parse_url gatewayDisabled gatewayBase localGatewayConnected =
     (if gatewayDisabled then False
      else if \<not> localGatewayConnected then False
      else isTrustedLocalGatewayBase parse_url gatewayBase)"

datatype local_gateway_status = Disconnected | Connecting | Connected | GatewayError

definition isGatewayMode2UploadEnabled ::
  "(string \<Rightarrow> (string \<times> string) option) \<Rightarrow> bool \<Rightarrow> string \<Rightarrow> local_gateway_status \<Rightarrow> bool" where
  "isGatewayMode2UploadEnabled parse_url gatewayDisabled gatewayBase localGatewayStatus =
     isGatewayTransportEnabled parse_url gatewayDisabled gatewayBase (localGatewayStatus = Connected)"


section \<open>Candidates\<close>

record ('a, 'w) transport_candidate =
  ca_backend :: backend_name
  ca_endpoint :: string
  ca_execute :: "'w \<Rightarrow> (thrown + 'a) \<times> 'w"

definition preferred_backend :: "route_preference \<Rightarrow> backend_name" where
  "preferred_backend preference =
     (if preference = PreferGateway \<or> preference = GatewayOnly then Gateway
      else if preference = PreferP2p then Libp2p else DirectSp)"

text \<open>
  The comparator of \<open>orderCandidates\<close> puts the preferred backend first and holds every
  other pair equal, so the stable sort is the stable sort by this key.
\<close>

definition orderCandidates ::
  "route_preference \<Rightarrow> ('a, 'w) transport_candidate list \<Rightarrow> ('a, 'w) transport_candidate list" where
  "orderCandidates preference candidates =
     (if preference = Auto then candidates
      else sort_key (\<lambda>c. if ca_backend c = preferred_backend preference then 0 else 1 :: nat) candidates)"

text \<open>\<open>base.replace(/\/$/, '')\<close>\<close>

definition strip_slash :: "string \<Rightarrow> string" where
  "strip_slash s = (if s \<noteq> [] \<and> last s = CHR ''/'' then butlast s else s)"

fun direct_candidates ::
  "(string \<Rightarrow> bool \<Rightarrow> 'w \<Rightarrow> (thrown + 'a) \<times> 'w) \<Rightarrow> string list \<Rightarrow> string list \<Rightarrow> ('a, 'w) transport_candidate list" where
  "direct_candidates execute seen [] = []"
| "direct_candidates execute seen (raw # raws) =
     (let base = strip_slash (trim raw) in
      if base = [] \<or> base \<in> set seen then direct_candidates execute seen raws
      else \<lparr>ca_backend = DirectSp, ca_endpoint = base, ca_execute = execute base False\<rparr>
           # direct_candidates execute (base # seen) raws)"

definition v3RetrievalCandidates ::
  "route_preference \<Rightarrow> string option \<Rightarrow> string list \<Rightarrow> (string \<Rightarrow> bool \<Rightarrow> 'w \<Rightarrow> (thrown + 'a) \<times> 'w)
   \<Rightarrow> ('a, 'w) transport_candidate list" where
  "v3RetrievalCandidates preference gatewayBase directBases execute =
     (let gateway = (case gatewayBase of None \<Rightarrow> [] | Some g \<Rightarrow> strip_slash g);
          candidates = (if gateway \<noteq> []
             then [\<lparr>ca_backend = Gateway, ca_endpoint = gateway, ca_execute = execute gateway True\<rparr>] else [])
      in if \<not> allowNonGatewayBackends preference then candidates
         else candidates @ direct_candidates execute (if gateway \<noteq> [] then [gateway] else []) directBases)"


section \<open>Execution with fallback\<close>

record transport_attempt =
  at_backend :: backend_name
  at_endpoint :: string
  at_ok :: bool
  at_status :: "nat option"
  at_errorClass :: "error_class option"
  at_errorMessage :: "string option"
  at_elapsedMs :: int

record decision_trace =
  dt_op :: transport_op
  dt_preference :: route_preference
  dt_startedAtMs :: int
  dt_finishedAtMs :: int
  dt_attempts :: "transport_attempt list"
  dt_chosen :: "(backend_name \<times> string) option"

record router_options =
  ro_preference :: route_preference
  ro_maxAttemptsPerBackend :: "nat option"
  ro_maxTotalAttempts :: "nat option"

record 'w environment =
  en_now :: "'w \<Rightarrow> int"
  en_sleep :: "nat \<Rightarrow> 'w \<Rightarrow> 'w"

definition backoffMs :: "error_class \<Rightarrow> nat \<Rightarrow> nat" where
  "backoffMs c attempt = (if c \<noteq> Http429 then 0 else min (250 * 2 ^ (attempt - 1)) 2000)"

text \<open>One attempt: the recorded entry, the result and the next world.\<close>

definition run_attempt ::
  "'w environment \<Rightarrow> ('a, 'w) transport_candidate \<Rightarrow> 'w \<Rightarrow> transport_attempt \<times> (error_class + 'a) \<times> 'w" where
  "run_attempt env c w =
     (let attemptStart = en_now env w; (r, w') = ca_execute c w; elapsed = en_now env w' - attemptStart in
      case r of
        Inr d \<Rightarrow>
          (\<lparr>at_backend = ca_backend c, at_endpoint = ca_endpoint c, at_ok = True, at_status = None,
            at_errorClass = None, at_errorMessage = None, at_elapsedMs = elapsed\<rparr>, Inr d, w')
      | Inl err \<Rightarrow>
          let e = classifyError err in
          (\<lparr>at_backend = ca_backend c, at_endpoint = ca_endpoint c, at_ok = False, at_status = cf_status e,
            at_errorClass = Some (cf_errorClass e), at_errorMessage = Some (cf_message e), at_elapsedMs = elapsed\<rparr>,
           Inl (cf_errorClass e), w'))"

text \<open>
  The \<open>while\<close> loop over the attempts of one backend, with the attempts made on it
  (\<open>tried\<close>) and in total (\<open>made\<close>). It ends with the data of a success or without.
\<close>

function backend_loop ::
  "'w environment \<Rightarrow> ('a, 'w) transport_candidate \<Rightarrow> nat \<Rightarrow> nat \<Rightarrow> nat \<Rightarrow> nat \<Rightarrow> 'w
   \<Rightarrow> transport_attempt list \<times> 'a option \<times> nat \<times> 'w" where
  "backend_loop env c maxPer maxTotal tried made w =
     (if tried < maxPer \<and> made < maxTotal then
        let (entry, r, w1) = run_attempt env c w in
        (case r of
           Inr d \<Rightarrow> ([entry], Some d, made + 1, w1)
         | Inl cls \<Rightarrow>
             if isTerminal cls then ([entry], None, made + 1, w1)
             else if \<not> isRetryable cls then ([entry], None, made + 1, w1)
             else
               let delay = backoffMs cls (tried + 1);
                   w2 = (if tried + 1 < maxPer \<and> made + 1 < maxTotal \<and> delay > 0 then en_sleep env delay w1 else w1);
                   (entries, d, made', w3) = backend_loop env c maxPer maxTotal (tried + 1) (made + 1) w2
               in (entry # entries, d, made', w3))
      else ([], None, made, w))"
  by auto
termination
  by (relation "measure (\<lambda>(_, _, maxPer, _, tried, _, _). maxPer - tried)") auto

declare backend_loop.simps [simp del]

fun candidate_loop ::
  "'w environment \<Rightarrow> nat \<Rightarrow> nat \<Rightarrow> nat \<Rightarrow> ('a, 'w) transport_candidate list \<Rightarrow> 'w
   \<Rightarrow> transport_attempt list \<times> ('a \<times> ('a, 'w) transport_candidate) option \<times> 'w" where
  "candidate_loop env maxPer maxTotal made [] w = ([], None, w)"
| "candidate_loop env maxPer maxTotal made (c # cs) w =
     (let (entries, r, made', w1) = backend_loop env c maxPer maxTotal 0 made w in
      case r of
        Some d \<Rightarrow> (entries, Some (d, c), w1)
      | None \<Rightarrow>
          let (rest, r', w2) = candidate_loop env maxPer maxTotal made' cs w1 in (entries @ rest, r', w2))"

definition backend_string :: "backend_name \<Rightarrow> string" where
  "backend_string b = (case b of Gateway \<Rightarrow> ''gateway'' | DirectSp \<Rightarrow> ''direct_sp'' | Libp2p \<Rightarrow> ''libp2p'')"

definition class_string :: "error_class \<Rightarrow> string" where
  "class_string c =
     (case c of Timeout \<Rightarrow> ''timeout'' | ConnectionRefused \<Rightarrow> ''connection_refused'' | Dns \<Rightarrow> ''dns''
      | Http429 \<Rightarrow> ''http_429'' | Http4xx \<Rightarrow> ''http_4xx'' | Http5xx \<Rightarrow> ''http_5xx'' | Cors \<Rightarrow> ''cors''
      | ProviderMismatch \<Rightarrow> ''provider_mismatch'' | InvalidResponse \<Rightarrow> ''invalid_response'' | Unknown \<Rightarrow> ''unknown'')"

definition op_string :: "transport_op \<Rightarrow> string" where
  "op_string p =
     (case p of Upload \<Rightarrow> ''upload'' | Fetch \<Rightarrow> ''fetch'' | ListFiles \<Rightarrow> ''list_files'' | Slab \<Rightarrow> ''slab''
      | Plan \<Rightarrow> ''plan'' | ManifestInfo \<Rightarrow> ''manifest_info'' | MduKzg \<Rightarrow> ''mdu_kzg'')"

definition attempt_text :: "transport_attempt \<Rightarrow> string" where
  "attempt_text a =
     backend_string (at_backend a)
     @ (case at_status a of Some n \<Rightarrow> ''('' @ dec_string n @ '')'' | None \<Rightarrow> [])
     @ (case at_errorClass a of Some c \<Rightarrow> '':'' @ class_string c | None \<Rightarrow> [])
     @ (case at_errorMessage a of Some m \<Rightarrow> if m = [] then [] else '':'' @ m | None \<Rightarrow> [])"

fun join :: "string \<Rightarrow> string list \<Rightarrow> string" where
  "join sep [] = []"
| "join sep [x] = x"
| "join sep (x # y # ys) = x @ sep @ join sep (y # ys)"

definition failure_message :: "transport_op \<Rightarrow> transport_attempt list \<Rightarrow> string" where
  "failure_message p attempts =
     (let recent = join '' | '' (map attempt_text (drop (length attempts - 3) attempts));
          suffix = if recent = [] then [] else '': '' @ recent
      in ''All '' @ op_string p @ '' attempts failed'' @ suffix)"

text \<open>The outcome: data, backend and trace, or the message and trace of the thrown error.\<close>

definition executeWithFallback ::
  "'w environment \<Rightarrow> transport_op \<Rightarrow> ('a, 'w) transport_candidate list \<Rightarrow> router_options \<Rightarrow> 'w
   \<Rightarrow> ((string \<times> decision_trace) + ('a \<times> backend_name \<times> decision_trace)) \<times> 'w" where
  "executeWithFallback env p candidates opts w =
     (let startedAtMs = en_now env w;
          ordered = orderCandidates (ro_preference opts) candidates;
          maxPerBackend = (case ro_maxAttemptsPerBackend opts of Some n \<Rightarrow> n | None \<Rightarrow> 1);
          maxTotal = (case ro_maxTotalAttempts opts of Some n \<Rightarrow> n | None \<Rightarrow> length ordered * maxPerBackend);
          (attempts, r, w') = candidate_loop env maxPerBackend maxTotal 0 ordered w;
          trace = \<lparr>dt_op = p, dt_preference = ro_preference opts, dt_startedAtMs = startedAtMs,
                   dt_finishedAtMs = en_now env w', dt_attempts = attempts, dt_chosen = None\<rparr>
      in case r of
           Some (d, c) \<Rightarrow> (Inr (d, ca_backend c, trace\<lparr>dt_chosen := Some (ca_backend c, ca_endpoint c)\<rparr>), w')
         | None \<Rightarrow> (Inl (failure_message p attempts, trace), w'))"


section \<open>Ordering\<close>

lemma sort_key_two:
  "sort_key (\<lambda>x. if P x then 0 else 1 :: nat) xs = filter P xs @ filter (\<lambda>x. \<not> P x) xs"
proof -
  have ins: "insort_key (\<lambda>x. if P x then 0 else 1 :: nat) x (a @ b) = (if P x then x # a @ b else a @ x # b)"
    if "\<forall>y \<in> set a. P y" and "\<forall>y \<in> set b. \<not> P y" for x a b
    using that
  proof (induction a)
    case Nil
    then show ?case by (cases b) auto
  qed auto
  show ?thesis
    by (induction xs) (simp_all add: ins)
qed

lemma set_orderCandidates [simp]: "set (orderCandidates p cs) = set cs"
  by (simp add: orderCandidates_def)

lemma length_orderCandidates [simp]: "length (orderCandidates p cs) = length cs"
  by (simp add: orderCandidates_def)

text \<open>
  Ordering keeps every candidate and only moves the preferred backend to the front:
  with a preference the result is the preferred candidates followed by the others, both in
  their original order.
\<close>

theorem order_candidates_stable:
  "orderCandidates preference cs =
     (if preference = Auto then cs
      else filter (\<lambda>c. ca_backend c = preferred_backend preference) cs
           @ filter (\<lambda>c. ca_backend c \<noteq> preferred_backend preference) cs)"
  unfolding orderCandidates_def by (simp add: sort_key_two)


section \<open>Fallback\<close>

definition entry_of :: "('a, 'w) transport_candidate \<Rightarrow> transport_attempt \<Rightarrow> bool" where
  "entry_of c a \<longleftrightarrow> at_backend a = ca_backend c \<and> at_endpoint a = ca_endpoint c"

text \<open>The attempts of a run that ends with a success (\<open>True\<close>) or without one.\<close>

definition outcome_shape :: "bool \<Rightarrow> transport_attempt list \<Rightarrow> bool" where
  "outcome_shape ok as \<longleftrightarrow>
     (if ok then as \<noteq> [] \<and> at_ok (last as) \<and> (\<forall>a \<in> set (butlast as). \<not> at_ok a) else \<forall>a \<in> set as. \<not> at_ok a)"

definition retried :: "transport_attempt \<Rightarrow> bool" where
  "retried a \<longleftrightarrow> (\<exists>cls. at_errorClass a = Some cls \<and> isRetryable cls \<and> \<not> isTerminal cls)"

lemma run_attempt_entry:
  "run_attempt env c w = (entry, r, w') \<Longrightarrow>
   entry_of c entry \<and> (at_ok entry \<longleftrightarrow> (\<exists>d. r = Inr d)) \<and> (\<forall>cls. r = Inl cls \<longrightarrow> at_errorClass entry = Some cls)"
  by (auto simp: run_attempt_def entry_of_def Let_def split: prod.splits sum.splits)

lemma backend_loop_spec:
  "backend_loop env c maxPer maxTotal tried made w = (entries, r, made', w') \<Longrightarrow>
   made' = made + length entries \<and> length entries \<le> maxPer - tried \<and> length entries \<le> maxTotal - made
   \<and> (\<forall>a \<in> set entries. entry_of c a) \<and> outcome_shape (r \<noteq> None) entries
   \<and> (tried < maxPer \<and> made < maxTotal \<longrightarrow> entries \<noteq> [])
   \<and> (\<forall>a \<in> set (butlast entries). retried a)"
proof (induction env c maxPer maxTotal tried made w arbitrary: entries r made' w' rule: backend_loop.induct)
  case (1 env c maxPer maxTotal tried made w)
  show ?case
  proof (cases "tried < maxPer \<and> made < maxTotal")
    case False
    then show ?thesis
      using "1.prems" by (subst (asm) backend_loop.simps) (auto simp: outcome_shape_def)
  next
    case True
    obtain entry q w1 where att: "run_attempt env c w = (entry, q, w1)"
      by (cases "run_attempt env c w") auto
    note e = run_attempt_entry [OF att]
    show ?thesis
    proof (cases q)
      case (Inr d)
      then show ?thesis
        using "1.prems" True att e by (subst (asm) backend_loop.simps) (auto simp: outcome_shape_def)
    next
      case (Inl cls)
      show ?thesis
      proof (cases "isTerminal cls \<or> \<not> isRetryable cls")
        case stop: True
        have "backend_loop env c maxPer maxTotal tried made w = ([entry], None, made + 1, w1)"
          using True att Inl stop by (subst backend_loop.simps) auto
        then show ?thesis
          using "1.prems" True e Inl by (auto simp: outcome_shape_def)
      next
        case False
        define w2 where "w2 = (if tried + 1 < maxPer \<and> made + 1 < maxTotal \<and> backoffMs cls (tried + 1) > 0
            then en_sleep env (backoffMs cls (tried + 1)) w1 else w1)"
        have step: "backend_loop env c maxPer maxTotal tried made w =
            (let (es, d, m, w3) = backend_loop env c maxPer maxTotal (tried + 1) (made + 1) w2 in (entry # es, d, m, w3))"
          using True att Inl False unfolding w2_def by (subst (1) backend_loop.simps) (simp add: Let_def)
        obtain es where es: "backend_loop env c maxPer maxTotal (tried + 1) (made + 1) w2 = (es, r, made', w')"
            "entries = entry # es"
          using "1.prems" unfolding step by (auto split: prod.splits)
        have IH: "made' = made + 1 + length es \<and> length es \<le> maxPer - (tried + 1) \<and> length es \<le> maxTotal - (made + 1)
            \<and> (\<forall>a \<in> set es. entry_of c a) \<and> outcome_shape (r \<noteq> None) es
            \<and> (\<forall>a \<in> set (butlast es). retried a)"
          using "1.IH" [OF True att [symmetric] refl refl Inl _ _ refl w2_def es(1)] False by auto
        have "retried entry"
          using e Inl False by (auto simp: retried_def)
        then show ?thesis
          using IH es(2) True e Inl by (auto simp: outcome_shape_def)
      qed
    qed
  qed
qed

lemma outcome_shape_append:
  "outcome_shape False as \<Longrightarrow> outcome_shape ok bs \<Longrightarrow> outcome_shape ok (as @ bs)"
  by (auto simp: outcome_shape_def butlast_append split: if_splits)

lemma candidate_loop_spec:
  "candidate_loop env maxPer maxTotal made cs w = (entries, r, w') \<Longrightarrow>
   outcome_shape (r \<noteq> None) entries \<and> length entries \<le> length cs * maxPer \<and> length entries \<le> maxTotal - made
   \<and> (\<forall>a \<in> set entries. \<exists>c \<in> set cs. entry_of c a)
   \<and> (\<forall>d c. r = Some (d, c) \<longrightarrow> c \<in> set cs \<and> entry_of c (last entries))
   \<and> (r = None \<and> 0 < maxPer \<and> made + length cs * maxPer \<le> maxTotal \<longrightarrow>
        (\<forall>c \<in> set cs. \<exists>a \<in> set entries. entry_of c a))"
proof (induction cs arbitrary: made w entries r w')
  case Nil
  then show ?case by (simp add: outcome_shape_def)
next
  case (Cons c cs)
  obtain es q m w1 where b: "backend_loop env c maxPer maxTotal 0 made w = (es, q, m, w1)"
    by (metis prod_cases4)
  note bs = backend_loop_spec [OF b]
  show ?case
  proof (cases q)
    case (Some d)
    then have "entries = es" "r = Some (d, c)"
      using Cons.prems b by auto
    moreover have "entry_of c (last es)"
      using bs Some by (auto simp: outcome_shape_def)
    ultimately show ?thesis
      using bs Some by auto
  next
    case None
    obtain rest w2 where rest: "candidate_loop env maxPer maxTotal m cs w1 = (rest, r, w2)" "entries = es @ rest"
      using Cons.prems b None by (auto split: prod.splits)
    note IH = Cons.IH [OF rest(1)]
    have shape: "outcome_shape (r \<noteq> None) entries"
      using IH bs None rest(2) by (simp add: outcome_shape_append)
    have tried: "\<forall>c' \<in> set (c # cs). \<exists>a \<in> set entries. entry_of c' a"
      if d: "r = None \<and> 0 < maxPer \<and> made + length (c # cs) * maxPer \<le> maxTotal"
    proof -
      have "es \<noteq> []"
        using bs d by auto
      then have "\<exists>a \<in> set es. entry_of c a"
        using bs by (meson last_in_set)
      moreover have "m + length cs * maxPer \<le> maxTotal"
        using bs d by simp
      ultimately show ?thesis
        using IH d rest(2) by auto
    qed
    have last: "entry_of c' (last entries)" if "r = Some (d, c')" for d c'
      using IH that rest(2) by (auto simp: outcome_shape_def)
    have "length entries \<le> length (c # cs) * maxPer \<and> length entries \<le> maxTotal - made"
      using IH bs rest(2) by auto
    moreover have "\<forall>a \<in> set entries. \<exists>c' \<in> set (c # cs). entry_of c' a"
      using IH bs rest(2) by auto
    moreover have "\<forall>d c'. r = Some (d, c') \<longrightarrow> c' \<in> set (c # cs)"
      using IH by auto
    ultimately show ?thesis
      using shape tried last by blast
  qed
qed

text \<open>A busy gateway and a provider that answers; the world counts milliseconds.\<close>

definition sample_env :: "nat environment" where
  "sample_env = \<lparr>en_now = int, en_sleep = \<lambda>d w. w + d\<rparr>"

definition busy_gateway :: "(nat, nat) transport_candidate" where
  "busy_gateway = \<lparr>ca_backend = Gateway, ca_endpoint = ''http://localhost:8080'',
     ca_execute = \<lambda>w. (Inl (TransportError ''busy'' Http429 (Some 429)), w + 1)\<rparr>"

definition live_provider :: "(nat, nat) transport_candidate" where
  "live_provider = \<lparr>ca_backend = DirectSp, ca_endpoint = ''http://sp'', ca_execute = \<lambda>w. (Inr 42, w + 7)\<rparr>"

definition sample_options :: router_options where
  "sample_options = \<lparr>ro_preference = PreferGateway, ro_maxAttemptsPerBackend = Some 2, ro_maxTotalAttempts = None\<rparr>"

lemmas sample_defs = sample_env_def busy_gateway_def live_provider_def sample_options_def

lemmas run_defs = executeWithFallback_def orderCandidates_def preferred_backend_def backend_loop.simps run_attempt_def
  classifyError_def isTerminal_def isRetryable_def backoffMs_def Let_def

text \<open>
  C24: fallback succeeds as soon as one attempt does and gives up only after everything was
  tried. On success the last attempt is the only successful one and it belongs to the
  candidate that is reported as chosen. On failure no attempt succeeded, and with the
  default total limit every candidate has been attempted; in both cases the limits hold.
\<close>

theorem fallback_outcome:
  assumes "executeWithFallback env p candidates opts w = (result, w')"
    and "maxPer = (case ro_maxAttemptsPerBackend opts of Some n \<Rightarrow> n | None \<Rightarrow> 1)"
  shows "case result of
           Inr (d, b, trace) \<Rightarrow>
             outcome_shape True (dt_attempts trace) \<and> length (dt_attempts trace) \<le> length candidates * maxPer
             \<and> (\<exists>c \<in> set candidates. b = ca_backend c \<and> dt_chosen trace = Some (b, ca_endpoint c)
                  \<and> entry_of c (last (dt_attempts trace)))
         | Inl (msg, trace) \<Rightarrow>
             outcome_shape False (dt_attempts trace) \<and> length (dt_attempts trace) \<le> length candidates * maxPer
             \<and> dt_chosen trace = None \<and> msg = failure_message p (dt_attempts trace)
             \<and> (0 < maxPer \<and> ro_maxTotalAttempts opts = None \<longrightarrow>
                  (\<forall>c \<in> set candidates. \<exists>a \<in> set (dt_attempts trace). entry_of c a))"
proof -
  let ?ord = "orderCandidates (ro_preference opts) candidates"
  define maxTotal where "maxTotal = (case ro_maxTotalAttempts opts of Some n \<Rightarrow> n | None \<Rightarrow> length ?ord * maxPer)"
  obtain entries r w1 where loop: "candidate_loop env maxPer maxTotal 0 ?ord w = (entries, r, w1)"
    by (metis prod_cases3)
  note l = candidate_loop_spec [OF loop]
  note run = assms(1) [unfolded executeWithFallback_def Let_def, folded assms(2), folded maxTotal_def]
  show ?thesis
  proof (cases r)
    case None
    have "ro_maxTotalAttempts opts = None \<Longrightarrow> maxTotal = length candidates * maxPer"
      by (simp add: maxTotal_def)
    then show ?thesis
      using run loop l None by auto
  next
    case (Some dc)
    then show ?thesis
      using run loop l by (cases dc) auto
  qed
qed

theorem fallback_outcome_witness:
  "\<exists>d b trace w'. executeWithFallback sample_env Fetch [live_provider, busy_gateway] sample_options 0 = (Inr (d, b, trace), w')
     \<and> d = 42 \<and> w' = 259 \<and> length (dt_attempts trace) = 3 \<and> outcome_shape True (dt_attempts trace)"
proof -
  let ?run = "executeWithFallback sample_env Fetch [live_provider, busy_gateway] sample_options 0"
  obtain d b trace w' where run: "?run = (Inr (d, b, trace), w')" "d = 42" "w' = 259" "length (dt_attempts trace) = 3"
    by (simp add: sample_defs run_defs)
  show ?thesis
    using run fallback_outcome [OF run(1) refl] by auto
qed

text \<open>
  A backend is retried only after a retryable error and never after a terminal one,
  and at most the configured number of times.
\<close>

theorem retry_policy:
  assumes "backend_loop env c maxPer maxTotal 0 made w = (entries, r, made', w')"
  shows "length entries \<le> maxPer \<and> made' = made + length entries
         \<and> (\<forall>a \<in> set (butlast entries). \<exists>cls. at_errorClass a = Some cls \<and> isRetryable cls \<and> \<not> isTerminal cls)"
  using backend_loop_spec [OF assms] by (auto simp: retried_def)

theorem retry_policy_witness:
  "\<exists>entries w'. backend_loop sample_env busy_gateway 3 10 0 0 0 = (entries, None, 3, w')
     \<and> length entries \<le> 3 \<and> length entries = 3"
proof -
  obtain entries w' where run: "backend_loop sample_env busy_gateway 3 10 0 0 0 = (entries, None, 3, w')"
    by (simp add: sample_defs run_defs)
  show ?thesis
    using run retry_policy [OF run] by auto
qed

end
