(* ===== verification/KzgBatch.thy ===== *)
theory KzgBatch
  imports Transport
begin

text \<open>
  Batches of user MDUs for one KZG commitment call (\<open>lib/upload/userMduKzgBatch.ts\<close>):
  normalised limits, the shape of an expansion, the batch planner, and the functions that
  join the shards of a batch and take the commitments apart again. A \<open>Uint8Array\<close> is a list
  of bytes, so the \<open>instanceof\<close> assertions hold by typing.
\<close>


section \<open>Constraints\<close>

definition KZG_BLOB_SIZE :: nat where
  "KZG_BLOB_SIZE = 131072"

definition KZG_COMMITMENT_SIZE :: nat where
  "KZG_COMMITMENT_SIZE = 48"

record batch_constraints =
  bc_maxBatchMdus :: "jsnum option"
  bc_maxBatchBlobs :: "jsnum option"
  bc_maxBatchBytes :: "jsnum option"
  bc_maxEstimatedMemoryBytes :: "jsnum option"

record normalized_constraints =
  nc_maxBatchMdus :: nat
  nc_maxBatchBlobs :: nat
  nc_maxBatchBytes :: nat
  nc_maxEstimatedMemoryBytes :: nat

definition DEFAULT_USER_MDU_KZG_BATCH_CONSTRAINTS :: normalized_constraints where
  "DEFAULT_USER_MDU_KZG_BATCH_CONSTRAINTS =
     \<lparr>nc_maxBatchMdus = 4, nc_maxBatchBlobs = 384, nc_maxBatchBytes = 64 * 1024 * 1024,
      nc_maxEstimatedMemoryBytes = 128 * 1024 * 1024\<rparr>"

definition positiveInteger :: "jsnum option \<Rightarrow> nat \<Rightarrow> nat" where
  "positiveInteger v fallback =
     (let parsed = (case v of Some x \<Rightarrow> x | None \<Rightarrow> num fallback) in
      if isFinite parsed \<and> js_floor parsed > 0 then nat (js_floor parsed) else fallback)"

definition normalizeUserMduKzgBatchConstraints :: "batch_constraints \<Rightarrow> normalized_constraints" where
  "normalizeUserMduKzgBatchConstraints c =
     \<lparr>nc_maxBatchMdus = positiveInteger (bc_maxBatchMdus c) (nc_maxBatchMdus DEFAULT_USER_MDU_KZG_BATCH_CONSTRAINTS),
      nc_maxBatchBlobs = positiveInteger (bc_maxBatchBlobs c) (nc_maxBatchBlobs DEFAULT_USER_MDU_KZG_BATCH_CONSTRAINTS),
      nc_maxBatchBytes = positiveInteger (bc_maxBatchBytes c) (nc_maxBatchBytes DEFAULT_USER_MDU_KZG_BATCH_CONSTRAINTS),
      nc_maxEstimatedMemoryBytes = positiveInteger (bc_maxEstimatedMemoryBytes c)
        (nc_maxEstimatedMemoryBytes DEFAULT_USER_MDU_KZG_BATCH_CONSTRAINTS)\<rparr>"

record adapter_info =
  ai_vendor :: "string option"
  ai_architecture :: "string option"
  ai_device :: "string option"
  ai_description :: "string option"

text \<open>A field of an adapter that may be missing, in lower case.\<close>

definition adapter_field :: "adapter_info option \<Rightarrow> (adapter_info \<Rightarrow> string option) \<Rightarrow> string" where
  "adapter_field adapter f =
     (case adapter of None \<Rightarrow> [] | Some a \<Rightarrow> (case f a of None \<Rightarrow> [] | Some s \<Rightarrow> map to_lower s))"

definition recommendedUserMduKzgBatchCapForWebGpuAdapter ::
  "adapter_info option \<Rightarrow> jsnum option \<Rightarrow> string \<Rightarrow> nat" where
  "recommendedUserMduKzgBatchCapForWebGpuAdapter adapter fallback platformHint =
     (let normalizedFallback = positiveInteger fallback (nc_maxBatchMdus DEFAULT_USER_MDU_KZG_BATCH_CONSTRAINTS);
          isAppleMetal =
            contains ''apple'' (adapter_field adapter ai_vendor)
            \<or> contains ''metal'' (adapter_field adapter ai_architecture)
            \<or> contains ''apple'' (adapter_field adapter ai_device)
            \<or> contains ''metal'' (adapter_field adapter ai_description)
            \<or> contains ''mac'' (map to_lower platformHint)
      in if isAppleMetal then min normalizedFallback 3 else normalizedFallback)"


section \<open>Shapes\<close>

text \<open>An expansion before commitment. The profile \<open>k\<close>, \<open>m\<close> may be missing.\<close>

record expansion =
  ex_shardsFlat :: bytes
  ex_shardLen :: jsnum
  ex_k :: "nat option"
  ex_m :: "nat option"

record expansion_shape =
  es_k :: nat
  es_m :: nat
  es_shardLen :: nat
  es_shardCount :: nat
  es_blobCount :: nat
  es_byteLength :: nat

definition describeUserMduKzgExpansionShape :: "expansion \<Rightarrow> expansion_shape result" where
  "describeUserMduKzgExpansionShape e =
     (let byteLength = length (ex_shardsFlat e); shardLen = nat (js_floor (ex_shardLen e)) in
      if \<not> isFinite (ex_shardLen e) \<or> js_floor (ex_shardLen e) \<le> 0
      then Inl ''shardLen must be a positive integer''
      else if byteLength = 0 then Inl ''shardsFlat must not be empty''
      else if byteLength mod shardLen \<noteq> 0 then Inl ''shardsFlat length must be a multiple of shardLen''
      else if byteLength mod KZG_BLOB_SIZE \<noteq> 0
      then Inl ''shardsFlat length must be a multiple of the KZG blob size''
      else
        let shardCount = byteLength div shardLen; blobCount = byteLength div KZG_BLOB_SIZE;
            k = (case ex_k e of Some n \<Rightarrow> n | None \<Rightarrow> 0); m = (case ex_m e of Some n \<Rightarrow> n | None \<Rightarrow> 0)
        in if (k \<noteq> 0 \<or> m \<noteq> 0) \<and> shardCount \<noteq> k + m
           then Inl (''shard count '' @ dec_string shardCount @ '' does not match RS profile ''
                     @ dec_string k @ ''+'' @ dec_string m)
           else Inr \<lparr>es_k = k, es_m = m, es_shardLen = shardLen, es_shardCount = shardCount,
                     es_blobCount = blobCount, es_byteLength = byteLength\<rparr>)"

definition areUserMduKzgShapesCompatible :: "expansion_shape \<Rightarrow> expansion_shape \<Rightarrow> bool" where
  "areUserMduKzgShapesCompatible l r \<longleftrightarrow>
     es_k l = es_k r \<and> es_m l = es_m r \<and> es_shardLen l = es_shardLen r \<and> es_shardCount l = es_shardCount r"

definition shape_text :: "expansion_shape \<Rightarrow> string" where
  "shape_text s =
     ''k='' @ dec_string (es_k s) @ '', m='' @ dec_string (es_m s) @ '', shardLen='' @ dec_string (es_shardLen s)
     @ '', shardCount='' @ dec_string (es_shardCount s)"

fun homogeneous_loop :: "expansion_shape \<Rightarrow> nat \<Rightarrow> expansion list \<Rightarrow> expansion_shape result" where
  "homogeneous_loop first i [] = Inr first"
| "homogeneous_loop first i (e # es) =
     sbind (describeUserMduKzgExpansionShape e) (\<lambda>current.
       if \<not> areUserMduKzgShapesCompatible first current
       then Inl (''incompatible user MDU shard shape at index '' @ dec_string i @ '': expected ''
                 @ shape_text first @ ''; got '' @ shape_text current)
       else homogeneous_loop first (i + 1) es)"

fun validateHomogeneousUserMduKzgBatch :: "expansion list \<Rightarrow> expansion_shape result" where
  "validateHomogeneousUserMduKzgBatch [] = Inl ''KZG batch must contain at least one user MDU''"
| "validateHomogeneousUserMduKzgBatch (e # es) =
     sbind (describeUserMduKzgExpansionShape e) (\<lambda>first. homogeneous_loop first 1 es)"


declare validateHomogeneousUserMduKzgBatch.simps [simp del]


section \<open>The batch planner\<close>

definition estimateUserMduKzgBatchMemoryBytes :: "nat \<Rightarrow> nat \<Rightarrow> nat" where
  "estimateUserMduKzgBatchMemoryBytes bytes blobs = bytes * 2 + blobs * KZG_COMMITMENT_SIZE"

datatype plan_reason =
  Empty | Planned | MaxBatchMdus | MaxBlobs | MaxBytes | MaxEstimatedMemory | IncompatibleShape

record batch_plan =
  bp_count :: nat
  bp_blobs :: nat
  bp_bytes :: nat
  bp_estimatedMemoryBytes :: nat
  bp_reason :: plan_reason
  bp_shape :: "expansion_shape option"

definition make_plan :: "nat \<Rightarrow> nat \<Rightarrow> nat \<Rightarrow> expansion_shape option \<Rightarrow> plan_reason \<Rightarrow> batch_plan" where
  "make_plan count blobs bytes shape reason =
     \<lparr>bp_count = count, bp_blobs = blobs, bp_bytes = bytes,
      bp_estimatedMemoryBytes = estimateUserMduKzgBatchMemoryBytes bytes blobs,
      bp_reason = reason, bp_shape = shape\<rparr>"

text \<open>The loop over the candidates, with the count, blobs, bytes and shape planned so far.\<close>

fun plan_loop ::
  "normalized_constraints \<Rightarrow> nat \<Rightarrow> nat \<Rightarrow> nat \<Rightarrow> expansion_shape option \<Rightarrow> expansion list \<Rightarrow> batch_plan result" where
  "plan_loop c count blobs bytes shape [] = Inr (make_plan count blobs bytes shape Planned)"
| "plan_loop c count blobs bytes shape (e # es) =
     sbind (describeUserMduKzgExpansionShape e) (\<lambda>current.
       let nextBlobs = blobs + es_blobCount current; nextBytes = bytes + es_byteLength current in
       if (case shape of Some s \<Rightarrow> \<not> areUserMduKzgShapesCompatible s current | None \<Rightarrow> False)
       then Inr (make_plan count blobs bytes shape IncompatibleShape)
       else if count + 1 > nc_maxBatchMdus c then Inr (make_plan count blobs bytes shape MaxBatchMdus)
       else if nextBlobs > nc_maxBatchBlobs c then Inr (make_plan count blobs bytes shape MaxBlobs)
       else if nextBytes > nc_maxBatchBytes c then Inr (make_plan count blobs bytes shape MaxBytes)
       else if estimateUserMduKzgBatchMemoryBytes nextBytes nextBlobs > nc_maxEstimatedMemoryBytes c
       then Inr (make_plan count blobs bytes shape MaxEstimatedMemory)
       else plan_loop c (count + 1) nextBlobs nextBytes
              (case shape of Some s \<Rightarrow> Some s | None \<Rightarrow> Some current) es)"

text \<open>The planner on constraints that are normalised already, and on the caller's constraints.\<close>

definition plan_normalized :: "normalized_constraints \<Rightarrow> expansion list \<Rightarrow> batch_plan result" where
  "plan_normalized c candidates =
     (if candidates = [] then Inr (make_plan 0 0 0 None Empty) else plan_loop c 0 0 0 None candidates)"

definition planUserMduKzgBatch :: "expansion list \<Rightarrow> batch_constraints \<Rightarrow> batch_plan result" where
  "planUserMduKzgBatch candidates constraints =
     plan_normalized (normalizeUserMduKzgBatchConstraints constraints) candidates"


section \<open>Joining shards and taking commitments apart\<close>

definition concatenateUserMduKzgBatch :: "expansion list \<Rightarrow> bytes result" where
  "concatenateUserMduKzgBatch expansions =
     sbind (validateHomogeneousUserMduKzgBatch expansions) (\<lambda>_. Inr (concat (map ex_shardsFlat expansions)))"

definition witness_bytes :: "expansion \<Rightarrow> nat" where
  "witness_bytes e = length (ex_shardsFlat e) div KZG_BLOB_SIZE * KZG_COMMITMENT_SIZE"

fun demux_loop :: "bytes \<Rightarrow> nat \<Rightarrow> expansion list \<Rightarrow> bytes list" where
  "demux_loop w offset [] = []"
| "demux_loop w offset (e # es) =
     subarray offset (offset + witness_bytes e) w # demux_loop w (offset + witness_bytes e) es"

definition demuxUserMduKzgCommitments :: "bytes \<Rightarrow> expansion list \<Rightarrow> bytes list result" where
  "demuxUserMduKzgCommitments witnessFlat expansions =
     sbind (validateHomogeneousUserMduKzgBatch expansions) (\<lambda>_.
       let expectedBytes = sum_list (map witness_bytes expansions) in
       if length witnessFlat \<noteq> expectedBytes
       then Inl (''KZG batch returned '' @ dec_string (length witnessFlat) @ '' witness bytes, expected ''
                 @ dec_string expectedBytes)
       else Inr (demux_loop witnessFlat 0 expansions))"

text \<open>\<open>splitUserMduKzgBatch\<close> on a count that is a non-negative integer, as its caller passes it.\<close>

definition splitUserMduKzgBatch :: "nat \<Rightarrow> nat \<times> nat" where
  "splitUserMduKzgBatch count =
     (if count \<le> 1 then (count, 0) else let l = ceil_div count 2 in (l, count - l))"


section \<open>Shapes and limits\<close>

lemma positiveInteger_pos [simp]: "0 < d \<Longrightarrow> 0 < positiveInteger v d"
  by (auto simp: positiveInteger_def Let_def)

lemma normalized_positive:
  "0 < nc_maxBatchMdus (normalizeUserMduKzgBatchConstraints c)"
  "0 < nc_maxBatchBlobs (normalizeUserMduKzgBatchConstraints c)"
  "0 < nc_maxBatchBytes (normalizeUserMduKzgBatchConstraints c)"
  "0 < nc_maxEstimatedMemoryBytes (normalizeUserMduKzgBatchConstraints c)"
  by (simp_all add: normalizeUserMduKzgBatchConstraints_def DEFAULT_USER_MDU_KZG_BATCH_CONSTRAINTS_def)

lemma describe_shape:
  assumes "describeUserMduKzgExpansionShape e = Inr s"
  shows "es_byteLength s = length (ex_shardsFlat e)"
    and "es_blobCount s * KZG_BLOB_SIZE = length (ex_shardsFlat e)"
    and "es_shardCount s * es_shardLen s = length (ex_shardsFlat e)"
    and "0 < es_blobCount s"
proof -
  let ?n = "length (ex_shardsFlat e)" and ?l = "nat (js_floor (ex_shardLen e))"
  have g: "0 < ?l" "0 < ?n" "?n mod ?l = 0" "?n mod KZG_BLOB_SIZE = 0"
    and s: "es_byteLength s = ?n" "es_shardLen s = ?l" "es_shardCount s = ?n div ?l" "es_blobCount s = ?n div KZG_BLOB_SIZE"
    using assms by (auto simp: describeUserMduKzgExpansionShape_def Let_def split: if_splits)
  show "es_byteLength s = ?n" and blobs: "es_blobCount s * KZG_BLOB_SIZE = ?n" and "es_shardCount s * es_shardLen s = ?n"
    using g s by (simp_all add: mod_eq_0_iff_dvd)
  show "0 < es_blobCount s"
    using blobs g(2) by (cases "es_blobCount s") simp_all
qed

lemma compatible_refl [simp]: "areUserMduKzgShapesCompatible s s"
  by (simp add: areUserMduKzgShapesCompatible_def)

lemma compatible_blobCount:
  assumes "describeUserMduKzgExpansionShape e = Inr s" "describeUserMduKzgExpansionShape e' = Inr s'"
    and "areUserMduKzgShapesCompatible s s'"
  shows "es_blobCount s = es_blobCount s'"
proof -
  have "es_blobCount s * KZG_BLOB_SIZE = es_blobCount s' * KZG_BLOB_SIZE"
    using describe_shape(2,3) [OF assms(1)] describe_shape(2,3) [OF assms(2)] assms(3)
    by (simp add: areUserMduKzgShapesCompatible_def)
  then show ?thesis
    by (simp add: KZG_BLOB_SIZE_def)
qed

text \<open>Every expansion of the list has a shape compatible with \<open>s\<close>.\<close>

definition all_shape :: "expansion_shape \<Rightarrow> expansion list \<Rightarrow> bool" where
  "all_shape s es \<longleftrightarrow>
     list_all (\<lambda>e. case describeUserMduKzgExpansionShape e of
                     Inl _ \<Rightarrow> False | Inr t \<Rightarrow> areUserMduKzgShapesCompatible s t) es"

lemma all_shape_simps [simp]:
  "all_shape s []"
  "all_shape s (e # es) \<longleftrightarrow>
     (\<exists>t. describeUserMduKzgExpansionShape e = Inr t \<and> areUserMduKzgShapesCompatible s t) \<and> all_shape s es"
  by (auto simp: all_shape_def split: sum.splits)

lemma all_shape_append [simp]: "all_shape s (xs @ ys) \<longleftrightarrow> all_shape s xs \<and> all_shape s ys"
  by (simp add: all_shape_def)

lemma homogeneous_loop_iff: "homogeneous_loop first i es = Inr s \<longleftrightarrow> s = first \<and> all_shape first es"
  by (induction es arbitrary: i) (auto simp: sbind_eq_Inr)

lemma validate_iff:
  "validateHomogeneousUserMduKzgBatch es = Inr s \<longleftrightarrow>
     es \<noteq> [] \<and> describeUserMduKzgExpansionShape (hd es) = Inr s \<and> all_shape s es"
  by (cases es) (auto simp: validateHomogeneousUserMduKzgBatch.simps sbind_eq_Inr homogeneous_loop_iff)


section \<open>What a plan holds\<close>

definition within_limits :: "normalized_constraints \<Rightarrow> nat \<Rightarrow> nat \<Rightarrow> nat \<Rightarrow> bool" where
  "within_limits c count blobs bytes \<longleftrightarrow>
     count \<le> nc_maxBatchMdus c \<and> blobs \<le> nc_maxBatchBlobs c \<and> bytes \<le> nc_maxBatchBytes c
     \<and> estimateUserMduKzgBatchMemoryBytes bytes blobs \<le> nc_maxEstimatedMemoryBytes c"

definition total_bytes :: "expansion list \<Rightarrow> nat" where
  "total_bytes es = sum_list (map (\<lambda>e. length (ex_shardsFlat e)) es)"

definition total_blobs :: "expansion list \<Rightarrow> nat" where
  "total_blobs es = sum_list (map (\<lambda>e. length (ex_shardsFlat e) div KZG_BLOB_SIZE) es)"

lemma total_simps [simp]:
  "total_bytes [] = 0" "total_bytes (e # es) = length (ex_shardsFlat e) + total_bytes es"
  "total_blobs [] = 0" "total_blobs (e # es) = length (ex_shardsFlat e) div KZG_BLOB_SIZE + total_blobs es"
  "total_bytes (xs @ ys) = total_bytes xs + total_bytes ys"
  "total_blobs (xs @ ys) = total_blobs xs + total_blobs ys"
  by (simp_all add: total_bytes_def total_blobs_def)

lemma describe_blobs:
  "describeUserMduKzgExpansionShape e = Inr s \<Longrightarrow> length (ex_shardsFlat e) div KZG_BLOB_SIZE = es_blobCount s"
  using describe_shape(2) [of e s] by (auto simp: KZG_BLOB_SIZE_def)

text \<open>
  The first \<open>n\<close> candidates after a planned prefix \<open>pre\<close> are what the plan takes: they agree
  with the shape, keep the limits, and the candidate after them (if there is one) does not fit.
\<close>

definition plan_spec :: "normalized_constraints \<Rightarrow> expansion list \<Rightarrow> expansion list \<Rightarrow> batch_plan \<Rightarrow> bool" where
  "plan_spec c pre es p \<longleftrightarrow>
     (\<exists>taken rest. es = taken @ rest \<and> bp_count p = length (pre @ taken)
       \<and> bp_blobs p = total_blobs (pre @ taken) \<and> bp_bytes p = total_bytes (pre @ taken)
       \<and> bp_estimatedMemoryBytes p = estimateUserMduKzgBatchMemoryBytes (bp_bytes p) (bp_blobs p)
       \<and> (pre @ taken \<noteq> [] \<longrightarrow> is_ok (validateHomogeneousUserMduKzgBatch (pre @ taken)))
       \<and> within_limits c (bp_count p) (bp_blobs p) (bp_bytes p)
       \<and> (\<forall>x xs. rest = x # xs \<longrightarrow> is_ok (validateHomogeneousUserMduKzgBatch (pre @ taken @ [x])) \<longrightarrow>
            \<not> within_limits c (length (pre @ taken @ [x])) (total_blobs (pre @ taken @ [x]))
                (total_bytes (pre @ taken @ [x]))))"

lemma plan_spec_stop:
  assumes "bp_count p = length pre" "bp_blobs p = total_blobs pre" "bp_bytes p = total_bytes pre"
    and "bp_estimatedMemoryBytes p = estimateUserMduKzgBatchMemoryBytes (bp_bytes p) (bp_blobs p)"
    and "pre \<noteq> [] \<longrightarrow> is_ok (validateHomogeneousUserMduKzgBatch pre)"
    and "within_limits c (length pre) (total_blobs pre) (total_bytes pre)"
    and "\<And>x xs. es = x # xs \<Longrightarrow> is_ok (validateHomogeneousUserMduKzgBatch (pre @ [x])) \<Longrightarrow>
           \<not> within_limits c (length (pre @ [x])) (total_blobs (pre @ [x])) (total_bytes (pre @ [x]))"
  shows "plan_spec c pre es p"
  unfolding plan_spec_def
  using assms by (intro exI [of _ "[]"] exI [of _ es]) auto

lemma plan_spec_step: "plan_spec c (pre @ [e]) es p \<Longrightarrow> plan_spec c pre (e # es) p"
  unfolding plan_spec_def by (elim exE, rule_tac x = "e # taken" in exI, rule_tac x = rest in exI) auto

definition shape_of :: "expansion list \<Rightarrow> expansion_shape option" where
  "shape_of pre = (case pre of [] \<Rightarrow> None
     | e # _ \<Rightarrow> (case describeUserMduKzgExpansionShape e of Inl _ \<Rightarrow> None | Inr s \<Rightarrow> Some s))"

lemma validate_snoc:
  assumes "pre \<noteq> []" "is_ok (validateHomogeneousUserMduKzgBatch pre)"
    and "describeUserMduKzgExpansionShape e = Inr t"
  shows "is_ok (validateHomogeneousUserMduKzgBatch (pre @ [e]))
         \<longleftrightarrow> (\<exists>s. shape_of pre = Some s \<and> areUserMduKzgShapesCompatible s t)"
  using assms by (cases pre) (auto simp: is_ok_iff validate_iff shape_of_def)

lemma validate_single:
  "is_ok (validateHomogeneousUserMduKzgBatch [e]) \<longleftrightarrow> is_ok (describeUserMduKzgExpansionShape e)"
  by (auto simp: is_ok_iff validate_iff)

lemma plan_loop_spec:
  assumes "plan_loop c (length pre) (total_blobs pre) (total_bytes pre) (shape_of pre) es = Inr p"
    and "pre \<noteq> [] \<longrightarrow> is_ok (validateHomogeneousUserMduKzgBatch pre)"
    and "within_limits c (length pre) (total_blobs pre) (total_bytes pre)"
  shows "plan_spec c pre es p"
  using assms
proof (induction es arbitrary: pre)
  case Nil
  then show ?case
    by (intro plan_spec_stop) (auto simp: make_plan_def)
next
  case (Cons e es)
  obtain t where t: "describeUserMduKzgExpansionShape e = Inr t"
    using Cons.prems(1) by (auto simp: sbind_eq_Inr)
  have nb: "total_blobs (pre @ [e]) = total_blobs pre + es_blobCount t"
    and ny: "total_bytes (pre @ [e]) = total_bytes pre + es_byteLength t"
    using describe_blobs [OF t] describe_shape(1) [OF t] by simp_all
  define fits where "fits \<longleftrightarrow> within_limits c (length (pre @ [e])) (total_blobs (pre @ [e])) (total_bytes (pre @ [e]))"
  define compat where "compat \<longleftrightarrow> (case shape_of pre of Some s \<Rightarrow> areUserMduKzgShapesCompatible s t | None \<Rightarrow> True)"
  have ok: "is_ok (validateHomogeneousUserMduKzgBatch (pre @ [e])) \<longleftrightarrow> compat"
  proof (cases "pre = []")
    case True
    then show ?thesis
      by (simp add: validate_single t compat_def shape_of_def)
  next
    case False
    then obtain s where "shape_of pre = Some s"
      using Cons.prems(2) by (cases pre) (auto simp: is_ok_iff validate_iff shape_of_def)
    then show ?thesis
      using validate_snoc [OF False _ t] Cons.prems(2) False by (auto simp: compat_def)
  qed
  show ?case
  proof (cases "compat \<and> fits")
    case True
    have sh: "(case shape_of pre of Some s \<Rightarrow> Some s | None \<Rightarrow> Some t) = shape_of (pre @ [e])"
      using Cons.prems(2) t by (cases pre) (auto simp: is_ok_iff validate_iff shape_of_def)
    have "plan_loop c (length (pre @ [e])) (total_blobs (pre @ [e])) (total_bytes (pre @ [e])) (shape_of (pre @ [e])) es = Inr p"
      using Cons.prems(1) True
      unfolding sh [symmetric] nb ny fits_def within_limits_def compat_def
      by (auto simp: t Let_def split: option.splits)
    then have "plan_spec c (pre @ [e]) es p"
      using True ok by (intro Cons.IH) (simp_all add: fits_def)
    then show ?thesis
      by (rule plan_spec_step)
  next
    case False
    have "\<exists>r. p = make_plan (length pre) (total_blobs pre) (total_bytes pre) (shape_of pre) r"
      using Cons.prems(1) False
      unfolding nb ny fits_def within_limits_def compat_def
      by (auto simp: t Let_def split: option.splits if_splits)
    then show ?thesis
      using False ok Cons.prems(2,3)
      by (intro plan_spec_stop) (auto simp: make_plan_def fits_def)
  qed
qed

lemma plan_normalized_spec:
  assumes "plan_normalized c es = Inr p"
  shows "plan_spec c [] es p"
proof (cases "es = []")
  case True
  then show ?thesis
    using assms by (intro plan_spec_stop)
      (auto simp: plan_normalized_def make_plan_def within_limits_def estimateUserMduKzgBatchMemoryBytes_def)
next
  case False
  then show ?thesis
    using assms plan_loop_spec [of c "[]" es p]
    by (simp add: plan_normalized_def shape_of_def within_limits_def estimateUserMduKzgBatchMemoryBytes_def)
qed

lemma plan_normalized_count:
  assumes "plan_normalized c es = Inr p"
  shows "bp_count p \<le> length es"
  using plan_normalized_spec [OF assms] by (auto simp: plan_spec_def)

text \<open>
  C28: A plan is the longest prefix of the candidates that fits. Its count, blobs, bytes and
  memory estimate are those of the first \<open>count\<close> candidates, which have compatible shapes
  and keep each of the four normalised limits, and the prefix with one candidate more either
  mixes shapes or breaks a limit.
\<close>

theorem plan_longest_prefix:
  assumes "planUserMduKzgBatch candidates constraints = Inr p"
  defines "c \<equiv> normalizeUserMduKzgBatchConstraints constraints"
    and "n \<equiv> bp_count p"
  shows "n \<le> length candidates
    \<and> bp_blobs p = total_blobs (take n candidates) \<and> bp_bytes p = total_bytes (take n candidates)
    \<and> (0 < n \<longrightarrow> is_ok (validateHomogeneousUserMduKzgBatch (take n candidates)))
    \<and> within_limits c n (bp_blobs p) (bp_bytes p)
    \<and> (n < length candidates \<longrightarrow>
         \<not> (is_ok (validateHomogeneousUserMduKzgBatch (take (n + 1) candidates))
            \<and> within_limits c (n + 1) (total_blobs (take (n + 1) candidates)) (total_bytes (take (n + 1) candidates))))"
proof -
  have "plan_spec c [] candidates p"
    using assms(1) by (intro plan_normalized_spec) (simp add: planUserMduKzgBatch_def c_def)
  then obtain taken rest where c: "candidates = taken @ rest" and n: "n = length taken"
    and rest: "bp_blobs p = total_blobs taken" "bp_bytes p = total_bytes taken"
      "taken \<noteq> [] \<longrightarrow> is_ok (validateHomogeneousUserMduKzgBatch taken)"
      "within_limits c (bp_count p) (bp_blobs p) (bp_bytes p)"
      "\<And>x xs. rest = x # xs \<Longrightarrow> is_ok (validateHomogeneousUserMduKzgBatch (taken @ [x])) \<Longrightarrow>
         \<not> within_limits c (length (taken @ [x])) (total_blobs (taken @ [x])) (total_bytes (taken @ [x]))"
    unfolding plan_spec_def n_def append_Nil by blast
  have "take n candidates = taken" and "0 < n \<longleftrightarrow> taken \<noteq> []"
    by (simp_all add: c n)
  moreover have "take (n + 1) candidates = taken @ [x]" if "rest = x # xs" for x xs
    by (simp add: c n that)
  ultimately show ?thesis
    using rest c n n_def by (cases rest) auto
qed

definition sample_expansion :: "nat \<Rightarrow> expansion" where
  "sample_expansion blobs =
     \<lparr>ex_shardsFlat = replicate (blobs * 131072) 0, ex_shardLen = num (blobs * 131072), ex_k = None, ex_m = None\<rparr>"

definition sample_constraints :: batch_constraints where
  "sample_constraints =
     \<lparr>bc_maxBatchMdus = Some (num 2), bc_maxBatchBlobs = None, bc_maxBatchBytes = None,
      bc_maxEstimatedMemoryBytes = None\<rparr>"

lemma sample_describe:
  "0 < b \<Longrightarrow> describeUserMduKzgExpansionShape (sample_expansion b) =
     Inr \<lparr>es_k = 0, es_m = 0, es_shardLen = b * 131072, es_shardCount = 1, es_blobCount = b, es_byteLength = b * 131072\<rparr>"
  by (simp add: describeUserMduKzgExpansionShape_def sample_expansion_def KZG_BLOB_SIZE_def Let_def nat_mult_distrib)

lemma sample_normalized:
  "normalizeUserMduKzgBatchConstraints sample_constraints =
     \<lparr>nc_maxBatchMdus = 2, nc_maxBatchBlobs = 384, nc_maxBatchBytes = 67108864, nc_maxEstimatedMemoryBytes = 134217728\<rparr>"
  by (simp add: normalizeUserMduKzgBatchConstraints_def sample_constraints_def positiveInteger_def
      DEFAULT_USER_MDU_KZG_BATCH_CONSTRAINTS_def Let_def)

lemma sample_plan:
  "planUserMduKzgBatch [sample_expansion 1, sample_expansion 1, sample_expansion 1] sample_constraints =
     Inr (make_plan (Suc 1) (Suc 1) 262144 (Some \<lparr>es_k = 0, es_m = 0, es_shardLen = 131072, es_shardCount = 1,
       es_blobCount = 1, es_byteLength = 131072\<rparr>) MaxBatchMdus)"
  by (simp add: planUserMduKzgBatch_def plan_normalized_def sample_normalized sample_describe Let_def
      areUserMduKzgShapesCompatible_def estimateUserMduKzgBatchMemoryBytes_def KZG_COMMITMENT_SIZE_def)

theorem plan_longest_prefix_witness:
  "is_ok (validateHomogeneousUserMduKzgBatch (take 2 [sample_expansion 1, sample_expansion 1, sample_expansion 1]))"
  using plan_longest_prefix [OF sample_plan] by (simp add: make_plan_def)


section \<open>One commitment call for a batch\<close>

text \<open>
  What a KZG backend promises: one commitment of 48 bytes per blob, blob by blob.
\<close>

definition blobwise :: "(bytes \<Rightarrow> bytes) \<Rightarrow> bool" where
  "blobwise commit \<longleftrightarrow>
     (\<forall>bs. length bs mod KZG_BLOB_SIZE = 0 \<longrightarrow>
        length (commit bs) = length bs div KZG_BLOB_SIZE * KZG_COMMITMENT_SIZE)
     \<and> (\<forall>as bs. length as mod KZG_BLOB_SIZE = 0 \<longrightarrow> length bs mod KZG_BLOB_SIZE = 0 \<longrightarrow>
          commit (as @ bs) = commit as @ commit bs)"

lemma blobwise_concat:
  assumes "blobwise commit"
  shows "(\<forall>xs \<in> set xss. length xs mod KZG_BLOB_SIZE = 0) \<Longrightarrow>
     commit (concat xss) = concat (map commit xss) \<and> length (concat xss) mod KZG_BLOB_SIZE = 0"
proof (induction xss)
  case Nil
  then show ?case
    using assms unfolding blobwise_def by (metis concat.simps(1) length_0_conv list.map(1) div_0 mod_0 mult_0)
next
  case (Cons xs xss)
  then have "length (concat xss) mod KZG_BLOB_SIZE = 0" "length xs mod KZG_BLOB_SIZE = 0"
    by simp_all
  then show ?case
    using Cons assms by (auto simp: blobwise_def)
qed

lemma demux_loop_concat:
  "list_all2 (\<lambda>e w. length w = witness_bytes e) es ws \<Longrightarrow> length pre = offset \<Longrightarrow>
     demux_loop (pre @ concat ws) offset es = ws"
proof (induction es ws arbitrary: pre offset rule: list_all2_induct)
  case (Cons e es w ws)
  then have "demux_loop ((pre @ w) @ concat ws) (offset + witness_bytes e) es = ws"
    by (intro Cons.IH) simp_all
  then show ?case
    using Cons by (simp add: subarray_def)
qed simp

lemma demux_concat:
  assumes "is_ok (validateHomogeneousUserMduKzgBatch es)"
    and "list_all2 (\<lambda>e w. length w = witness_bytes e) es ws"
  shows "demuxUserMduKzgCommitments (concat ws) es = Inr ws"
proof -
  have "length (concat ws) = sum_list (map witness_bytes es)"
    using assms(2) by (induction rule: list_all2_induct) simp_all
  then show ?thesis
    using assms(1) demux_loop_concat [OF assms(2), of "[]" 0]
    by (auto simp: demuxUserMduKzgCommitments_def is_ok_iff Let_def)
qed

lemma valid_blob_multiple:
  assumes "validateHomogeneousUserMduKzgBatch es = Inr s" "e \<in> set es"
  shows "length (ex_shardsFlat e) mod KZG_BLOB_SIZE = 0"
proof -
  obtain t where "describeUserMduKzgExpansionShape e = Inr t"
    using assms by (cases "describeUserMduKzgExpansionShape e") (auto simp: validate_iff all_shape_def list_all_iff)
  then show ?thesis
    using describe_shape(2) [of e t] by (metis mod_mult_self2_is_0)
qed

text \<open>
  C29: Committing a batch in one call is the same as committing each user MDU alone. When the
  backend gives one 48-byte commitment per blob, blob by blob, then demultiplexing the
  commitments of the joined shards returns, in order, the commitments of each MDU's shards.
\<close>

theorem batch_commit_equiv:
  assumes "blobwise commit"
    and "concatenateUserMduKzgBatch es = Inr flat"
  shows "demuxUserMduKzgCommitments (commit flat) es = Inr (map (\<lambda>e. commit (ex_shardsFlat e)) es)"
proof -
  obtain s where s: "validateHomogeneousUserMduKzgBatch es = Inr s" and flat: "flat = concat (map ex_shardsFlat es)"
    using assms(2) by (auto simp: concatenateUserMduKzgBatch_def sbind_eq_Inr)
  have "\<forall>xs \<in> set (map ex_shardsFlat es). length xs mod KZG_BLOB_SIZE = 0"
    using valid_blob_multiple [OF s] by auto
  then have eq: "commit flat = concat (map (\<lambda>e. commit (ex_shardsFlat e)) es)"
    using blobwise_concat [OF assms(1), of "map ex_shardsFlat es"] by (simp add: flat comp_def)
  show ?thesis
    unfolding eq using s valid_blob_multiple [OF s] assms(1)
    by (intro demux_concat) (auto simp: list_all2_conv_all_nth witness_bytes_def blobwise_def)
qed

definition sample_commit :: "bytes \<Rightarrow> bytes" where
  "sample_commit bs = replicate (length bs div KZG_BLOB_SIZE * KZG_COMMITMENT_SIZE) 0"

lemma blobwise_sample: "blobwise sample_commit"
proof -
  have "sample_commit (as @ bs) = sample_commit as @ sample_commit bs"
    if "length as mod KZG_BLOB_SIZE = 0" "length bs mod KZG_BLOB_SIZE = 0" for as bs
  proof -
    have "length (as @ bs) div KZG_BLOB_SIZE = length as div KZG_BLOB_SIZE + length bs div KZG_BLOB_SIZE"
      using that by (simp add: div_add mod_eq_0_iff_dvd)
    then show ?thesis
      by (simp add: sample_commit_def replicate_add [symmetric] add_mult_distrib)
  qed
  then show ?thesis
    by (simp add: blobwise_def sample_commit_def)
qed

theorem batch_commit_equiv_witness:
  "demuxUserMduKzgCommitments (sample_commit (replicate 262144 0)) [sample_expansion 1, sample_expansion 1] =
     Inr [sample_commit (replicate 131072 0), sample_commit (replicate 131072 0)]"
proof -
  let ?es = "[sample_expansion 1, sample_expansion 1]"
  have "concatenateUserMduKzgBatch ?es = Inr (replicate 262144 0)"
    by (simp add: concatenateUserMduKzgBatch_def validateHomogeneousUserMduKzgBatch.simps sample_describe)
      (simp add: sample_expansion_def replicate_add [symmetric])
  from batch_commit_equiv [OF blobwise_sample this] show ?thesis
    by (simp add: sample_expansion_def)
qed

lemma split_parts:
  assumes "splitUserMduKzgBatch n = (l, r)"
  shows "l + r = n" and "2 \<le> n \<Longrightarrow> 0 < l \<and> 0 < r \<and> l < n \<and> r < n \<and> r \<le> l \<and> l \<le> r + 1"
proof -
  show "l + r = n"
    using assms by (auto simp: splitUserMduKzgBatch_def Let_def ceil_div_def split: if_splits)
  assume "2 \<le> n"
  then have "l = (n + 1) div 2" "r = n - (n + 1) div 2"
    using assms by (auto simp: splitUserMduKzgBatch_def Let_def ceil_div_def)
  then show "0 < l \<and> 0 < r \<and> l < n \<and> r < n \<and> r \<le> l \<and> l \<le> r + 1"
    using \<open>2 \<le> n\<close> by auto
qed

end
