(* ===== verification/KzgScheduler.thy ===== *)
theory KzgScheduler
  imports KzgBatch
begin

text \<open>
  The queue that orders KZG commitments of user MDUs (\<open>lib/upload/userMduKzgScheduler.ts\<close>).
  The class's fields are the record \<open>scheduler\<close>. The record \<open>sched_world\<close> extends it with
  what the event loop holds: the asynchronous \<open>run\<close> calls that wait, the state of the
  expansion promises, the abort signals and the promises settled so far. Each synchronous
  stretch of code between two \<open>await\<close>s is one function, and an event is the reply that
  resumes such a stretch: any interleaving of events is an execution.
\<close>


section \<open>Tasks and diagnostics\<close>

text \<open>A thrown \<open>Error\<close>: message, name and \<open>details.kind\<close>.\<close>

record kzg_error =
  ke_message :: string
  ke_name :: string
  ke_kind :: "string option"

definition plain_error :: "string \<Rightarrow> kzg_error" where
  "plain_error message = \<lparr>ke_message = message, ke_name = ''Error'', ke_kind = None\<rparr>"

definition abortError :: kzg_error where
  "abortError = \<lparr>ke_message = ''user MDU KZG scheduler task aborted'', ke_name = ''AbortError'', ke_kind = None\<rparr>"

definition isWebGpuKzgCommitTimeoutError :: "kzg_error \<Rightarrow> bool" where
  "isWebGpuKzgCommitTimeoutError e \<longleftrightarrow>
     ke_name e = ''WebGpuKzgCommitTimeoutError'' \<and> ke_kind e = Some ''webgpu-commit-timeout''"

record diagnostics =
  dg_sequence :: jsnum
  dg_queueWaitMs :: rat
  dg_totalMs :: rat
  dg_depthAtEnqueue :: nat
  dg_activeAtEnqueue :: nat
  dg_queueDepthAtStart :: nat
  dg_maxQueueDepth :: nat
  dg_fallbackCount :: nat
  dg_batchSize :: nat
  dg_batchPosition :: nat
  dg_batchBlobs :: nat
  dg_batchBytes :: nat
  dg_batchEstimatedMemoryBytes :: nat
  dg_batchMaxMdus :: nat
  dg_batchMaxBlobs :: nat
  dg_batchMaxBytes :: nat
  dg_batchPlanReason :: plan_reason
  dg_batchSplitCount :: nat
  dg_batchFallbackCount :: nat
  dg_batchTimeoutCount :: nat
  dg_safeMaxBatchMdus :: nat
  dg_retriedBatchSizes :: string

text \<open>
  A commitment result: the commit time and fallback reason of its \<open>perf\<close>, the scheduler's
  fields of \<open>perf\<close> (all set together, \<open>kzgSchedulerCommitMs\<close> first) and everything else.
\<close>

record 'r kzg_result =
  kr_commitMs :: rat
  kr_fallbackReason :: "string option"
  kr_scheduler :: "(rat \<times> diagnostics) option"
  kr_rest :: 'r

definition attachUserMduKzgSchedulerDiagnostics :: "'r kzg_result \<Rightarrow> diagnostics \<Rightarrow> 'r kzg_result" where
  "attachUserMduKzgSchedulerDiagnostics r d = r\<lparr>kr_scheduler := Some (kr_commitMs r, d)\<rparr>"

text \<open>
  A task, with the callbacks it has and the abort signal it listens to. A queued task has
  the identity \<open>q_id\<close> of the promise that \<open>enqueue\<close> returned for it.
\<close>

record kzg_task =
  tk_sequence :: jsnum
  tk_commitBatch :: bool
  tk_fallback :: bool
  tk_signal :: "nat option"

record queued_task =
  q_id :: nat
  q_task :: kzg_task
  q_enqueuedAtMs :: rat
  q_depthAtEnqueue :: nat
  q_activeAtEnqueue :: nat

datatype expansion_state = Pending | Fulfilled expansion | Rejected kzg_error

record batch_item =
  bi_queued :: queued_task
  bi_expansion :: expansion

record batch_meta =
  bm_plan :: batch_plan
  bm_splitCountAtStart :: nat
  bm_fallbackCountAtStart :: nat


section \<open>State\<close>

record scheduler =
  sc_maxQueueDepth :: nat
  sc_concurrency :: nat
  sc_now :: "nat \<Rightarrow> rat"
  sc_batchEnabled :: bool
  sc_batchConstraints :: normalized_constraints
  sc_queue :: "queued_task list"
  sc_active :: nat
  sc_completed :: nat
  sc_failed :: nat
  sc_fallbackCount :: nat
  sc_batchSplitCount :: nat
  sc_batchFallbackCount :: nat
  sc_batchTimeoutCount :: nat
  sc_adaptiveBatchCapMdus :: "nat option"
  sc_adaptiveBatchCapReason :: "string option"
  sc_lastRetriedBatchSizes :: "nat list"
  sc_lastBatchSize :: "nat option"
  sc_lastBatchBlobs :: "nat option"
  sc_lastBatchBytes :: "nat option"
  sc_lastBatchPlanReason :: "plan_reason option"
  sc_lastError :: "string option"
  sc_lastQueueWaitMs :: "rat option"
  sc_lastTotalMs :: "rat option"

text \<open>
  The call a run waits for: the owner's \<open>commitBatch\<close>, one item's \<open>commit\<close>, or one item's
  \<open>fallback\<close> with its reason, each with the context it was given.
\<close>

datatype owner_call =
    is_BatchCall: BatchCall "batch_item list" diagnostics
  | CommitCall batch_item diagnostics
  | FallbackCall batch_item string diagnostics

text \<open>
  Where a run waits: for the expansion of its first item, or inside \<open>commitBatchItems\<close>
  with the batch, its meta data, the outcomes so far (a result and \<open>usedFallback\<close>), the
  pending call and the batches the recursion has still to commit.
\<close>

datatype 'r run_phase =
    WaitExpansion
  | WaitCommit "batch_item list" batch_meta "('r kzg_result \<times> bool) list" owner_call "batch_item list list"

record 'r sched_run =
  rn_first :: queued_task
  rn_startedAtMs :: rat
  rn_phase :: "'r run_phase"

record 'r sched_world = scheduler +
  wo_ticks :: nat
  wo_next :: nat
  wo_runs :: "'r sched_run list"
  wo_expansion :: "nat \<Rightarrow> expansion_state"
  wo_aborted :: "nat list"
  wo_settled :: "(nat \<times> (kzg_error + 'r kzg_result)) list"

record scheduler_options =
  so_maxQueueDepth :: "jsnum option"
  so_concurrency :: "jsnum option"
  so_enabled :: "bool option"
  so_batch :: batch_constraints

definition new_scheduler :: "scheduler_options \<Rightarrow> (nat \<Rightarrow> rat) \<Rightarrow> 'r sched_world" where
  "new_scheduler opts now =
     \<lparr>sc_maxQueueDepth = positiveInteger (so_maxQueueDepth opts) 32,
      sc_concurrency = positiveInteger (so_concurrency opts) 1,
      sc_now = now, sc_batchEnabled = (so_enabled opts \<noteq> Some False),
      sc_batchConstraints = normalizeUserMduKzgBatchConstraints (so_batch opts),
      sc_queue = [], sc_active = 0, sc_completed = 0, sc_failed = 0, sc_fallbackCount = 0,
      sc_batchSplitCount = 0, sc_batchFallbackCount = 0, sc_batchTimeoutCount = 0,
      sc_adaptiveBatchCapMdus = None, sc_adaptiveBatchCapReason = None, sc_lastRetriedBatchSizes = [],
      sc_lastBatchSize = None, sc_lastBatchBlobs = None, sc_lastBatchBytes = None,
      sc_lastBatchPlanReason = None, sc_lastError = None, sc_lastQueueWaitMs = None, sc_lastTotalMs = None,
      wo_ticks = 0, wo_next = 0, wo_runs = [], wo_expansion = (\<lambda>_. Pending), wo_aborted = [], wo_settled = []\<rparr>"

definition clock :: "'r sched_world \<Rightarrow> rat" where
  "clock s = sc_now s (wo_ticks s)"

definition tick :: "'r sched_world \<Rightarrow> 'r sched_world" where
  "tick s = s\<lparr>wo_ticks := wo_ticks s + 1\<rparr>"

definition aborted :: "'r sched_world \<Rightarrow> queued_task \<Rightarrow> bool" where
  "aborted s q = (case tk_signal (q_task q) of None \<Rightarrow> False | Some g \<Rightarrow> g \<in> set (wo_aborted s))"


section \<open>Adaptive batch size\<close>

definition setAdaptiveBatchCap :: "jsnum option \<Rightarrow> string option \<Rightarrow> 'r sched_world \<Rightarrow> 'r sched_world" where
  "setAdaptiveBatchCap maxBatchMdus reason s =
     (case maxBatchMdus of
        None \<Rightarrow> s\<lparr>sc_adaptiveBatchCapMdus := None, sc_adaptiveBatchCapReason := None\<rparr>
      | Some n \<Rightarrow>
          if \<not> isFinite n \<or> js_floor n \<le> 0 then s
          else s\<lparr>sc_adaptiveBatchCapMdus := Some (max 1 (min (nc_maxBatchMdus (sc_batchConstraints s)) (nat (js_floor n)))),
                 sc_adaptiveBatchCapReason := reason\<rparr>)"

definition effectiveBatchConstraints :: "'r sched_world \<Rightarrow> normalized_constraints" where
  "effectiveBatchConstraints s =
     (case sc_adaptiveBatchCapMdus s of
        None \<Rightarrow> sc_batchConstraints s
      | Some cap \<Rightarrow>
          if cap = 0 then sc_batchConstraints s
          else (sc_batchConstraints s)
            \<lparr>nc_maxBatchMdus := max 1 (min (nc_maxBatchMdus (sc_batchConstraints s)) cap)\<rparr>)"

text \<open>\<open>batchSize - 1 || 1\<close> is 1 for a batch of one.\<close>

definition reduceAdaptiveBatchCapAfterTimeout :: "nat \<Rightarrow> nat list \<Rightarrow> 'r sched_world \<Rightarrow> 'r sched_world" where
  "reduceAdaptiveBatchCapAfterTimeout batchSize retrySizes s =
     (let retryCap = foldl max 1 retrySizes;
          currentCap = (case sc_adaptiveBatchCapMdus s of
             Some c \<Rightarrow> c | None \<Rightarrow> nc_maxBatchMdus (sc_batchConstraints s));
          nextCap = max 1 (min (min currentCap retryCap) (if batchSize - 1 = 0 then 1 else batchSize - 1))
      in s\<lparr>sc_adaptiveBatchCapMdus := Some nextCap,
           sc_adaptiveBatchCapReason :=
             Some (''reduced after WebGPU batch timeout at '' @ dec_string batchSize @ '' user MDU(s)'')\<rparr>)"

definition makeDiagnostics ::
  "'r sched_world \<Rightarrow> queued_task \<Rightarrow> rat \<Rightarrow> rat \<Rightarrow> batch_item list \<Rightarrow> batch_meta \<Rightarrow> nat \<Rightarrow> diagnostics" where
  "makeDiagnostics s item startedAtMs finishedAtMs batch meta position =
     (let c = effectiveBatchConstraints s in
      \<lparr>dg_sequence = tk_sequence (q_task item),
       dg_queueWaitMs = max 0 (startedAtMs - q_enqueuedAtMs item),
       dg_totalMs = max 0 (finishedAtMs - q_enqueuedAtMs item),
       dg_depthAtEnqueue = q_depthAtEnqueue item, dg_activeAtEnqueue = q_activeAtEnqueue item,
       dg_queueDepthAtStart = length (sc_queue s), dg_maxQueueDepth = sc_maxQueueDepth s,
       dg_fallbackCount = sc_fallbackCount s, dg_batchSize = length batch, dg_batchPosition = position,
       dg_batchBlobs = bp_blobs (bm_plan meta), dg_batchBytes = bp_bytes (bm_plan meta),
       dg_batchEstimatedMemoryBytes = bp_estimatedMemoryBytes (bm_plan meta),
       dg_batchMaxMdus = nc_maxBatchMdus c, dg_batchMaxBlobs = nc_maxBatchBlobs c, dg_batchMaxBytes = nc_maxBatchBytes c,
       dg_batchPlanReason = bp_reason (bm_plan meta),
       dg_batchSplitCount = sc_batchSplitCount s - bm_splitCountAtStart meta,
       dg_batchFallbackCount = sc_batchFallbackCount s - bm_fallbackCountAtStart meta,
       dg_batchTimeoutCount = sc_batchTimeoutCount s, dg_safeMaxBatchMdus = nc_maxBatchMdus c,
       dg_retriedBatchSizes = join '','' (map dec_string (sc_lastRetriedBatchSizes s))\<rparr>)"


section \<open>Starting runs\<close>

text \<open>The items a failing run rejects, in order, and the counters it leaves.\<close>

definition reject_items :: "queued_task list \<Rightarrow> kzg_error \<Rightarrow> 'r sched_world \<Rightarrow> 'r sched_world" where
  "reject_items items e s =
     s\<lparr>sc_failed := sc_failed s + length items, sc_lastError := Some (ke_message e),
       wo_settled := wo_settled s @ map (\<lambda>q. (q_id q, Inl e)) items\<rparr>"

text \<open>
  \<open>run\<close> up to its first \<open>await\<close>. A task that was aborted while it was queued is rejected at
  once and gives its slot back; otherwise the run waits for the task's expansion.
\<close>

definition run_start :: "queued_task \<Rightarrow> 'r sched_world \<Rightarrow> 'r sched_world" where
  "run_start first s =
     (let startedAtMs = clock s;
          s1 = (tick s)\<lparr>sc_lastQueueWaitMs := Some (max 0 (startedAtMs - q_enqueuedAtMs first))\<rparr>
      in if aborted s1 first then (reject_items [first] abortError s1)\<lparr>sc_active := sc_active s1 - 1\<rparr>
         else s1\<lparr>wo_runs := wo_runs s1 @ [\<lparr>rn_first = first, rn_startedAtMs = startedAtMs, rn_phase = WaitExpansion\<rparr>]\<rparr>)"

lemma run_start_queue [simp]: "sc_queue (run_start q s) = sc_queue s"
  by (simp add: run_start_def reject_items_def tick_def Let_def)

text \<open>
  \<open>pump\<close>: the \<open>pump\<close> that a rejected run calls from its \<open>finally\<close> is the rest of this loop.
\<close>

function pump :: "'r sched_world \<Rightarrow> 'r sched_world" where
  "pump s =
     (if sc_active s < sc_concurrency s \<and> sc_queue s \<noteq> []
      then pump (run_start (hd (sc_queue s)) (s\<lparr>sc_queue := tl (sc_queue s), sc_active := sc_active s + 1\<rparr>))
      else s)"
  by auto
termination
  by (relation "measure (\<lambda>s. length (sc_queue s))") auto

declare pump.simps [simp del]

text \<open>
  \<open>enqueue\<close> returns the identity of the promise, or the error of a promise rejected at once.
\<close>

definition enqueue :: "kzg_task \<Rightarrow> 'r sched_world \<Rightarrow> (kzg_error + nat) \<times> 'r sched_world" where
  "enqueue task s =
     (if \<not> isInteger (tk_sequence task) \<or> js_less (tk_sequence task) 0
      then (Inl (plain_error ''scheduler task sequence must be a non-negative integer''), s)
      else if sc_active s + length (sc_queue s) \<ge> sc_maxQueueDepth s
      then (Inl (plain_error (''user MDU KZG scheduler queue is full ('' @ dec_string (sc_maxQueueDepth s) @ '')'')), s)
      else if (case tk_signal task of None \<Rightarrow> False | Some g \<Rightarrow> g \<in> set (wo_aborted s))
      then (Inl abortError, s)
      else
        let item = \<lparr>q_id = wo_next s, q_task = task, q_enqueuedAtMs = clock s,
                    q_depthAtEnqueue = length (sc_queue s), q_activeAtEnqueue = sc_active s\<rparr>
        in (Inr (wo_next s),
            pump ((tick s)\<lparr>sc_queue := sc_queue s @ [item], wo_next := wo_next s + 1,
                           wo_expansion := (wo_expansion s)(wo_next s := Pending)\<rparr>)))"

text \<open>\<open>finally\<close>: the run leaves, its slot is free again, the queue moves on.\<close>

definition run_finally :: "nat \<Rightarrow> 'r sched_world \<Rightarrow> 'r sched_world" where
  "run_finally i s =
     pump (s\<lparr>wo_runs := take i (wo_runs s) @ drop (i + 1) (wo_runs s), sc_active := sc_active s - 1\<rparr>)"

definition run_fail :: "nat \<Rightarrow> queued_task list \<Rightarrow> kzg_error \<Rightarrow> 'r sched_world \<Rightarrow> 'r sched_world" where
  "run_fail i items e s = run_finally i (reject_items items e s)"


section \<open>Committing a batch\<close>

text \<open>Normalised constraints as the planner's argument, which normalises them again.\<close>

definition as_constraints :: "normalized_constraints \<Rightarrow> batch_constraints" where
  "as_constraints c =
     \<lparr>bc_maxBatchMdus = Some (num (nc_maxBatchMdus c)), bc_maxBatchBlobs = Some (num (nc_maxBatchBlobs c)),
      bc_maxBatchBytes = Some (num (nc_maxBatchBytes c)),
      bc_maxEstimatedMemoryBytes = Some (num (nc_maxEstimatedMemoryBytes c))\<rparr>"

text \<open>
  The loop of \<open>collectReadyBatch\<close> over the queue, with the batch and plan so far.
\<close>

fun collect_loop ::
  "'r sched_world \<Rightarrow> normalized_constraints \<Rightarrow> batch_item list \<Rightarrow> batch_plan \<Rightarrow> queued_task list
   \<Rightarrow> (batch_item list \<times> batch_plan) result" where
  "collect_loop s c batch plan [] = Inr (batch, plan)"
| "collect_loop s c batch plan (q # qs) =
     (if \<not> tk_commitBatch (q_task q) \<or> aborted s q then Inr (batch, plan)
      else
        case wo_expansion s (q_id q) of
          Fulfilled e \<Rightarrow>
            let candidateExpansions = map bi_expansion batch @ [e] in
            sbind (planUserMduKzgBatch candidateExpansions (as_constraints c)) (\<lambda>candidatePlan.
              if bp_count candidatePlan \<noteq> length candidateExpansions
              then Inr (batch, if bp_count candidatePlan = length batch then candidatePlan else plan)
              else collect_loop s c (batch @ [\<lparr>bi_queued = q, bi_expansion = e\<rparr>]) candidatePlan qs)
        | _ \<Rightarrow> Inr (batch, plan))"

definition collectReadyBatch ::
  "queued_task \<Rightarrow> expansion \<Rightarrow> 'r sched_world \<Rightarrow> (batch_item list \<times> batch_plan) result" where
  "collectReadyBatch first firstExpansion s =
     (let batch = [\<lparr>bi_queued = first, bi_expansion = firstExpansion\<rparr>]; constraints = effectiveBatchConstraints s in
      sbind (planUserMduKzgBatch [firstExpansion] (as_constraints constraints)) (\<lambda>plan.
        if \<not> sc_batchEnabled s \<or> \<not> tk_commitBatch (q_task first) then Inr (batch, plan)
        else collect_loop s constraints batch plan (sc_queue s)))"

text \<open>
  \<open>commitSingle\<close> after a failure: the item's fallback when it has one. The \<open>reason\<close> argument
  is only passed by a branch of \<open>commitBatchItems\<close> that no batch reaches (\<open>split_parts\<close>).
\<close>

definition single_failed ::
  "batch_meta \<Rightarrow> batch_item \<Rightarrow> diagnostics \<Rightarrow> kzg_error \<Rightarrow> 'r sched_world
   \<Rightarrow> (kzg_error + owner_call) \<times> 'r sched_world" where
  "single_failed meta item baseContext e s =
     (if \<not> tk_fallback (q_task (bi_queued item)) then (Inl e, s)
      else
        let s1 = s\<lparr>sc_fallbackCount := sc_fallbackCount s + 1, sc_batchFallbackCount := sc_batchFallbackCount s + 1\<rparr>
        in (Inr (FallbackCall item (ke_message e) (baseContext
              \<lparr>dg_fallbackCount := sc_fallbackCount s1,
               dg_batchFallbackCount := sc_batchFallbackCount s1 - bm_fallbackCountAtStart meta\<rparr>)), s1))"

text \<open>\<open>commitSingle\<close> up to its first call.\<close>

definition commitSingle ::
  "batch_item \<Rightarrow> rat \<Rightarrow> batch_meta \<Rightarrow> 'r sched_world \<Rightarrow> (kzg_error + owner_call) \<times> 'r sched_world" where
  "commitSingle item startedAtMs meta s =
     (let baseContext = makeDiagnostics s (bi_queued item) startedAtMs (clock s) [item] meta 0; s1 = tick s in
      if aborted s1 (bi_queued item) then single_failed meta item baseContext abortError s1
      else (Inr (CommitCall item baseContext), s1))"

text \<open>\<open>commitBatchItems\<close> up to its first call.\<close>

definition commitBatchItems ::
  "batch_item list \<Rightarrow> rat \<Rightarrow> batch_meta \<Rightarrow> 'r sched_world \<Rightarrow> (kzg_error + owner_call) \<times> 'r sched_world" where
  "commitBatchItems batch startedAtMs meta s =
     (if length batch = 1 \<or> \<not> tk_commitBatch (q_task (bi_queued (hd batch)))
      then commitSingle (hd batch) startedAtMs meta s
      else (Inr (BatchCall batch (makeDiagnostics s (bi_queued (hd batch)) startedAtMs (clock s) batch meta 0)), tick s))"

text \<open>
  The handler of a failed \<open>commitBatch\<close>: the two halves to commit instead, and the state.
  Only batches of at least two items are committed with \<open>commitBatch\<close>, so \<open>batch.length <= 1\<close>
  and an empty half do not occur.
\<close>

definition batch_failed ::
  "batch_item list \<Rightarrow> kzg_error \<Rightarrow> 'r sched_world \<Rightarrow> (batch_item list \<times> batch_item list) \<times> 'r sched_world" where
  "batch_failed batch e s =
     (let (leftCount, rightCount) = splitUserMduKzgBatch (length batch);
          retrySizes = filter (\<lambda>n. n > 0) [leftCount, rightCount];
          s1 = s\<lparr>sc_batchSplitCount := sc_batchSplitCount s + 1, sc_lastRetriedBatchSizes := retrySizes\<rparr>;
          s2 = (if isWebGpuKzgCommitTimeoutError e
                then reduceAdaptiveBatchCapAfterTimeout (length batch) retrySizes
                       (s1\<lparr>sc_batchTimeoutCount := sc_batchTimeoutCount s1 + 1\<rparr>)
                else s1)
      in ((take leftCount batch, drop leftCount batch), s2))"

text \<open>\<open>outcomes.forEach\<close>: one resolved promise per outcome, with its diagnostics attached.\<close>

fun resolve_outcomes ::
  "rat \<Rightarrow> rat \<Rightarrow> batch_item list \<Rightarrow> batch_meta \<Rightarrow> nat \<Rightarrow> ('r kzg_result \<times> bool) list \<Rightarrow> 'r sched_world \<Rightarrow> 'r sched_world" where
  "resolve_outcomes startedAtMs finishedAtMs batch meta index [] s = s"
| "resolve_outcomes startedAtMs finishedAtMs batch meta index ((result, usedFallback) # outcomes) s =
     (let item = batch ! index;
          d = makeDiagnostics s (bi_queued item) startedAtMs finishedAtMs batch meta index;
          decorated = attachUserMduKzgSchedulerDiagnostics result d;
          reason = kr_fallbackReason decorated;
          decorated' = (if usedFallback
             then decorated\<lparr>kr_fallbackReason :=
                    (if reason = None \<or> reason = Some [] then Some ''scheduler fallback used'' else reason)\<rparr>
             else decorated)
      in resolve_outcomes startedAtMs finishedAtMs batch meta (index + 1) outcomes
           (s\<lparr>sc_completed := sc_completed s + 1, sc_lastTotalMs := Some (dg_totalMs d), sc_lastError := None,
              wo_settled := wo_settled s @ [(q_id (bi_queued item), Inr decorated')]\<rparr>))"

text \<open>
  \<open>commitBatchItems\<close> between two calls: commit the next batch of the recursion, or finish
  the run when none is left. A throw rejects the run's whole batch.
\<close>

definition run_continue ::
  "nat \<Rightarrow> rat \<Rightarrow> batch_item list \<Rightarrow> batch_meta \<Rightarrow> ('r kzg_result \<times> bool) list \<Rightarrow> batch_item list list
   \<Rightarrow> 'r sched_world \<Rightarrow> 'r sched_world" where
  "run_continue i startedAtMs batch meta outcomes pending s =
     (case pending of
        [] \<Rightarrow> run_finally i (resolve_outcomes startedAtMs (clock s) batch meta 0 outcomes (tick s))
      | items # rest \<Rightarrow>
          (case commitBatchItems items startedAtMs meta s of
             (Inl e, s1) \<Rightarrow> run_fail i (map bi_queued batch) e s1
           | (Inr call, s1) \<Rightarrow>
               s1\<lparr>wo_runs := (wo_runs s1)[i := (wo_runs s1 ! i)\<lparr>rn_phase := WaitCommit batch meta outcomes call rest\<rparr>]\<rparr>))"

text \<open>\<open>run\<close> after its expansion has settled.\<close>

definition run_expanded :: "nat \<Rightarrow> 'r sched_world \<Rightarrow> 'r sched_world" where
  "run_expanded i s =
     (let run = wo_runs s ! i; first = rn_first run in
      case wo_expansion s (q_id first) of
        Pending \<Rightarrow> s
      | Rejected e \<Rightarrow> run_fail i [first] e s
      | Fulfilled e \<Rightarrow>
          if aborted s first then run_fail i [first] abortError s
          else
            (case collectReadyBatch first e s of
               Inl message \<Rightarrow> run_fail i [first] (plain_error message) s
             | Inr (batch, plan) \<Rightarrow>
                 let meta = \<lparr>bm_plan = plan, bm_splitCountAtStart = sc_batchSplitCount s,
                             bm_fallbackCountAtStart = sc_batchFallbackCount s\<rparr>;
                     s1 = s\<lparr>sc_queue := drop (length batch - 1) (sc_queue s),
                            sc_lastBatchSize := Some (length batch), sc_lastBatchBlobs := Some (bp_blobs plan),
                            sc_lastBatchBytes := Some (bp_bytes plan), sc_lastBatchPlanReason := Some (bp_reason plan)\<rparr>
                 in run_continue i (rn_startedAtMs run) batch meta [] [batch] s1))"

text \<open>
  The reply of a \<open>commitBatch\<close> call: an array, something else (\<open>None\<close>), or a rejection.
\<close>

definition check_results ::
  "nat \<Rightarrow> kzg_error + 'r kzg_result list option \<Rightarrow> kzg_error + 'r kzg_result list" where
  "check_results expected reply =
     sbind reply (\<lambda>results.
       let n = (case results of None \<Rightarrow> 0 | Some rs \<Rightarrow> length rs) in
       if results = None \<or> n \<noteq> expected
       then Inl (plain_error (''batch KZG owner returned '' @ dec_string n @ '' results for ''
                   @ dec_string expected @ '' user MDUs''))
       else Inr (the results))"

definition batch_reply :: "nat \<Rightarrow> kzg_error + 'r kzg_result list option \<Rightarrow> 'r sched_world \<Rightarrow> 'r sched_world" where
  "batch_reply i reply s =
     (case rn_phase (wo_runs s ! i) of
        WaitCommit batch meta outcomes (BatchCall items d) rest \<Rightarrow>
          let startedAtMs = rn_startedAtMs (wo_runs s ! i) in
          (case check_results (length items) reply of
             Inr rs \<Rightarrow> run_continue i startedAtMs batch meta (outcomes @ map (\<lambda>r. (r, False)) rs) rest s
           | Inl e \<Rightarrow>
               let ((l, r), s1) = batch_failed items e s
               in run_continue i startedAtMs batch meta outcomes (l # r # rest) s1)
      | _ \<Rightarrow> s)"

text \<open>The reply of a \<open>commit\<close> or \<open>fallback\<close> call.\<close>

definition item_reply :: "nat \<Rightarrow> kzg_error + 'r kzg_result \<Rightarrow> 'r sched_world \<Rightarrow> 'r sched_world" where
  "item_reply i reply s =
     (case rn_phase (wo_runs s ! i) of
        WaitCommit batch meta outcomes (CommitCall item d) rest \<Rightarrow>
          (case reply of
             Inr r \<Rightarrow> run_continue i (rn_startedAtMs (wo_runs s ! i)) batch meta (outcomes @ [(r, False)]) rest s
           | Inl e \<Rightarrow>
               (case single_failed meta item d e s of
                  (Inl e', s1) \<Rightarrow> run_fail i (map bi_queued batch) e' s1
                | (Inr call, s1) \<Rightarrow>
                    s1\<lparr>wo_runs := (wo_runs s1)[i := (wo_runs s1 ! i)\<lparr>rn_phase := WaitCommit batch meta outcomes call rest\<rparr>]\<rparr>))
      | WaitCommit batch meta outcomes (FallbackCall item reason d) rest \<Rightarrow>
          (case reply of
             Inr r \<Rightarrow> run_continue i (rn_startedAtMs (wo_runs s ! i)) batch meta (outcomes @ [(r, True)]) rest s
           | Inl e \<Rightarrow> run_fail i (map bi_queued batch) e s)
      | _ \<Rightarrow> s)"


section \<open>Status\<close>

record scheduler_status =
  st_active :: nat
  st_queued :: nat
  st_maxQueueDepth :: nat
  st_concurrency :: nat
  st_nextSequence :: jsnum
  st_completed :: nat
  st_failed :: nat
  st_fallbackCount :: nat
  st_batchSplitCount :: nat
  st_batchFallbackCount :: nat
  st_batchTimeoutCount :: nat
  st_safeMaxBatchMdus :: nat
  st_adaptiveBatchCapReason :: "string option"
  st_lastRetriedBatchSizes :: "nat list"
  st_lastBatchSize :: "nat option"
  st_lastBatchBlobs :: "nat option"
  st_lastBatchBytes :: "nat option"
  st_lastBatchPlanReason :: "plan_reason option"
  st_lastError :: "string option"
  st_lastQueueWaitMs :: "rat option"
  st_lastTotalMs :: "rat option"

definition getStatus :: "'r sched_world \<Rightarrow> scheduler_status" where
  "getStatus s =
     \<lparr>st_active = sc_active s, st_queued = length (sc_queue s), st_maxQueueDepth = sc_maxQueueDepth s,
      st_concurrency = sc_concurrency s,
      st_nextSequence = (case sc_queue s of [] \<Rightarrow> Fin (- 1) | q # _ \<Rightarrow> tk_sequence (q_task q)),
      st_completed = sc_completed s, st_failed = sc_failed s, st_fallbackCount = sc_fallbackCount s,
      st_batchSplitCount = sc_batchSplitCount s, st_batchFallbackCount = sc_batchFallbackCount s,
      st_batchTimeoutCount = sc_batchTimeoutCount s,
      st_safeMaxBatchMdus = nc_maxBatchMdus (effectiveBatchConstraints s),
      st_adaptiveBatchCapReason = sc_adaptiveBatchCapReason s,
      st_lastRetriedBatchSizes = sc_lastRetriedBatchSizes s, st_lastBatchSize = sc_lastBatchSize s,
      st_lastBatchBlobs = sc_lastBatchBlobs s, st_lastBatchBytes = sc_lastBatchBytes s,
      st_lastBatchPlanReason = sc_lastBatchPlanReason s, st_lastError = sc_lastError s,
      st_lastQueueWaitMs = sc_lastQueueWaitMs s, st_lastTotalMs = sc_lastTotalMs s\<rparr>"


section \<open>Executions\<close>

text \<open>A step of a run: its expansion has settled, or the call it waits for has replied.\<close>

inductive owner_step :: "'r sched_world \<Rightarrow> 'r sched_world \<Rightarrow> bool" where
  expanded: "i < length (wo_runs s) \<Longrightarrow> rn_phase (wo_runs s ! i) = WaitExpansion \<Longrightarrow>
    wo_expansion s (q_id (rn_first (wo_runs s ! i))) \<noteq> Pending \<Longrightarrow> owner_step s (run_expanded i s)"
| batch_replied: "i < length (wo_runs s) \<Longrightarrow>
    rn_phase (wo_runs s ! i) = WaitCommit batch meta outcomes (BatchCall items d) rest \<Longrightarrow>
    owner_step s (batch_reply i batchReply s)"
| item_replied: "i < length (wo_runs s) \<Longrightarrow>
    rn_phase (wo_runs s ! i) = WaitCommit batch meta outcomes call rest \<Longrightarrow> \<not> is_BatchCall call \<Longrightarrow>
    owner_step s (item_reply i itemReply s)"

text \<open>A step of the environment that enqueues nothing.\<close>

inductive env_step :: "'r sched_world \<Rightarrow> 'r sched_world \<Rightarrow> bool" where
  aborts: "env_step s (s\<lparr>wo_aborted := g # wo_aborted s\<rparr>)"
| settles: "v \<noteq> Pending \<Longrightarrow> wo_expansion s n = Pending \<Longrightarrow> env_step s (s\<lparr>wo_expansion := (wo_expansion s)(n := v)\<rparr>)"
| caps: "env_step s (setAdaptiveBatchCap n reason s)"

inductive sched_step :: "'r sched_world \<Rightarrow> 'r sched_world \<Rightarrow> bool" where
  enqueues: "sched_step s (snd (enqueue task s))"
| environment: "env_step s s' \<Longrightarrow> sched_step s s'"
| owner: "owner_step s s' \<Longrightarrow> sched_step s s'"

inductive reachable :: "scheduler_options \<Rightarrow> (nat \<Rightarrow> rat) \<Rightarrow> 'r sched_world \<Rightarrow> bool"
  for opts now where
  initial: "reachable opts now (new_scheduler opts now)"
| steps: "reachable opts now s \<Longrightarrow> sched_step s s' \<Longrightarrow> reachable opts now s'"

end
