(* ===== verification/KzgSchedulerCorrect.thy ===== *)
theory KzgSchedulerCorrect
  imports KzgScheduler "HOL-Library.Multiset"
begin

text \<open>
  Correctness of the KZG scheduler over every interleaving of its events: bounded
  concurrency and queue, no lost or doubly settled promise, first-in first-out settlement
  with one slot, and progress.
\<close>


section \<open>Accounting of promises\<close>

text \<open>
  The identities of the settled promises, of those each run holds, and of those queued make
  up all identities given out; with one slot even their order is that of \<open>enqueue\<close>.
\<close>

definition acct :: "nat \<Rightarrow> nat \<Rightarrow> nat list \<Rightarrow> nat list list \<Rightarrow> nat list \<Rightarrow> bool" where
  "acct c n S R Q \<longleftrightarrow>
     length R \<le> c \<and> mset (S @ concat R @ Q) = mset [0..<n] \<and> (c = 1 \<longrightarrow> S @ concat R @ Q = [0..<n])"

lemma acct_changeI:
  assumes "acct c n S R Q" "length R' \<le> c"
    and "mset (S' @ concat R' @ Q') = mset (S @ concat R @ Q)"
    and "c = 1 \<Longrightarrow> S' @ concat R' @ Q' = S @ concat R @ Q"
  shows "acct c n S' R' Q'"
  using assms by (metis acct_def)

lemma acct_settle:
  assumes "acct c n S R Q" "i < length R"
  shows "acct c n (S @ R ! i) (take i R @ drop (Suc i) R) Q"
proof (rule acct_changeI [OF assms(1)])
  have R: "R = take i R @ R ! i # drop (Suc i) R"
    using assms(2) by (rule id_take_nth_drop)
  have "mset (concat R) = mset (R ! i) + mset (concat (take i R @ drop (Suc i) R))"
    by (subst R) simp
  then show "mset ((S @ R ! i) @ concat (take i R @ drop (Suc i) R) @ Q) = mset (S @ concat R @ Q)"
    by (simp add: ac_simps)
  show "length (take i R @ drop (Suc i) R) \<le> c"
    using assms by (auto simp: acct_def)
  assume "c = 1"
  then obtain x where "R = [x]" "i = 0"
    using assms by (cases R) (auto simp: acct_def)
  then show "(S @ R ! i) @ concat (take i R @ drop (Suc i) R) @ Q = S @ concat R @ Q"
    by simp
qed

lemma acct_start:
  "acct c n S R (q # Q) \<Longrightarrow> length R < c \<Longrightarrow> acct c n S (R @ [[q]]) Q"
  "acct c n S R (q # Q) \<Longrightarrow> length R < c \<Longrightarrow> acct c n (S @ [q]) R Q"
  by (auto simp: acct_def)

lemma acct_enqueue: "acct c n S R Q \<Longrightarrow> acct c (Suc n) S R (Q @ [n])"
  by (auto simp: acct_def)

lemma acct_collect:
  assumes "acct c n S R Q" "i < length R"
  shows "acct c n S (R[i := R ! i @ take k Q]) (drop k Q)"
proof (rule acct_changeI [OF assms(1)])
  have R: "R = take i R @ R ! i # drop (Suc i) R"
    using assms(2) by (rule id_take_nth_drop)
  have "mset (concat (R[i := R ! i @ take k Q])) = mset (concat R) + mset (take k Q)"
    using assms(2) by (subst (2) R) (simp add: upd_conv_take_nth_drop)
  moreover have "mset (take k Q) + mset (drop k Q) = mset Q"
    by (metis append_take_drop_id mset_append)
  ultimately show "mset (S @ concat (R[i := R ! i @ take k Q]) @ drop k Q) = mset (S @ concat R @ Q)"
    by (simp add: add.assoc)
  show "length (R[i := R ! i @ take k Q]) \<le> c"
    using assms by (simp add: acct_def)
  assume "c = 1"
  then obtain x where "R = [x]" "i = 0"
    using assms by (cases R) (auto simp: acct_def)
  then show "S @ concat (R[i := R ! i @ take k Q]) @ drop k Q = S @ concat R @ Q"
    by simp
qed


section \<open>The invariant\<close>

fun call_items :: "owner_call \<Rightarrow> batch_item list" where
  "call_items (BatchCall items d) = items"
| "call_items (CommitCall item d) = [item]"
| "call_items (FallbackCall item reason d) = [item]"

definition batchable :: "batch_item list \<Rightarrow> bool" where
  "batchable items \<longleftrightarrow> items \<noteq> [] \<and> (1 < length items \<longrightarrow> list_all (\<lambda>b. tk_commitBatch (q_task (bi_queued b))) items)"

definition item_ids :: "batch_item list \<Rightarrow> nat list" where
  "item_ids = map (\<lambda>b. q_id (bi_queued b))"

definition run_ids :: "'r sched_run \<Rightarrow> nat list" where
  "run_ids r = (case rn_phase r of WaitExpansion \<Rightarrow> [q_id (rn_first r)] | WaitCommit batch _ _ _ _ \<Rightarrow> item_ids batch)"

text \<open>
  Inside \<open>commitBatchItems\<close>, the outcomes so far, the items of the pending call and those of the
  batches still to commit line up with the batch.
\<close>

definition aligned ::
  "batch_item list \<Rightarrow> 'o list \<Rightarrow> batch_item list list \<Rightarrow> bool" where
  "aligned batch outcomes pending \<longleftrightarrow>
     length outcomes \<le> length batch \<and> concat pending = drop (length outcomes) batch \<and> list_all batchable pending"

definition run_wf :: "'r sched_run \<Rightarrow> bool" where
  "run_wf r =
     (case rn_phase r of
        WaitExpansion \<Rightarrow> True
      | WaitCommit batch meta outcomes call rest \<Rightarrow>
          batch \<noteq> [] \<and> aligned batch outcomes (call_items call # rest)
          \<and> (is_BatchCall call \<longrightarrow> 2 \<le> length (call_items call)))"

text \<open>The state while run \<open>i\<close>, which holds the promises \<open>B\<close>, is being stepped.\<close>

definition open_inv :: "nat \<Rightarrow> nat list \<Rightarrow> 'r sched_world \<Rightarrow> bool" where
  "open_inv i B s \<longleftrightarrow>
     i < length (wo_runs s) \<and> sc_active s = length (wo_runs s) \<and> sc_active s + length (sc_queue s) \<le> sc_maxQueueDepth s
     \<and> (sc_queue s \<noteq> [] \<longrightarrow> sc_active s = sc_concurrency s)
     \<and> (\<forall>j < length (wo_runs s). j \<noteq> i \<longrightarrow> run_wf (wo_runs s ! j))
     \<and> sc_completed s + sc_failed s = length (wo_settled s)
     \<and> acct (sc_concurrency s) (wo_next s) (map fst (wo_settled s)) ((map run_ids (wo_runs s))[i := B]) (map q_id (sc_queue s))"

definition core :: "'r sched_world \<Rightarrow> bool" where
  "core s \<longleftrightarrow>
     sc_active s = length (wo_runs s) \<and> sc_active s + length (sc_queue s) \<le> sc_maxQueueDepth s
     \<and> list_all run_wf (wo_runs s) \<and> sc_completed s + sc_failed s = length (wo_settled s)
     \<and> acct (sc_concurrency s) (wo_next s) (map fst (wo_settled s)) (map run_ids (wo_runs s)) (map q_id (sc_queue s))"

definition sched_inv :: "'r sched_world \<Rightarrow> bool" where
  "sched_inv s \<longleftrightarrow> core s \<and> (sc_queue s \<noteq> [] \<longrightarrow> sc_active s = sc_concurrency s)"

lemma core_active: "core s \<Longrightarrow> sc_active s \<le> sc_concurrency s"
  by (auto simp: core_def acct_def)

lemma run_start_core:
  assumes "core s" "sc_active s < sc_concurrency s" "sc_queue s \<noteq> []"
  shows "core (run_start (hd (sc_queue s)) (s\<lparr>sc_queue := tl (sc_queue s), sc_active := sc_active s + 1\<rparr>))"
proof -
  obtain q qs where q: "sc_queue s = q # qs"
    using assms(3) by (cases "sc_queue s") auto
  have "acct (sc_concurrency s) (wo_next s) (map fst (wo_settled s)) (map run_ids (wo_runs s)) (q_id q # map q_id qs)"
    "length (map run_ids (wo_runs s)) < sc_concurrency s"
    using assms(1,2) by (simp_all add: core_def q)
  note acct_start [OF this]
  then show ?thesis
    using assms(1) by (auto simp: core_def q run_start_def reject_items_def tick_def Let_def run_wf_def run_ids_def)
qed

lemma pump_inv: "core s \<Longrightarrow> sched_inv (pump s)"
proof (induction s rule: pump.induct)
  case (1 s)
  show ?case
  proof (cases "sc_active s < sc_concurrency s \<and> sc_queue s \<noteq> []")
    case True
    then have "sched_inv (pump (run_start (hd (sc_queue s)) (s\<lparr>sc_queue := tl (sc_queue s), sc_active := sc_active s + 1\<rparr>)))"
      using "1.IH" "1.prems" run_start_core by blast
    then show ?thesis
      using True by (subst pump.simps) simp
  next
    case False
    then show ?thesis
      using "1.prems" core_active [of s] by (subst pump.simps) (auto simp: sched_inv_def)
  qed
qed



section \<open>Stepping one run\<close>

definition item_work :: "batch_item list \<Rightarrow> nat" where
  "item_work items = 3 * length items - 1"

fun call_work :: "owner_call \<Rightarrow> nat" where
  "call_work (BatchCall items d) = item_work items"
| "call_work (CommitCall item d) = 2"
| "call_work (FallbackCall item reason d) = 1"

text \<open>An upper bound on the replies a run, and the whole scheduler, can still wait for.\<close>

definition run_work :: "'r sched_run \<Rightarrow> nat" where
  "run_work r =
     (case rn_phase r of
        WaitExpansion \<Rightarrow> 3
      | WaitCommit batch meta outcomes call rest \<Rightarrow> call_work call + sum_list (map item_work rest))"

definition work :: "'r sched_world \<Rightarrow> nat" where
  "work s = 4 * length (sc_queue s) + sum_list (map run_work (wo_runs s))"

definition other_work :: "nat \<Rightarrow> 'r sched_world \<Rightarrow> nat" where
  "other_work i s = 4 * length (sc_queue s) + sum_list (map run_work (take i (wo_runs s) @ drop (Suc i) (wo_runs s)))"

lemma work_split: "i < length (wo_runs s) \<Longrightarrow> work s = other_work i s + run_work (wo_runs s ! i)"
  unfolding work_def other_work_def by (subst id_take_nth_drop [of i "wo_runs s"]) simp_all

lemma work_update:
  "i < length (wo_runs s) \<Longrightarrow> work (s\<lparr>wo_runs := (wo_runs s)[i := r]\<rparr>) = other_work i s + run_work r"
  by (simp add: work_def other_work_def upd_conv_take_nth_drop)

lemma run_start_work:
  "sc_queue s \<noteq> [] \<Longrightarrow>
     work (run_start (hd (sc_queue s)) (s\<lparr>sc_queue := tl (sc_queue s), sc_active := sc_active s + 1\<rparr>)) < work s"
  by (cases "sc_queue s") (auto simp: run_start_def reject_items_def tick_def Let_def work_def run_work_def)

lemma pump_work: "work (pump s) \<le> work s"
proof (induction s rule: pump.induct)
  case (1 s)
  then show ?case
    using run_start_work [of s] by (subst pump.simps) (auto intro: order_trans less_imp_le)
qed

text \<open>What the steps of a run read and keep of the rest of the state.\<close>

definition frame :: "'r sched_world \<Rightarrow> 'r sched_world \<Rightarrow> bool" where
  "frame s s' \<longleftrightarrow>
     sc_maxQueueDepth s' = sc_maxQueueDepth s \<and> sc_concurrency s' = sc_concurrency s \<and> sc_queue s' = sc_queue s
     \<and> sc_active s' = sc_active s \<and> sc_completed s' = sc_completed s \<and> sc_failed s' = sc_failed s
     \<and> wo_next s' = wo_next s \<and> wo_runs s' = wo_runs s \<and> wo_settled s' = wo_settled s"

lemma frame_open: "frame s s' \<Longrightarrow> open_inv i B s' = open_inv i B s"
  by (simp add: frame_def open_inv_def)

lemma frame_other_work: "frame s s' \<Longrightarrow> other_work i s' = other_work i s"
  by (simp add: frame_def other_work_def)

lemma frame_runs: "frame s s' \<Longrightarrow> wo_runs s' = wo_runs s"
  by (simp add: frame_def)

lemma open_core: "sched_inv s \<Longrightarrow> i < length (wo_runs s) \<Longrightarrow> open_inv i (run_ids (wo_runs s ! i)) s"
  using list_update_id [of "wo_runs s" i]
  by (auto simp: sched_inv_def core_def open_inv_def list_all_length map_update [symmetric])

lemma open_close:
  assumes "open_inv i (run_ids r) s" "run_wf r"
  shows "sched_inv (s\<lparr>wo_runs := (wo_runs s)[i := r]\<rparr>)"
  using assms by (auto simp: open_inv_def sched_inv_def core_def list_all_length nth_list_update map_update)

lemma open_settle:
  assumes "open_inv i B s" and "map fst settled = B" and "sc_completed s' + sc_failed s' = sc_completed s + sc_failed s + length B"
    and "frame (s\<lparr>sc_completed := sc_completed s', sc_failed := sc_failed s', wo_settled := wo_settled s @ settled\<rparr>) s'"
  shows "sched_inv (run_finally i s')" and "work (run_finally i s') \<le> other_work i s"
proof -
  let ?R = "map run_ids (wo_runs s)"
  have i: "i < length (wo_runs s)"
    using assms(1) by (simp add: open_inv_def)
  have "acct (sc_concurrency s) (wo_next s) (map fst (wo_settled s)) (?R[i := B]) (map q_id (sc_queue s))"
    using assms(1) by (simp add: open_inv_def)
  from acct_settle [OF this, of i]
  have acct: "acct (sc_concurrency s) (wo_next s) (map fst (wo_settled s) @ B)
      (map run_ids (take i (wo_runs s) @ drop (Suc i) (wo_runs s))) (map q_id (sc_queue s))"
    using i by (simp add: take_map drop_map)
  have wf: "list_all run_wf (take i (wo_runs s) @ drop (Suc i) (wo_runs s))"
    using assms(1) by (auto simp: open_inv_def list_all_length nth_append)
  let ?s = "s'\<lparr>wo_runs := take i (wo_runs s') @ drop (i + 1) (wo_runs s'), sc_active := sc_active s' - 1\<rparr>"
  have "core ?s"
    using assms acct wf i by (auto simp: core_def frame_def open_inv_def)
  then show "sched_inv (run_finally i s')"
    unfolding run_finally_def by (rule pump_inv)
  have "work (run_finally i s') \<le> work ?s"
    unfolding run_finally_def by (rule pump_work)
  also have "work ?s = other_work i s"
    using assms(4) by (simp add: work_def other_work_def frame_def)
  finally show "work (run_finally i s') \<le> other_work i s" .
qed

lemma run_fail_settles:
  assumes "open_inv i (map q_id items) s"
  shows "sched_inv (run_fail i items e s)" and "work (run_fail i items e s) \<le> other_work i s"
proof -
  let ?settled = "map (\<lambda>q. (q_id q, Inl e)) items"
  have "map fst ?settled = map q_id items"
    by simp
  from open_settle [OF assms this, of "reject_items items e s"]
  show "sched_inv (run_fail i items e s)" and "work (run_fail i items e s) \<le> other_work i s"
    by (simp_all add: run_fail_def reject_items_def frame_def)
qed

lemma resolve_outcomes_frame:
  "index + length outcomes \<le> length batch \<Longrightarrow>
   \<exists>settled. map fst settled = item_ids (take (length outcomes) (drop index batch))
     \<and> frame (s\<lparr>sc_completed := sc_completed s + length outcomes, wo_settled := wo_settled s @ settled\<rparr>)
         (resolve_outcomes a b batch meta index outcomes s)"
proof (induction outcomes arbitrary: index s)
  case Nil
  then show ?case by (simp add: frame_def item_ids_def)
next
  case (Cons o' outcomes)
  obtain r f where o': "o' = (r, f)"
    by (cases o')
  define s1 where "s1 = (let item = batch ! index;
          d = makeDiagnostics s (bi_queued item) a b batch meta index;
          decorated = attachUserMduKzgSchedulerDiagnostics r d;
          reason = kr_fallbackReason decorated;
          decorated' = (if f
             then decorated\<lparr>kr_fallbackReason :=
                    (if reason = None \<or> reason = Some [] then Some ''scheduler fallback used'' else reason)\<rparr>
             else decorated)
      in s\<lparr>sc_completed := sc_completed s + 1, sc_lastTotalMs := Some (dg_totalMs d), sc_lastError := None,
              wo_settled := wo_settled s @ [(q_id (bi_queued item), Inr decorated')]\<rparr>)"
  obtain settled where settled: "map fst settled = item_ids (take (length outcomes) (drop (index + 1) batch))"
    and fr: "frame (s1\<lparr>sc_completed := sc_completed s1 + length outcomes, wo_settled := wo_settled s1 @ settled\<rparr>)
         (resolve_outcomes a b batch meta (index + 1) outcomes s1)"
    using Cons.IH [of "index + 1" s1] Cons.prems by auto
  have step: "resolve_outcomes a b batch meta index (o' # outcomes) s = resolve_outcomes a b batch meta (index + 1) outcomes s1"
    by (simp add: o' s1_def Let_def)
  have d: "drop index batch = batch ! index # drop (index + 1) batch"
    using Cons.prems by (simp add: Cons_nth_drop_Suc)
  obtain x where "wo_settled s1 = wo_settled s @ [(q_id (bi_queued (batch ! index)), x)]"
    "sc_completed s1 = sc_completed s + 1" "frame s (s1\<lparr>wo_settled := wo_settled s, sc_completed := sc_completed s\<rparr>)"
    by (simp add: s1_def Let_def frame_def)
  then show ?case
    unfolding step using settled fr
    by (intro exI [of _ "(q_id (bi_queued (batch ! index)), x) # settled"])
      (simp add: d item_ids_def frame_def)
qed

lemma single_failed_frame:
  "single_failed meta item d e s = (r, s') \<Longrightarrow> frame s s'"
  "single_failed meta item d e s = (Inr call, s') \<Longrightarrow> call_items call = [item] \<and> \<not> is_BatchCall call \<and> call_work call = 1"
  by (auto simp: single_failed_def frame_def Let_def split: if_splits)

lemma commitBatchItems_frame:
  assumes "commitBatchItems items t meta s = (r, s')"
  shows "frame s s'"
proof -
  have "frame s (tick s)"
    by (simp add: frame_def tick_def)
  then show ?thesis
    using assms single_failed_frame(1) [of meta "hd items" _ abortError "tick s" r s']
    by (auto simp: commitBatchItems_def commitSingle_def frame_def Let_def split: if_splits)
qed

lemma commitBatchItems_call:
  assumes "commitBatchItems items t meta s = (Inr call, s')" "batchable items"
  shows "call_items call = items \<and> (is_BatchCall call \<longrightarrow> 2 \<le> length items) \<and> call_work call \<le> item_work items"
proof (cases "length items = 1")
  case True
  then obtain x where "items = [x]"
    by (auto simp: length_Suc_conv)
  then show ?thesis
    using assms(1) single_failed_frame(2) [of meta x _ abortError "tick s" call s']
    by (auto simp: commitBatchItems_def commitSingle_def item_work_def Let_def split: if_splits)
next
  case False
  then have "tk_commitBatch (q_task (bi_queued (hd items)))" "2 \<le> length items"
    using assms(2) by (cases items; auto simp: batchable_def Suc_le_eq)+
  then show ?thesis
    using assms(1) False by (auto simp: commitBatchItems_def)
qed

lemma run_continue_inv:
  assumes "open_inv i (item_ids batch) s" "batch \<noteq> []" "aligned batch outcomes pending"
  shows "sched_inv (run_continue i t batch meta outcomes pending s)"
    and "work (run_continue i t batch meta outcomes pending s) \<le> other_work i s + sum_list (map item_work pending)"
proof -
  let ?s' = "run_continue i t batch meta outcomes pending s"
  have "sched_inv ?s' \<and> work ?s' \<le> other_work i s + sum_list (map item_work pending)"
  proof (cases pending)
    case Nil
    then have len: "length outcomes = length batch"
      using assms(3) by (simp add: aligned_def)
    obtain settled where settled: "map fst settled = item_ids batch"
      and fr: "frame ((tick s)\<lparr>sc_completed := sc_completed s + length batch, wo_settled := wo_settled s @ settled\<rparr>)
         (resolve_outcomes t (clock s) batch meta 0 outcomes (tick s))"
      using resolve_outcomes_frame [of 0 outcomes batch "tick s" t "clock s" meta] by (auto simp: len tick_def)
    show ?thesis
      using open_settle [OF assms(1) settled, of "resolve_outcomes t (clock s) batch meta 0 outcomes (tick s)"] fr
      by (auto simp: run_continue_def Nil frame_def tick_def item_ids_def)
  next
    case (Cons items rest)
    obtain r s1 where c: "commitBatchItems items t meta s = (r, s1)"
      by fastforce
    have fr: "frame s s1"
      by (rule commitBatchItems_frame [OF c])
    have o1: "open_inv i (item_ids batch) s1" and w1: "other_work i s1 = other_work i s"
      using assms(1) fr by (simp_all add: frame_open frame_other_work)
    show ?thesis
    proof (cases r)
      case (Inl e)
      then show ?thesis
        using run_fail_settles [of i "map bi_queued batch" s1 e] o1 w1
        by (auto simp: run_continue_def Cons c item_ids_def comp_def)
    next
      case (Inr call)
      let ?r = "(wo_runs s1 ! i)\<lparr>rn_phase := WaitCommit batch meta outcomes call rest\<rparr>"
      have call: "call_items call = items \<and> (is_BatchCall call \<longrightarrow> 2 \<le> length items) \<and> call_work call \<le> item_work items"
        using commitBatchItems_call [of items t meta s call s1] c Inr assms(3) by (simp add: Cons aligned_def)
      have "sched_inv (s1\<lparr>wo_runs := (wo_runs s1)[i := ?r]\<rparr>)"
        using o1 assms(2,3) call by (intro open_close) (simp_all add: run_ids_def run_wf_def Cons)
      moreover have "work (s1\<lparr>wo_runs := (wo_runs s1)[i := ?r]\<rparr>) = other_work i s + run_work ?r"
        using o1 w1 by (subst work_update) (simp_all add: open_inv_def)
      ultimately show ?thesis
        using call by (simp add: run_continue_def Cons c Inr run_work_def)
    qed
  qed
  then show "sched_inv ?s'" and "work ?s' \<le> other_work i s + sum_list (map item_work pending)"
    by simp_all
qed

lemma collect_loop_batch:
  assumes "collect_loop s c batch plan qs = Inr (batch', plan')"
  shows "\<exists>k \<le> length qs. map bi_queued batch' = map bi_queued batch @ take k qs
           \<and> list_all (\<lambda>q. tk_commitBatch (q_task q)) (take k qs)"
  using assms
proof (induction qs arbitrary: batch plan)
  case Nil
  then show ?case by simp
next
  case (Cons q qs)
  show ?case
  proof (cases "map bi_queued batch' = map bi_queued batch")
    case True
    then show ?thesis by (intro exI [of _ 0]) simp
  next
    case False
    then have "batch' \<noteq> batch"
      by auto
    then obtain e p where q: "tk_commitBatch (q_task q)"
      and rec: "collect_loop s c (batch @ [\<lparr>bi_queued = q, bi_expansion = e\<rparr>]) p qs = Inr (batch', plan')"
      using Cons.prems by (auto simp: sbind_eq_Inr Let_def split: if_splits expansion_state.splits)
    show ?thesis
      using Cons.IH [OF rec] q by (elim exE, rule_tac x = "Suc k" in exI) simp
  qed
qed

lemma collectReadyBatch_batch:
  assumes "collectReadyBatch first e s = Inr (batch, plan)"
  shows "map bi_queued batch = first # take (length batch - 1) (sc_queue s)" and "batchable batch"
    and "length batch - 1 \<le> length (sc_queue s)"
proof -
  obtain k where k: "k \<le> length (sc_queue s)" and b: "map bi_queued batch = first # take k (sc_queue s)"
    and all: "0 < k \<longrightarrow> list_all (\<lambda>q. tk_commitBatch (q_task q)) (first # take k (sc_queue s))"
  proof (cases "sc_batchEnabled s \<and> tk_commitBatch (q_task first)")
    case True
    then show ?thesis
      using assms that
      by (auto simp: collectReadyBatch_def Let_def sbind_eq_Inr dest!: collect_loop_batch)
  next
    case False
    then show ?thesis
      using assms that [of 0] by (auto simp: collectReadyBatch_def Let_def sbind_eq_Inr)
  qed
  have len: "length batch = Suc k"
    using arg_cong [OF b, of length] k by simp
  then show "map bi_queued batch = first # take (length batch - 1) (sc_queue s)" and "length batch - 1 \<le> length (sc_queue s)"
    using b k by simp_all
  have "list_all (\<lambda>b. tk_commitBatch (q_task (bi_queued b))) batch" if "0 < k"
    using all that unfolding b [symmetric] by (simp add: list.pred_map comp_def)
  then show "batchable batch"
    using len by (auto simp: batchable_def)
qed

lemma aligned_start: "batchable batch \<Longrightarrow> aligned batch [] [batch]"
  by (simp add: aligned_def)

lemma aligned_done:
  "aligned batch outcomes (items # rest) \<Longrightarrow> length rs = length items \<Longrightarrow> aligned batch (outcomes @ rs) rest"
proof -
  assume a: "aligned batch outcomes (items # rest)" and l: "length rs = length items"
  have "items @ concat rest = drop (length outcomes) batch"
    using a by (simp add: aligned_def)
  then have "concat rest = drop (length items) (drop (length outcomes) batch)"
    and "length items \<le> length (drop (length outcomes) batch)"
    by (metis append_eq_conv_conj, metis length_append le_add1)
  then show ?thesis
    using a l by (auto simp: aligned_def add.commute)
qed

lemma batchable_split:
  assumes "batchable items" "0 < n" "n < length items"
  shows "batchable (take n items)" "batchable (drop n items)"
  using assms by (auto simp: batchable_def list_all_iff dest: in_set_takeD in_set_dropD)

lemma reduce_cap_frame: "frame s s1 \<Longrightarrow> frame s (reduceAdaptiveBatchCapAfterTimeout n sizes s1)"
  unfolding reduceAdaptiveBatchCapAfterTimeout_def Let_def by (simp add: frame_def)

lemma batch_failed_frame: "frame s (snd (batch_failed items e s))"
proof -
  have "frame s (s\<lparr>sc_batchSplitCount := a, sc_lastRetriedBatchSizes := b\<rparr>)"
    and "frame s (s\<lparr>sc_batchSplitCount := a, sc_lastRetriedBatchSizes := b, sc_batchTimeoutCount := c\<rparr>)" for a b c
    by (simp_all add: frame_def)
  then show ?thesis
    by (simp add: batch_failed_def Let_def reduce_cap_frame split: prod.split)
qed

lemma batch_failed_halves:
  assumes "batch_failed items e s = ((l, r), s')" "batchable items" "2 \<le> length items"
  shows "l @ r = items \<and> batchable l \<and> batchable r \<and> frame s s' \<and> item_work l + item_work r < item_work items"
proof -
  obtain a b where ab: "splitUserMduKzgBatch (length items) = (a, b)"
    by fastforce
  have lr: "l = take a items" "r = drop a items"
    using assms(1) by (auto simp: batch_failed_def ab Let_def)
  have "frame s s'"
    using batch_failed_frame [of s items e] by (simp add: assms(1))
  moreover have "0 < a" "a < length items"
    using split_parts(2) [OF ab assms(3)] by auto
  ultimately show ?thesis
    using batchable_split [OF assms(2)] by (auto simp: lr item_work_def)
qed

lemma expanded_step:
  assumes "sched_inv s" "i < length (wo_runs s)" "rn_phase (wo_runs s ! i) = WaitExpansion"
    and "wo_expansion s (q_id (rn_first (wo_runs s ! i))) \<noteq> Pending"
  shows "sched_inv (run_expanded i s)" and "work (run_expanded i s) < work s"
proof -
  let ?q = "rn_first (wo_runs s ! i)"
  have o1: "open_inv i (map q_id [?q]) s"
    using open_core [OF assms(1,2)] assms(3) by (simp add: run_ids_def)
  have w: "work s = other_work i s + 3"
    using work_split [OF assms(2)] assms(3) by (simp add: run_work_def)
  note fail = run_fail_settles [OF o1]
  have "sched_inv (run_expanded i s) \<and> work (run_expanded i s) < work s"
  proof (cases "\<exists>x. wo_expansion s (q_id ?q) = Fulfilled x \<and> \<not> aborted s ?q \<and> is_ok (collectReadyBatch ?q x s)")
    case False
    obtain e where e: "run_expanded i s = run_fail i [?q] e s"
    proof (cases "wo_expansion s (q_id ?q)")
      case (Fulfilled x)
      then show ?thesis
        using False that
        by (cases "aborted s ?q"; cases "collectReadyBatch ?q x s") (simp_all add: run_expanded_def)
    qed (use assms(4) that in \<open>simp_all add: run_expanded_def\<close>)
    show ?thesis
      using fail [of e] w by (simp add: e)
  next
    case True
    then obtain x batch plan where x: "wo_expansion s (q_id ?q) = Fulfilled x" "\<not> aborted s ?q"
      and c: "collectReadyBatch ?q x s = Inr (batch, plan)"
      by (auto simp: is_ok_iff)
    define k where "k = length batch - 1"
    define s1 where "s1 = s\<lparr>sc_queue := drop k (sc_queue s),
        sc_lastBatchSize := Some (length batch), sc_lastBatchBlobs := Some (bp_blobs plan),
        sc_lastBatchBytes := Some (bp_bytes plan), sc_lastBatchPlanReason := Some (bp_reason plan)\<rparr>"
    obtain meta where eq: "run_expanded i s = run_continue i (rn_startedAtMs (wo_runs s ! i)) batch meta [] [batch] s1"
      by (simp add: run_expanded_def Let_def x c s1_def k_def)
    note b = collectReadyBatch_batch [OF c, folded k_def]
    have ids: "item_ids batch = map q_id [?q] @ take k (map q_id (sc_queue s))"
      using arg_cong [OF b(1), of "map q_id"] by (simp add: item_ids_def comp_def take_map)
    have "acct (sc_concurrency s) (wo_next s) (map fst (wo_settled s))
        (((map run_ids (wo_runs s))[i := map q_id [?q]])[i := item_ids batch]) (drop k (map q_id (sc_queue s)))"
      using acct_collect [of "sc_concurrency s" "wo_next s" _ "(map run_ids (wo_runs s))[i := map q_id [?q]]" _ i k] o1
      by (simp add: open_inv_def ids)
    then have o2: "open_inv i (item_ids batch) s1"
      using o1 by (auto simp: open_inv_def s1_def drop_map)
    have "length batch = Suc k" "k \<le> length (sc_queue s)"
      using b by (auto simp: k_def batchable_def)
    then have "other_work i s1 + item_work batch < work s"
      unfolding w by (auto simp: other_work_def s1_def item_work_def)
    then show ?thesis
      using run_continue_inv [OF o2 _ aligned_start [OF b(2)], of "rn_startedAtMs (wo_runs s ! i)" meta] b(2)
      unfolding eq by (simp add: batchable_def)
  qed
  then show "sched_inv (run_expanded i s)" and "work (run_expanded i s) < work s"
    by simp_all
qed

lemma check_results_length: "check_results n reply = Inr rs \<Longrightarrow> length rs = n"
  by (auto simp: check_results_def Let_def sbind_eq_Inr split: if_splits)

lemma batch_reply_step:
  assumes "sched_inv s" "i < length (wo_runs s)"
    and "rn_phase (wo_runs s ! i) = WaitCommit batch meta outcomes (BatchCall items d) rest"
  shows "sched_inv (batch_reply i reply s)" and "work (batch_reply i reply s) < work s"
proof -
  have o1: "open_inv i (item_ids batch) s"
    using open_core [OF assms(1,2)] assms(3) by (simp add: run_ids_def)
  have wf: "batch \<noteq> []" "aligned batch outcomes (items # rest)" "2 \<le> length items"
    using assms by (auto simp: sched_inv_def core_def list_all_length run_wf_def split: run_phase.splits)
  then have items: "batchable items"
    by (simp add: aligned_def)
  have w: "work s = other_work i s + item_work items + sum_list (map item_work rest)"
    using work_split [OF assms(2)] assms(3) by (simp add: run_work_def)
  let ?t = "rn_startedAtMs (wo_runs s ! i)"
  have "sched_inv (batch_reply i reply s) \<and> work (batch_reply i reply s) < work s"
  proof (cases "check_results (length items) reply")
    case (Inr rs)
    have "length (map (\<lambda>r. (r, False)) rs) = length items"
      using check_results_length [OF Inr] by simp
    note c = run_continue_inv [OF o1 wf(1) aligned_done [OF wf(2) this], of ?t meta]
    have "0 < item_work items"
      using wf(3) by (simp add: item_work_def)
    then show ?thesis
      using c w by (simp add: batch_reply_def assms(3) Inr)
  next
    case (Inl e)
    obtain l r s1 where f: "batch_failed items e s = ((l, r), s1)"
      by (metis prod.exhaust)
    note h = batch_failed_halves [OF f items wf(3)]
    have "aligned batch outcomes (l # r # rest)"
      using wf(2) h by (auto simp: aligned_def)
    moreover have "open_inv i (item_ids batch) s1" "other_work i s1 = other_work i s"
      using o1 h frame_open frame_other_work by blast+
    ultimately show ?thesis
      using run_continue_inv [of i batch s1 outcomes "l # r # rest" ?t meta] wf(1) h w
      by (simp add: batch_reply_def assms(3) Inl f)
  qed
  then show "sched_inv (batch_reply i reply s)" and "work (batch_reply i reply s) < work s"
    by simp_all
qed

lemma item_reply_step:
  assumes "sched_inv s" "i < length (wo_runs s)"
    and "rn_phase (wo_runs s ! i) = WaitCommit batch meta outcomes call rest" "\<not> is_BatchCall call"
  shows "sched_inv (item_reply i reply s)" and "work (item_reply i reply s) < work s"
proof -
  have o1: "open_inv i (item_ids batch) s"
    using open_core [OF assms(1,2)] assms(3) by (simp add: run_ids_def)
  have wf: "batch \<noteq> []" "aligned batch outcomes (call_items call # rest)"
    using assms by (auto simp: sched_inv_def core_def list_all_length run_wf_def split: run_phase.splits)
  have one: "length (call_items call) = 1" and pos: "0 < call_work call"
    using assms(4) by (cases call; simp)+
  have w: "work s = other_work i s + call_work call + sum_list (map item_work rest)"
    using work_split [OF assms(2)] assms(3) by (simp add: run_work_def)
  let ?t = "rn_startedAtMs (wo_runs s ! i)"
  have ok: "sched_inv (run_continue i ?t batch meta (outcomes @ [x]) rest s)
      \<and> work (run_continue i ?t batch meta (outcomes @ [x]) rest s) < work s" for x
    using run_continue_inv [OF o1 wf(1) aligned_done [OF wf(2), of "[x]"], of ?t meta] one pos w by simp
  have fail: "sched_inv (run_fail i (map bi_queued batch) e s') \<and> work (run_fail i (map bi_queued batch) e s') < work s"
    if "frame s s'" for e s'
    using run_fail_settles [of i "map bi_queued batch" s' e] o1 pos w that
    by (simp add: frame_open frame_other_work item_ids_def comp_def)
  have "sched_inv (item_reply i reply s) \<and> work (item_reply i reply s) < work s"
  proof (cases call)
    case (BatchCall items d)
    then show ?thesis using assms(4) by simp
  next
    case (FallbackCall item reason d)
    have "frame s s"
      by (simp add: frame_def)
    then show ?thesis
      using ok fail by (cases reply) (simp_all add: item_reply_def assms(3) FallbackCall)
  next
    case (CommitCall item d)
    show ?thesis
    proof (cases reply)
      case (Inr r)
      then show ?thesis
        using ok by (simp add: item_reply_def assms(3) CommitCall)
    next
      case (Inl e)
      obtain r s1 where f: "single_failed meta item d e s = (r, s1)"
        by fastforce
      note fr = single_failed_frame(1) [OF f]
      show ?thesis
      proof (cases r)
        case (Inl e')
        then show ?thesis
          using fail [OF fr] f \<open>reply = Inl e\<close> by (simp add: item_reply_def assms(3) CommitCall)
      next
        case (Inr call')
        let ?r = "(wo_runs s1 ! i)\<lparr>rn_phase := WaitCommit batch meta outcomes call' rest\<rparr>"
        have call': "call_items call' = [item]" "\<not> is_BatchCall call'" "call_work call' = 1"
          using single_failed_frame(2) f Inr by blast+
        have o2: "open_inv i (item_ids batch) s1" "other_work i s1 = other_work i s"
          using o1 fr by (simp_all add: frame_open frame_other_work)
        have "sched_inv (s1\<lparr>wo_runs := (wo_runs s1)[i := ?r]\<rparr>)"
          using o2 wf call' CommitCall by (intro open_close) (simp_all add: run_ids_def run_wf_def)
        moreover have "work (s1\<lparr>wo_runs := (wo_runs s1)[i := ?r]\<rparr>) = other_work i s + run_work ?r"
          using o2 by (subst work_update) (simp_all add: open_inv_def)
        ultimately show ?thesis
          using call' w CommitCall f Inr \<open>reply = Inl e\<close>
          by (simp add: item_reply_def assms(3) run_work_def)
      qed
    qed
  qed
  then show "sched_inv (item_reply i reply s)" and "work (item_reply i reply s) < work s"
    by simp_all
qed


section \<open>Every execution\<close>

lemma owner_step_inv:
  assumes "owner_step s s'" "sched_inv s"
  shows "sched_inv s' \<and> work s' < work s"
  using assms by cases (auto dest: expanded_step batch_reply_step item_reply_step)

lemma env_step_inv:
  assumes "env_step s s'"
  shows "sched_inv s' = sched_inv s" and "work s' = work s"
  using assms
  by (cases; auto simp: sched_inv_def core_def work_def setAdaptiveBatchCap_def split: option.splits)+

lemma enqueue_inv:
  assumes "sched_inv s"
  shows "sched_inv (snd (enqueue task s))" and "work (snd (enqueue task s)) \<le> work s + 4"
proof -
  define item where "item = \<lparr>q_id = wo_next s, q_task = task, q_enqueuedAtMs = clock s,
                    q_depthAtEnqueue = length (sc_queue s), q_activeAtEnqueue = sc_active s\<rparr>"
  define s1 where "s1 = (tick s)\<lparr>sc_queue := sc_queue s @ [item], wo_next := wo_next s + 1,
                           wo_expansion := (wo_expansion s)(wo_next s := Pending)\<rparr>"
  have "sched_inv (snd (enqueue task s)) \<and> work (snd (enqueue task s)) \<le> work s + 4"
  proof (cases "fst (enqueue task s)")
    case (Inl e)
    then have "snd (enqueue task s) = s"
      by (auto simp: enqueue_def Let_def split: if_splits)
    then show ?thesis
      using assms by simp
  next
    case (Inr n)
    then have eq: "snd (enqueue task s) = pump s1"
      and room: "sc_active s + length (sc_queue s) < sc_maxQueueDepth s"
      by (auto simp: enqueue_def Let_def s1_def item_def split: if_splits)
    have "core s1"
      using assms room by (auto simp: sched_inv_def core_def s1_def tick_def item_def acct_enqueue)
    moreover have "work s1 = work s + 4"
      by (simp add: s1_def tick_def work_def)
    ultimately show ?thesis
      unfolding eq using pump_inv pump_work [of s1] by simp
  qed
  then show "sched_inv (snd (enqueue task s))" and "work (snd (enqueue task s)) \<le> work s + 4"
    by simp_all
qed

lemma new_scheduler_inv: "sched_inv (new_scheduler opts now)"
  by (simp add: sched_inv_def core_def new_scheduler_def acct_def)

lemma reachable_inv: "reachable opts now s \<Longrightarrow> sched_inv s"
  by (induction rule: reachable.induct)
    (auto simp: new_scheduler_inv enqueue_inv env_step_inv(1) dest: owner_step_inv elim!: sched_step.cases)

text \<open>The limits of the scheduler never change, and what has settled stays settled.\<close>

definition grows :: "'r sched_world \<Rightarrow> 'r sched_world \<Rightarrow> bool" where
  "grows s s' \<longleftrightarrow>
     sc_maxQueueDepth s' = sc_maxQueueDepth s \<and> sc_concurrency s' = sc_concurrency s
     \<and> wo_next s \<le> wo_next s' \<and> (\<exists>new. wo_settled s' = wo_settled s @ new)"

lemma grows_refl [simp]: "grows s s"
  by (simp add: grows_def)

lemma grows_trans [trans]: "grows s s' \<Longrightarrow> grows s' s'' \<Longrightarrow> grows s s''"
  by (auto simp: grows_def)

lemma frame_grows: "frame s s' \<Longrightarrow> grows s s'"
  by (simp add: frame_def grows_def)

lemma run_start_grows: "grows s (run_start q (s\<lparr>sc_queue := qs, sc_active := a\<rparr>))"
  by (simp add: run_start_def reject_items_def tick_def grows_def Let_def)

lemma pump_grows: "grows s (pump s)"
proof (induction s rule: pump.induct)
  case (1 s)
  then show ?case
    by (subst pump.simps) (auto intro: grows_trans [OF run_start_grows])
qed

lemma run_finally_grows: "grows s s' \<Longrightarrow> grows s (run_finally i s')"
  unfolding run_finally_def by (rule grows_trans [OF _ pump_grows]) (simp add: grows_def)

lemma run_fail_grows: "grows s s' \<Longrightarrow> grows s (run_fail i items e s')"
  unfolding run_fail_def by (rule run_finally_grows) (auto simp: reject_items_def grows_def)

lemma resolve_outcomes_grows: "grows s (resolve_outcomes a b batch meta index outcomes s)"
proof (induction outcomes arbitrary: index s)
  case (Cons x outcomes)
  show ?case
    by (cases x) (auto simp: Let_def intro!: grows_trans [OF _ Cons.IH], simp_all add: grows_def)
qed simp

lemma run_continue_grows: "grows s s' \<Longrightarrow> grows s (run_continue i t batch meta outcomes pending s')"
proof (rule grows_trans)
  show "grows s' (run_continue i t batch meta outcomes pending s')"
  proof (cases pending)
    case Nil
    have "grows s' (resolve_outcomes t (clock s') batch meta 0 outcomes (tick s'))"
      by (rule grows_trans [OF _ resolve_outcomes_grows]) (simp add: tick_def grows_def)
    then show ?thesis
      by (simp add: run_continue_def Nil run_finally_grows)
  next
    case (Cons items rest)
    obtain r s1 where c: "commitBatchItems items t meta s' = (r, s1)"
      by fastforce
    have "grows s' s1"
      by (rule frame_grows [OF commitBatchItems_frame [OF c]])
    then show ?thesis
      by (cases r) (simp_all add: run_continue_def Cons c run_fail_grows, simp add: grows_def)
  qed
qed

lemma owner_step_grows: "owner_step s s' \<Longrightarrow> grows s s'"
proof (induction rule: owner_step.induct)
  case (expanded i s)
  have "grows s (s\<lparr>sc_queue := q, sc_lastBatchSize := a, sc_lastBatchBlobs := b, sc_lastBatchBytes := c,
      sc_lastBatchPlanReason := d\<rparr>)" for q a b c d
    by (simp add: grows_def)
  then show ?case
    by (auto simp: run_expanded_def Let_def run_fail_grows run_continue_grows split: expansion_state.split sum.split prod.split)
next
  case (batch_replied i s batch meta outcomes items d rest reply)
  show ?case
  proof (cases "check_results (length items) reply")
    case (Inl e)
    obtain l r s1 where f: "batch_failed items e s = ((l, r), s1)"
      by (metis prod.exhaust)
    then show ?thesis
      using frame_grows [OF batch_failed_frame [of s items e]]
      by (simp add: batch_reply_def batch_replied Inl run_continue_grows)
  qed (simp add: batch_reply_def batch_replied run_continue_grows)
next
  case (item_replied i s batch meta outcomes call rest reply)
  have g: "grows s s1 \<and> grows s (s1\<lparr>wo_runs := rs\<rparr>)" if "single_failed meta item d e s = (r, s1)" for item d e r s1 rs
    using single_failed_frame(1) [OF that] by (simp add: frame_def grows_def)
  then show ?case
    using item_replied(3)
    by (cases call; cases reply)
      (auto simp: item_reply_def item_replied(2) run_fail_grows run_continue_grows split: sum.split prod.split)
qed

lemma sched_step_grows: "sched_step s s' \<Longrightarrow> grows s s'"
proof (induction rule: sched_step.induct)
  case (enqueues s task)
  have "grows s (pump ((tick s)\<lparr>sc_queue := q, wo_next := wo_next s + 1, wo_expansion := f\<rparr>))" for q f
    by (rule grows_trans [OF _ pump_grows]) (simp add: grows_def tick_def)
  then show ?case
    by (simp add: enqueue_def Let_def)
next
  case (environment s s')
  then show ?case
    by cases (auto simp: grows_def setAdaptiveBatchCap_def split: option.splits)
qed (rule owner_step_grows)

lemma reachable_config:
  assumes "reachable opts now s"
  shows "sc_maxQueueDepth s = positiveInteger (so_maxQueueDepth opts) 32"
    and "sc_concurrency s = positiveInteger (so_concurrency opts) 1"
proof -
  have "sc_maxQueueDepth s = positiveInteger (so_maxQueueDepth opts) 32
      \<and> sc_concurrency s = positiveInteger (so_concurrency opts) 1"
    using assms by induction (auto simp: new_scheduler_def grows_def dest: sched_step_grows)
  then show "sc_maxQueueDepth s = positiveInteger (so_maxQueueDepth opts) 32"
    and "sc_concurrency s = positiveInteger (so_concurrency opts) 1"
    by simp_all
qed

lemma distinct_fst_filter:
  "(n, v) \<in> set xs \<Longrightarrow> distinct (map fst xs) \<Longrightarrow> filter (\<lambda>p. fst p = n) xs = [(n, v)]"
proof (induction xs)
  case (Cons x xs)
  show ?case
  proof (cases "x = (n, v)")
    case True
    then have "filter (\<lambda>p. fst p = n) xs = []"
      using Cons.prems(2) by (force simp: filter_empty_conv)
    then show ?thesis
      using True by simp
  next
    case False
    then have m: "(n, v) \<in> set xs"
      using Cons.prems(1) by auto
    then have "fst x \<noteq> n"
      using Cons.prems(2) by (force simp: image_iff)
    then show ?thesis
      using Cons.IH [OF m] Cons.prems(2) by simp
  qed
qed simp

lemma inv_ids:
  assumes "sched_inv s"
  shows "distinct (map fst (wo_settled s) @ concat (map run_ids (wo_runs s)) @ map q_id (sc_queue s))"
    and "set (map fst (wo_settled s) @ concat (map run_ids (wo_runs s)) @ map q_id (sc_queue s)) = {0..<wo_next s}"
proof -
  let ?all = "map fst (wo_settled s) @ concat (map run_ids (wo_runs s)) @ map q_id (sc_queue s)"
  have "mset ?all = mset [0..<wo_next s]"
    using assms by (simp add: sched_inv_def core_def acct_def)
  then show "distinct ?all" and "set ?all = {0..<wo_next s}"
    by (metis mset_eq_imp_distinct_iff distinct_upt, metis mset_eq_setD set_upt)
qed


section \<open>Guarantees\<close>

text \<open>A scheduler with the default limits, and one task without callbacks for batches.\<close>

definition sample_options :: scheduler_options where
  "sample_options = \<lparr>so_maxQueueDepth = None, so_concurrency = None, so_enabled = None, so_batch = sample_constraints\<rparr>"

definition sample_task :: kzg_task where
  "sample_task = \<lparr>tk_sequence = num 0, tk_commitBatch = False, tk_fallback = False, tk_signal = None\<rparr>"

definition sample_new :: "unit sched_world" where
  "sample_new = new_scheduler sample_options (\<lambda>n. of_nat n)"

definition sample_enqueued :: "unit sched_world" where
  "sample_enqueued = snd (enqueue sample_task sample_new)"

definition sample_expanded :: "unit sched_world" where
  "sample_expanded = sample_enqueued\<lparr>wo_expansion := (wo_expansion sample_enqueued)(0 := Fulfilled (sample_expansion 1))\<rparr>"

definition sample_committing :: "unit sched_world" where
  "sample_committing = run_expanded 0 sample_expanded"

definition sample_item :: batch_item where
  "sample_item = \<lparr>bi_queued = \<lparr>q_id = 0, q_task = sample_task, q_enqueuedAtMs = 0, q_depthAtEnqueue = 0, q_activeAtEnqueue = 0\<rparr>,
     bi_expansion = sample_expansion 1\<rparr>"

lemmas sample_world_defs =
  sample_new_def sample_enqueued_def sample_expanded_def sample_committing_def sample_options_def sample_task_def
  new_scheduler_def enqueue_def clock_def tick_def run_start_def aborted_def positiveInteger_def Let_def

lemma sample_enqueued_facts:
  "wo_runs sample_enqueued = [\<lparr>rn_first = bi_queued sample_item, rn_startedAtMs = 1, rn_phase = WaitExpansion\<rparr>]"
  "sc_queue sample_enqueued = []" "sc_active sample_enqueued = 1" "wo_expansion sample_enqueued 0 = Pending"
  "wo_next sample_enqueued = 1" "wo_settled sample_enqueued = []" "wo_aborted sample_enqueued = []"
  "sc_batchEnabled sample_enqueued" "sc_adaptiveBatchCapMdus sample_enqueued = None" "sc_failed sample_enqueued = 0"
  "sc_batchConstraints sample_enqueued = normalizeUserMduKzgBatchConstraints sample_constraints"
  by (simp_all add: sample_world_defs sample_item_def pump.simps)

lemma sample_reachable:
  "reachable sample_options (\<lambda>n. of_nat n) sample_new"
  "reachable sample_options (\<lambda>n. of_nat n) sample_enqueued"
  "reachable sample_options (\<lambda>n. of_nat n) sample_expanded"
  "reachable sample_options (\<lambda>n. of_nat n) sample_committing"
proof -
  show 1: "reachable sample_options (\<lambda>n. of_nat n) sample_new"
    unfolding sample_new_def by (rule reachable.initial)
  show 2: "reachable sample_options (\<lambda>n. of_nat n) sample_enqueued"
    unfolding sample_enqueued_def by (rule reachable.steps [OF 1 sched_step.enqueues])
  show 3: "reachable sample_options (\<lambda>n. of_nat n) sample_expanded"
    unfolding sample_expanded_def
    by (rule reachable.steps [OF 2 sched_step.environment [OF env_step.settles]]) (simp_all add: sample_enqueued_facts)
  show "reachable sample_options (\<lambda>n. of_nat n) sample_committing"
    unfolding sample_committing_def
    by (rule reachable.steps [OF 3 sched_step.owner [OF owner_step.expanded]])
      (simp_all add: sample_expanded_def sample_enqueued_facts sample_item_def)
qed

lemma sample_committing_run:
  "\<exists>meta d. wo_runs sample_committing =
     [\<lparr>rn_first = bi_queued sample_item, rn_startedAtMs = 1, rn_phase = WaitCommit [sample_item] meta [] (CommitCall sample_item d) []\<rparr>]"
  by (simp add: sample_committing_def run_expanded_def sample_expanded_def sample_enqueued_facts collectReadyBatch_def
      effectiveBatchConstraints_def sample_normalized as_constraints_def planUserMduKzgBatch_def plan_normalized_def
      normalizeUserMduKzgBatchConstraints_def positiveInteger_def sample_describe make_plan_def Let_def
      estimateUserMduKzgBatchMemoryBytes_def KZG_COMMITMENT_SIZE_def run_continue_def commitBatchItems_def commitSingle_def
      aborted_def tick_def sample_item_def sample_task_def)

text \<open>
  Whatever the interleaving of enqueued tasks, settling expansions, aborts and replies, the
  scheduler keeps its bounds. The slots in use are exactly the runs in flight and at most the
  configured concurrency, slots in use and queued tasks together stay within the queue
  depth, and a task only waits in the queue while every slot is in use.
\<close>

theorem scheduler_bounds:
  assumes "reachable opts now s"
  shows "sc_active s = length (wo_runs s) \<and> sc_active s \<le> positiveInteger (so_concurrency opts) 1
    \<and> sc_active s + length (sc_queue s) \<le> positiveInteger (so_maxQueueDepth opts) 32
    \<and> (sc_queue s \<noteq> [] \<longrightarrow> sc_active s = positiveInteger (so_concurrency opts) 1)"
  using reachable_inv [OF assms] reachable_config [OF assms]
  by (auto simp: sched_inv_def core_def acct_def)

theorem scheduler_bounds_witness: "sc_active sample_committing = length (wo_runs sample_committing)"
  using scheduler_bounds [OF sample_reachable(4)] by simp

text \<open>
  C25: No promise is lost and none settles twice. The promises given out by \<open>enqueue\<close> are, without
  repetition, those settled, those held by a run in flight and those queued, and the
  counters of completed and failed tasks add up to the settled ones.
\<close>

theorem promises_accounted:
  assumes "reachable opts now s"
  shows "distinct (map fst (wo_settled s) @ concat (map run_ids (wo_runs s)) @ map q_id (sc_queue s))
    \<and> set (map fst (wo_settled s) @ concat (map run_ids (wo_runs s)) @ map q_id (sc_queue s)) = {0..<wo_next s}
    \<and> sc_completed s + sc_failed s = length (wo_settled s)"
  using inv_ids [OF reachable_inv [OF assms]] reachable_inv [OF assms] by (auto simp: sched_inv_def core_def)

theorem promises_accounted_witness:
  "set (concat (map run_ids (wo_runs sample_enqueued))) = {0..<1}"
  using promises_accounted [OF sample_reachable(2)] by (simp add: sample_enqueued_facts)

text \<open>
  The contract of a first-in first-out service: \<open>n\<close> promises given out, the first \<open>k\<close> settled.
\<close>

inductive fifo_step :: "nat \<times> nat \<Rightarrow> nat \<times> nat \<Rightarrow> bool" where
  accept: "fifo_step (n, k) (Suc n, k)"
| settle: "k < n \<Longrightarrow> fifo_step (n, k) (n, Suc k)"

definition fifo_abs :: "'r sched_world \<Rightarrow> nat \<times> nat" where
  "fifo_abs s = (wo_next s, length (wo_settled s))"

lemma fifo_steps:
  assumes "n \<le> n'" "k \<le> k'" "k' \<le> n'"
  shows "fifo_step\<^sup>*\<^sup>* (n, k) (n', k')"
proof -
  have "fifo_step\<^sup>*\<^sup>* (n, k) (n + a, k)" for a
    by (induction a) (auto intro: rtranclp.rtrancl_into_rtrancl accept)
  moreover have "k + b \<le> n' \<Longrightarrow> fifo_step\<^sup>*\<^sup>* (n', k) (n', k + b)" for b
    by (induction b) (auto intro: rtranclp.rtrancl_into_rtrancl settle simp: Suc_le_eq)
  ultimately have "fifo_step\<^sup>*\<^sup>* (n, k) (n', k)" "fifo_step\<^sup>*\<^sup>* (n', k) (n', k')"
    using assms by (metis le_add_diff_inverse)+
  then show ?thesis
    by simp
qed

text \<open>
  C27: With one slot the scheduler refines a first-in first-out service. Its promises settle in
  the order in which \<open>enqueue\<close> gave them out, batches and fallbacks included, and every
  step of the scheduler is a sequence of steps of that service: promises given out, and the
  oldest unsettled promise settled.
\<close>

theorem scheduler_refines_fifo:
  assumes "positiveInteger (so_concurrency opts) 1 = 1" and "reachable opts now s" and "sched_step s s'"
  shows "map fst (wo_settled s') = [0..<length (wo_settled s')] \<and> fifo_step\<^sup>*\<^sup>* (fifo_abs s) (fifo_abs s')"
proof -
  have r': "reachable opts now s'"
    using assms(2,3) by (rule reachable.steps)
  have all: "map fst (wo_settled s') @ concat (map run_ids (wo_runs s')) @ map q_id (sc_queue s') = [0..<wo_next s']"
    using reachable_inv [OF r'] reachable_config(2) [OF r'] assms(1) by (simp add: sched_inv_def core_def acct_def)
  have k: "length (wo_settled s') \<le> wo_next s'"
    using arg_cong [OF all, of length] by simp
  have "map fst (wo_settled s') = take (length (wo_settled s')) [0..<wo_next s']"
    using arg_cong [OF all, of "take (length (wo_settled s'))"] by simp
  then have "map fst (wo_settled s') = [0..<length (wo_settled s')]"
    using k by (simp add: take_upt)
  moreover have "fifo_step\<^sup>*\<^sup>* (fifo_abs s) (fifo_abs s')"
    using sched_step_grows [OF assms(3)] k by (auto simp: fifo_abs_def grows_def intro!: fifo_steps)
  ultimately show ?thesis ..
qed

theorem scheduler_refines_fifo_witness: "fifo_step\<^sup>*\<^sup>* (0, 0) (1, 0)"
proof -
  have "positiveInteger (so_concurrency sample_options) 1 = 1"
    by (simp add: sample_options_def positiveInteger_def)
  moreover have "sched_step sample_new sample_enqueued"
    unfolding sample_enqueued_def by (rule sched_step.enqueues)
  moreover have "fifo_abs sample_new = (0, 0)" "fifo_abs sample_enqueued = (1, 0)"
    by (simp_all add: fifo_abs_def sample_enqueued_facts) (simp_all add: sample_new_def new_scheduler_def)
  ultimately show ?thesis
    using scheduler_refines_fifo [OF _ sample_reachable(1)] by metis
qed

text \<open>
  \<open>n\<close> steps of runs, with any steps of the environment between them but no new task.
\<close>

inductive quiet_run :: "'r sched_world \<Rightarrow> nat \<Rightarrow> 'r sched_world \<Rightarrow> bool" where
  stop: "quiet_run s 0 s"
| env: "quiet_run s n s' \<Longrightarrow> env_step s' s'' \<Longrightarrow> quiet_run s n s''"
| own: "quiet_run s n s' \<Longrightarrow> owner_step s' s'' \<Longrightarrow> quiet_run s (Suc n) s''"

lemma quiet_run_work:
  assumes "quiet_run s n s'" "sched_inv s"
  shows "sched_inv s' \<and> n + work s' \<le> work s"
  using assms
proof (induction rule: quiet_run.induct)
  case (env s n s' s'')
  then show ?case
    using env_step_inv [of s' s''] by simp
next
  case (own s n s' s'')
  then show ?case
    using owner_step_inv [of s' s''] by auto
qed simp

lemma quiet_run_next: "quiet_run s n s' \<Longrightarrow> grows s s'"
  by (induction rule: quiet_run.induct)
    (auto intro: grows_trans dest: sched_step.environment sched_step.owner sched_step_grows)

lemma item_work_bound: "list_all batchable pending \<Longrightarrow> sum_list (map item_work pending) \<le> 3 * length (concat pending)"
  by (induction pending) (auto simp: item_work_def)

lemma run_work_bound:
  assumes "run_wf r"
  shows "run_work r \<le> 4 * length (run_ids r)"
proof (cases "rn_phase r")
  case WaitExpansion
  then show ?thesis by (simp add: run_work_def run_ids_def)
next
  case (WaitCommit batch meta outcomes call rest)
  have a: "aligned batch outcomes (call_items call # rest)"
    using assms by (simp add: run_wf_def WaitCommit)
  have "call_work call + sum_list (map item_work rest) \<le> 3 * length (concat (call_items call # rest))"
  proof -
    have "list_all batchable rest"
      using a by (simp add: aligned_def)
    from item_work_bound [OF this] show ?thesis
      by (cases call) (simp_all add: item_work_def)
  qed
  also have "\<dots> \<le> 3 * length batch"
    using a by (simp add: aligned_def)
  finally show ?thesis
    by (simp add: run_work_def run_ids_def WaitCommit item_ids_def)
qed

lemma work_bound:
  assumes "sched_inv s"
  shows "work s \<le> 4 * (wo_next s - length (wo_settled s))"
proof -
  have "mset (map fst (wo_settled s) @ concat (map run_ids (wo_runs s)) @ map q_id (sc_queue s)) = mset [0..<wo_next s]"
    using assms by (simp add: sched_inv_def core_def acct_def)
  from arg_cong [OF this, of size]
  have n: "wo_next s = length (wo_settled s) + sum_list (map (\<lambda>r. length (run_ids r)) (wo_runs s)) + length (sc_queue s)"
    by (simp add: length_concat comp_def del: mset_upt)
  have "sum_list (map run_work (wo_runs s)) \<le> sum_list (map (\<lambda>r. 4 * length (run_ids r)) (wo_runs s))"
    using assms run_work_bound by (intro sum_list_mono) (auto simp: sched_inv_def core_def list_all_iff)
  then show ?thesis
    by (simp add: work_def n sum_list_const_mult)
qed

lemma owner_stuck:
  assumes "\<And>s'. \<not> owner_step s s'" "\<forall>n < wo_next s. wo_expansion s n \<noteq> Pending" "sched_inv s" "0 < sc_concurrency s"
  shows "wo_runs s = [] \<and> sc_queue s = []"
proof -
  have "wo_runs s = []"
  proof (rule ccontr)
    assume ne: "wo_runs s \<noteq> []"
    let ?r = "wo_runs s ! 0"
    have 0: "0 < length (wo_runs s)"
      using ne by simp
    show False
    proof (cases "rn_phase ?r")
      case WaitExpansion
      have "q_id (rn_first ?r) \<in> set (concat (map run_ids (wo_runs s)))"
        using nth_mem [OF 0] WaitExpansion by (auto simp: run_ids_def intro!: bexI [of _ ?r])
      moreover note inv_ids(2) [OF assms(3)]
      ultimately have "q_id (rn_first ?r) < wo_next s"
        by (metis UnCI atLeastLessThan_iff set_append)
      then show False
        using owner_step.expanded [OF 0 WaitExpansion] assms(1,2) by blast
    next
      case (WaitCommit batch meta outcomes call rest)
      then show False
        using owner_step.batch_replied [OF 0] owner_step.item_replied [OF 0 WaitCommit] assms(1)
        by (cases call) auto
    qed
  qed
  then show ?thesis
    using assms(3,4) by (auto simp: sched_inv_def core_def)
qed

text \<open>
  C26: Every accepted task is settled. From any reachable state, at most \<open>work s\<close> replies can
  follow before a new task is enqueued, whatever the replies are and however aborts and
  expansions interleave with them; \<open>work s\<close> is at most four for each unsettled promise. When
  the expansions have settled and no run waits for a reply any more, all promises given out
  are settled.
\<close>

theorem scheduler_progress:
  assumes "reachable opts now s" and "quiet_run s n s'"
  shows "n \<le> work s \<and> work s \<le> 4 * (wo_next s - length (wo_settled s))
    \<and> ((\<forall>m < wo_next s'. wo_expansion s' m \<noteq> Pending) \<and> (\<forall>s''. \<not> owner_step s' s'') \<longrightarrow>
         set (map fst (wo_settled s')) = {0..<wo_next s'})"
proof -
  have inv: "sched_inv s"
    by (rule reachable_inv [OF assms(1)])
  note q = quiet_run_work [OF assms(2) inv]
  have "set (map fst (wo_settled s')) = {0..<wo_next s'}"
    if e: "\<forall>m < wo_next s'. wo_expansion s' m \<noteq> Pending" and st: "\<forall>s''. \<not> owner_step s' s''"
  proof -
    have "0 < sc_concurrency s'"
      using quiet_run_next [OF assms(2)] reachable_config(2) [OF assms(1)] by (simp add: grows_def)
    then have "wo_runs s' = [] \<and> sc_queue s' = []"
      using owner_stuck [of s'] e st q by blast
    then have "mset (map fst (wo_settled s')) = mset [0..<wo_next s']"
      using q by (simp add: sched_inv_def core_def acct_def)
    then show ?thesis
      by (metis mset_eq_setD set_upt)
  qed
  moreover have "n \<le> work s"
    using q by linarith
  ultimately show ?thesis
    using work_bound [OF inv] by blast
qed

lemma sample_progress:
  fixes e :: kzg_error
  defines "s1 \<equiv> sample_enqueued\<lparr>wo_expansion := (wo_expansion sample_enqueued)(0 := Rejected e)\<rparr>"
  shows "quiet_run sample_enqueued 1 (run_expanded 0 s1)"
    and "wo_runs (run_expanded 0 s1) = []" and "wo_next (run_expanded 0 s1) = 1"
    and "wo_expansion (run_expanded 0 s1) 0 \<noteq> Pending"
proof -
  have "env_step sample_enqueued s1"
    unfolding s1_def by (rule env_step.settles) (simp_all add: sample_enqueued_facts)
  then have "quiet_run sample_enqueued 0 s1"
    by (rule quiet_run.env [OF quiet_run.stop])
  moreover have "owner_step s1 (run_expanded 0 s1)"
    by (rule owner_step.expanded) (simp_all add: s1_def sample_enqueued_facts sample_item_def)
  ultimately show "quiet_run sample_enqueued 1 (run_expanded 0 s1)"
    using quiet_run.own by fastforce
  show "wo_runs (run_expanded 0 s1) = []" "wo_next (run_expanded 0 s1) = 1" "wo_expansion (run_expanded 0 s1) 0 \<noteq> Pending"
    by (simp_all add: s1_def run_expanded_def sample_enqueued_facts sample_item_def run_fail_def run_finally_def
        reject_items_def pump.simps)
qed

theorem scheduler_progress_witness:
  "set (map fst (wo_settled (run_expanded 0
     (sample_enqueued\<lparr>wo_expansion := (wo_expansion sample_enqueued)(0 := Rejected abortError)\<rparr>)))) = {0..<1}"
proof -
  note p = sample_progress [of abortError]
  let ?s = "run_expanded 0 (sample_enqueued\<lparr>wo_expansion := (wo_expansion sample_enqueued)(0 := Rejected abortError)\<rparr>)"
  have "\<forall>s''. \<not> owner_step ?s s''"
    using p(2) by (auto elim: owner_step.cases)
  then show ?thesis
    using scheduler_progress [OF sample_reachable(2) p(1)] p(3,4) by simp
qed

text \<open>
  A failure that nothing absorbs rejects a whole batch. When a run's \<open>commit\<close> call fails
  for an item without fallback, or its \<open>fallback\<close> call fails, every promise of the run's batch
  is settled with that error, once and with nothing else.
\<close>

theorem failed_call_rejects_batch:
  assumes "reachable opts now s" "i < length (wo_runs s)"
    and "rn_phase (wo_runs s ! i) = WaitCommit batch meta outcomes call rest"
    and "(\<exists>item d. call = CommitCall item d \<and> \<not> tk_fallback (q_task (bi_queued item)))
       \<or> (\<exists>item reason d. call = FallbackCall item reason d)"
  shows "\<forall>b \<in> set batch. filter (\<lambda>p. fst p = q_id (bi_queued b)) (wo_settled (item_reply i (Inl e) s))
      = [(q_id (bi_queued b), Inl e)]"
proof
  fix b
  assume b: "b \<in> set batch"
  let ?s = "item_reply i (Inl e) s" and ?n = "q_id (bi_queued b)"
  have eq: "?s = run_fail i (map bi_queued batch) e s"
    using assms(3,4) by (auto simp: item_reply_def single_failed_def)
  have "grows (reject_items (map bi_queued batch) e s) ?s"
    unfolding eq run_fail_def by (rule run_finally_grows) simp
  then have "(?n, Inl e) \<in> set (wo_settled ?s)"
    using b by (auto simp: grows_def reject_items_def image_iff)
  moreover have "distinct (map fst (wo_settled ?s))"
  proof -
    have "owner_step s ?s"
      using assms(2,3,4) by (intro owner_step.item_replied) auto
    then have "sched_inv ?s"
      using owner_step_inv reachable_inv [OF assms(1)] by blast
    then show ?thesis
      using inv_ids(1) [of ?s] by simp
  qed
  ultimately show "filter (\<lambda>p. fst p = ?n) (wo_settled ?s) = [(?n, Inl e)]"
    by (rule distinct_fst_filter)
qed

theorem failed_call_rejects_batch_witness:
  "\<exists>s :: unit sched_world. filter (\<lambda>p. fst p = 0) (wo_settled s) = [(0, Inl abortError)]"
proof -
  obtain meta d where r: "wo_runs sample_committing =
     [\<lparr>rn_first = bi_queued sample_item, rn_startedAtMs = 1, rn_phase = WaitCommit [sample_item] meta [] (CommitCall sample_item d) []\<rparr>]"
    using sample_committing_run by blast
  have "\<forall>b \<in> set [sample_item]. filter (\<lambda>p. fst p = q_id (bi_queued b)) (wo_settled (item_reply 0 (Inl abortError) sample_committing))
      = [(q_id (bi_queued b), Inl abortError)]"
    by (rule failed_call_rejects_batch [OF sample_reachable(4)])
      (auto simp: r sample_item_def sample_task_def)
  then show ?thesis
    by (auto simp: sample_item_def)
qed

end
