(* ===== verification/UploadPlan.thy ===== *)
theory UploadPlan
  imports Interfaces
begin

text \<open>
  Planning an upload: the layout of a file over user and witness MDUs
  (\<open>lib/upload/planner.ts\<close>), the parallelism of the upload engine
  (\<open>lib/upload/uploadParallelism.ts\<close>) and sparse artifacts, whose trailing zeros are not
  sent (\<open>lib/upload/sparseArtifacts.ts\<close>). The work estimate adds tenths exactly; the code
  adds them in floating point.
\<close>


section \<open>Layout of an upload\<close>

definition PLANNER_BLOBS_PER_MDU :: nat where
  "PLANNER_BLOBS_PER_MDU = 64"

definition PLANNER_BLOB_BYTES :: nat where
  "PLANNER_BLOB_BYTES = 128 * 1024"

definition PLANNER_SCALAR_PAYLOAD_BYTES :: nat where
  "PLANNER_SCALAR_PAYLOAD_BYTES = 31"

definition PLANNER_SCALAR_BYTES :: nat where
  "PLANNER_SCALAR_BYTES = 32"

definition PLANNER_TRIVIAL_BLOB_WEIGHT :: rat where
  "PLANNER_TRIVIAL_BLOB_WEIGHT = 1 / 10"

definition WITNESS_COMMITMENT_BYTES :: nat where
  "WITNESS_COMMITMENT_BYTES = 48"

record upload_planner_input =
  ui_fileBytes :: jsnum
  ui_rawMduCapacity :: jsnum
  ui_useMode2 :: bool
  ui_rsK :: "jsnum option"
  ui_rsM :: "jsnum option"
  ui_existingUserMdus :: "jsnum option"
  ui_existingMaxEnd :: "jsnum option"

record upload_shard_item =
  si_id :: nat
  si_commitments :: "string list"

record upload_planner_result =
  up_leafCount :: nat
  up_blobsPerMdu :: nat
  up_appendStartOffset :: nat
  up_newUserMdus :: nat
  up_totalUserMdus :: nat
  up_totalFileBytes :: nat
  up_totalMdus :: nat
  up_witnessBytesPerMdu :: nat
  up_witnessMduCount :: nat
  up_witnessPayloads :: "nat list"
  up_userPayloads :: "nat list"
  up_workTotal :: rat
  up_blobsTotal :: nat
  up_shardItems :: "upload_shard_item list"

definition asNonNegativeInteger :: "jsnum option \<Rightarrow> string \<Rightarrow> nat result" where
  "asNonNegativeInteger v label =
     (let safe = (case v of Some x \<Rightarrow> x | None \<Rightarrow> num 0) in
      if \<not> isFinite safe \<or> js_less safe 0 then Inl (label @ '' must be a non-negative finite number'')
      else Inr (nat (js_floor safe)))"

definition nonTrivialBlobsForPayload :: "nat \<Rightarrow> nat" where
  "nonTrivialBlobsForPayload payloadBytes =
     (if payloadBytes = 0 then 0
      else
        let scalarsUsed = ceil_div payloadBytes PLANNER_SCALAR_PAYLOAD_BYTES;
            encodedBytes = scalarsUsed * PLANNER_SCALAR_BYTES;
            blobsUsed = ceil_div encodedBytes PLANNER_BLOB_BYTES
        in min PLANNER_BLOBS_PER_MDU blobsUsed)"

definition weightedWorkForMdu :: "nat \<Rightarrow> rat" where
  "weightedWorkForMdu nonTrivialBlobs =
     (let bounded = min PLANNER_BLOBS_PER_MDU nonTrivialBlobs; trivial = PLANNER_BLOBS_PER_MDU - bounded
      in of_nat bounded + of_nat trivial * PLANNER_TRIVIAL_BLOB_WEIGHT)"

definition computeLeafCount :: "bool \<Rightarrow> jsnum option \<Rightarrow> jsnum option \<Rightarrow> nat result" where
  "computeLeafCount useMode2 rsK rsM =
     (if \<not> useMode2 then Inr PLANNER_BLOBS_PER_MDU
      else
        sbind (asNonNegativeInteger rsK ''rsK'') (\<lambda>safeK.
        sbind (asNonNegativeInteger rsM ''rsM'') (\<lambda>safeM.
          if safeK = 0 then Inl ''rsK must be positive when Mode 2 is enabled''
          else if PLANNER_BLOBS_PER_MDU mod safeK \<noteq> 0
          then Inl (''rsK must divide '' @ dec_string PLANNER_BLOBS_PER_MDU @ '' when Mode 2 is enabled'')
          else Inr ((safeK + safeM) * (PLANNER_BLOBS_PER_MDU div safeK)))))"

definition buildUploadShardItems :: "nat \<Rightarrow> nat \<Rightarrow> upload_shard_item list" where
  "buildUploadShardItems users witness =
     \<lparr>si_id = 0, si_commitments = [''MDU #0'']\<rparr>
     # map (\<lambda>i. \<lparr>si_id = 1 + i, si_commitments = [''Witness'']\<rparr>) [0..<witness]
     @ map (\<lambda>i. \<lparr>si_id = 1 + witness + i, si_commitments = [''User Data'']\<rparr>) [0..<users]"

text \<open>The loop over the witness MDUs, with the bytes that remain.\<close>

fun witness_loop :: "nat \<Rightarrow> nat \<Rightarrow> nat \<Rightarrow> nat list" where
  "witness_loop capacity remaining 0 = []"
| "witness_loop capacity remaining (Suc n) =
     (let t = min capacity remaining in t # witness_loop capacity (remaining - t) n)"

definition user_payload :: "nat \<Rightarrow> nat \<Rightarrow> nat \<Rightarrow> nat" where
  "user_payload capacity bound i = min (i * capacity + capacity) bound - i * capacity"

definition payload_work :: "nat list \<Rightarrow> rat" where
  "payload_work payloads = foldl (\<lambda>acc p. acc + weightedWorkForMdu (nonTrivialBlobsForPayload p)) 0 payloads"

definition buildUploadPlan :: "upload_planner_input \<Rightarrow> upload_planner_result result" where
  "buildUploadPlan input =
     sbind (asNonNegativeInteger (Some (ui_fileBytes input)) ''fileBytes'') (\<lambda>fileBytes.
     sbind (asNonNegativeInteger (Some (ui_rawMduCapacity input)) ''rawMduCapacity'') (\<lambda>rawMduCapacity.
     if rawMduCapacity = 0 then Inl ''rawMduCapacity must be positive''
     else
     sbind (asNonNegativeInteger (ui_existingUserMdus input) ''existingUserMdus'') (\<lambda>existingUserMdus.
     sbind (asNonNegativeInteger (ui_existingMaxEnd input) ''existingMaxEnd'') (\<lambda>existingMaxEnd.
     sbind (computeLeafCount (ui_useMode2 input) (ui_rsK input) (ui_rsM input)) (\<lambda>leafCount.
       let blobsPerMdu = (if ui_useMode2 input then leafCount else PLANNER_BLOBS_PER_MDU);
           appendStartOffset = existingUserMdus * rawMduCapacity;
           newUserMdus = ceil_div fileBytes rawMduCapacity;
           totalUserMdus = existingUserMdus + newUserMdus;
           totalFileBytes = appendStartOffset + fileBytes;
           witnessBytesPerMdu = leafCount * WITNESS_COMMITMENT_BYTES;
           witnessMduCount = max 1 (ceil_div (witnessBytesPerMdu * totalUserMdus) rawMduCapacity);
           witnessPayloads = witness_loop rawMduCapacity (totalUserMdus * witnessBytesPerMdu) witnessMduCount;
           userPayloads = map (user_payload rawMduCapacity existingMaxEnd) [0..<existingUserMdus]
                          @ map (user_payload rawMduCapacity fileBytes) [0..<newUserMdus];
           workTotal = weightedWorkForMdu 1 + payload_work witnessPayloads + payload_work userPayloads
       in Inr \<lparr>up_leafCount = leafCount, up_blobsPerMdu = blobsPerMdu, up_appendStartOffset = appendStartOffset,
               up_newUserMdus = newUserMdus, up_totalUserMdus = totalUserMdus, up_totalFileBytes = totalFileBytes,
               up_totalMdus = 1 + witnessMduCount + totalUserMdus, up_witnessBytesPerMdu = witnessBytesPerMdu,
               up_witnessMduCount = witnessMduCount, up_witnessPayloads = witnessPayloads,
               up_userPayloads = userPayloads, up_workTotal = workTotal,
               up_blobsTotal = (1 + witnessMduCount + totalUserMdus) * blobsPerMdu,
               up_shardItems = buildUploadShardItems totalUserMdus witnessMduCount\<rparr>)))))"


section \<open>Parallelism\<close>

record upload_parallelism =
  pl_direct :: nat
  pl_stripedMetadata :: nat
  pl_stripedShards :: nat

definition DEFAULT_UPLOAD_PARALLELISM :: upload_parallelism where
  "DEFAULT_UPLOAD_PARALLELISM = \<lparr>pl_direct = 4, pl_stripedMetadata = 6, pl_stripedShards = 6\<rparr>"

definition pickUploadParallelism :: "jsnum option \<Rightarrow> upload_parallelism" where
  "pickUploadParallelism hardwareConcurrency =
     (case hardwareConcurrency of
        None \<Rightarrow> DEFAULT_UPLOAD_PARALLELISM
      | Some n \<Rightarrow>
          if \<not> isFinite n then DEFAULT_UPLOAD_PARALLELISM
          else
            let hc = max 1 (js_floor n) in
            if hc \<ge> 12 then \<lparr>pl_direct = 6, pl_stripedMetadata = 8, pl_stripedShards = 8\<rparr>
            else if hc \<ge> 10 then \<lparr>pl_direct = 6, pl_stripedMetadata = 7, pl_stripedShards = 7\<rparr>
            else if hc \<ge> 8 then \<lparr>pl_direct = 5, pl_stripedMetadata = 7, pl_stripedShards = 7\<rparr>
            else if hc \<ge> 6 then DEFAULT_UPLOAD_PARALLELISM
            else if hc \<ge> 4 then \<lparr>pl_direct = 3, pl_stripedMetadata = 4, pl_stripedShards = 4\<rparr>
            else if hc \<ge> 3 then \<lparr>pl_direct = 2, pl_stripedMetadata = 3, pl_stripedShards = 3\<rparr>
            else \<lparr>pl_direct = 1, pl_stripedMetadata = 2, pl_stripedShards = 2\<rparr>)"


section \<open>Sparse artifacts\<close>

datatype artifact_kind = Mdu | Manifest | Shard

record sparse_artifact_input =
  ai_kind :: artifact_kind
  ai_bytes :: bytes
  ai_fullSize :: "jsnum option"
  ai_index :: "jsnum option"
  ai_slot :: "jsnum option"

record sparse_artifact =
  sa_kind :: artifact_kind
  sa_bytes :: bytes
  sa_fullSize :: nat
  sa_index :: "jsnum option"
  sa_slot :: "jsnum option"

record sparse_payload_plan =
  sp_fullSize :: nat
  sp_sendSize :: nat
  sp_sparse :: bool

definition is_integer_opt :: "jsnum option \<Rightarrow> bool" where
  "is_integer_opt v = (case v of Some n \<Rightarrow> isInteger n | None \<Rightarrow> False)"

definition validateArtifactIdentity :: "sparse_artifact_input \<Rightarrow> unit result" where
  "validateArtifactIdentity input =
     (if ai_kind input = Mdu \<and> \<not> is_integer_opt (ai_index input) then Inl ''MDU artifacts require an integer index''
      else if ai_kind input = Shard \<and> \<not> is_integer_opt (ai_index input)
      then Inl ''Shard artifacts require an integer index''
      else if ai_kind input = Shard \<and> \<not> is_integer_opt (ai_slot input)
      then Inl ''Shard artifacts require an integer slot''
      else Inr ())"

text \<open>The loop from the last byte down: the size up to the last non-zero byte, if there is one.\<close>

fun last_nonzero :: "bytes \<Rightarrow> nat \<Rightarrow> nat option" where
  "last_nonzero bytes 0 = None"
| "last_nonzero bytes (Suc i) = (if bytes ! i \<noteq> 0 then Some (i + 1) else last_nonzero bytes i)"

definition computeSparsePayloadPlan :: "bytes \<Rightarrow> jsnum \<Rightarrow> sparse_payload_plan result" where
  "computeSparsePayloadPlan bytes declaredFullSize =
     (let full = nat (js_floor declaredFullSize) in
      if \<not> isInteger declaredFullSize \<or> js_less declaredFullSize 0 then Inl ''fullSize must be a non-negative integer''
      else if length bytes > full
      then Inl (''artifact bytes exceed fullSize: '' @ dec_string (length bytes) @ '' > '' @ dec_string full)
      else if full = 0 then Inr \<lparr>sp_fullSize = 0, sp_sendSize = 0, sp_sparse = False\<rparr>
      else if length bytes = full \<and> length bytes > 0 \<and> bytes ! (length bytes - 1) \<noteq> 0
      then Inr \<lparr>sp_fullSize = full, sp_sendSize = full, sp_sparse = False\<rparr>
      else
        case last_nonzero bytes (length bytes) of
          Some sendSize \<Rightarrow> Inr \<lparr>sp_fullSize = full, sp_sendSize = sendSize, sp_sparse = sendSize < full\<rparr>
        | None \<Rightarrow> Inr \<lparr>sp_fullSize = full, sp_sendSize = 1, sp_sparse = (full > 1 \<or> length bytes \<noteq> 1)\<rparr>)"

text \<open>The bytes of a planned artifact that are sent.\<close>

definition sparse_body :: "sparse_payload_plan \<Rightarrow> bytes \<Rightarrow> bytes result" where
  "sparse_body plan bytes =
     (if sp_fullSize plan = 0 then Inr []
      else if sp_sendSize plan = length bytes then Inr bytes
      else if length bytes \<ge> sp_sendSize plan then Inr (subarray 0 (sp_sendSize plan) bytes)
      else if sp_sendSize plan = 1 \<and> bytes = [] then Inr [0]
      else Inl (''artifact bytes shorter than planned send size: '' @ dec_string (length bytes)
                @ '' < '' @ dec_string (sp_sendSize plan)))"

definition makeSparseArtifact :: "sparse_artifact_input \<Rightarrow> sparse_artifact result" where
  "makeSparseArtifact input =
     sbind (validateArtifactIdentity input) (\<lambda>_.
     sbind (computeSparsePayloadPlan (ai_bytes input)
              (case ai_fullSize input of Some n \<Rightarrow> n | None \<Rightarrow> num (length (ai_bytes input)))) (\<lambda>plan.
     sbind (sparse_body plan (ai_bytes input)) (\<lambda>bytes.
       Inr \<lparr>sa_kind = ai_kind input, sa_bytes = bytes, sa_fullSize = sp_fullSize plan,
            sa_index = ai_index input, sa_slot = ai_slot input\<rparr>)))"

definition expandSparseBytes :: "bytes \<Rightarrow> jsnum \<Rightarrow> bytes result" where
  "expandSparseBytes bytes fullSize =
     (let full = nat (js_floor fullSize) in
      if \<not> isInteger fullSize \<or> js_less fullSize 0 then Inl ''fullSize must be a non-negative integer''
      else if length bytes > full
      then Inl (''artifact bytes exceed fullSize: '' @ dec_string (length bytes) @ '' > '' @ dec_string full)
      else if length bytes = full then Inr bytes
      else Inr (bytes @ replicate (full - length bytes) 0))"


section \<open>Layout\<close>

lemma witness_loop_sum:
  "remaining \<le> n * capacity \<Longrightarrow> sum_list (witness_loop capacity remaining n) = remaining"
proof (induction n arbitrary: remaining)
  case (Suc n)
  then have "remaining - min capacity remaining \<le> n * capacity"
    by (auto simp: min_def)
  then show ?case
    using Suc.IH by (simp add: Let_def)
qed simp

lemma witness_loop_bound: "x \<in> set (witness_loop capacity remaining n) \<Longrightarrow> x \<le> capacity"
  by (induction n arbitrary: remaining) (auto simp: Let_def)

lemma length_witness_loop [simp]: "length (witness_loop capacity remaining n) = n"
  by (induction n arbitrary: remaining) (auto simp: Let_def)

lemma user_payload_bound: "user_payload capacity bound i \<le> capacity"
  by (simp add: user_payload_def)

lemma user_payload_sum: "sum_list (map (user_payload capacity bound) [0..<n]) = min (n * capacity) bound"
proof (induction n)
  case (Suc n)
  then show ?case
    by (auto simp: user_payload_def min_def)
qed simp

lemma planner_integer_num [simp]: "asNonNegativeInteger (Some (num n)) label = Inr n"
  by (simp add: asNonNegativeInteger_def)

lemma map_offset_upt: "map (\<lambda>i. c + i) [0..<n] = [c..<c + n]"
  by (induction n) auto

lemma shard_item_ids: "map si_id (buildUploadShardItems users witness) = [0..<1 + witness + users]"
proof -
  have "map si_id (buildUploadShardItems users witness)
      = [0..<1] @ map (\<lambda>i. 1 + i) [0..<witness] @ map (\<lambda>i. (1 + witness) + i) [0..<users]"
    by (simp add: buildUploadShardItems_def comp_def)
  also have "\<dots> = [0..<1] @ [1..<1 + witness] @ [1 + witness..<1 + witness + users]"
    by (simp only: map_offset_upt)
  also have "\<dots> = [0..<1 + witness + users]"
    by (metis append.assoc le_add1 upt_add_eq_append zero_le add_0)
  finally show ?thesis .
qed

text \<open>
  C36: The upload plan of a file holds every byte once. For whole-number sizes with a positive
  capacity, the payloads of the new user MDUs add up to the file, the witness payloads to one
  witness of \<open>leafCount\<close> commitments for each user MDU, no payload exceeds an MDU's
  capacity, there is one payload per planned MDU, the number of witness MDUs is the least
  positive number that can hold the witnesses, and the shard items number the MDUs from 0
  without a gap.
\<close>

theorem upload_plan_exact:
  assumes "buildUploadPlan \<lparr>ui_fileBytes = num file, ui_rawMduCapacity = num capacity, ui_useMode2 = mode2,
      ui_rsK = k, ui_rsM = m, ui_existingUserMdus = Some (num existing), ui_existingMaxEnd = Some (num maxEnd)\<rparr> = Inr p"
  shows "sum_list (drop existing (up_userPayloads p)) = file
    \<and> sum_list (up_witnessPayloads p) = up_totalUserMdus p * up_witnessBytesPerMdu p
    \<and> (\<forall>x \<in> set (up_userPayloads p @ up_witnessPayloads p). x \<le> capacity)
    \<and> length (up_userPayloads p) + length (up_witnessPayloads p) + 1 = up_totalMdus p
    \<and> (\<forall>n > 0. up_totalUserMdus p * up_witnessBytesPerMdu p \<le> n * capacity \<longleftrightarrow> up_witnessMduCount p \<le> n)
    \<and> map si_id (up_shardItems p) = [0..<up_totalMdus p]
    \<and> up_totalFileBytes p = existing * capacity + file"
proof -
  obtain leafCount where cap: "0 < capacity" and p: "p =
      (let new = ceil_div file capacity; users = existing + new; w = leafCount * WITNESS_COMMITMENT_BYTES;
           wn = max 1 (ceil_div (w * users) capacity); wp = witness_loop capacity (users * w) wn;
           up = map (user_payload capacity maxEnd) [0..<existing] @ map (user_payload capacity file) [0..<new];
           blobs = (if mode2 then leafCount else PLANNER_BLOBS_PER_MDU)
       in \<lparr>up_leafCount = leafCount, up_blobsPerMdu = blobs, up_appendStartOffset = existing * capacity,
               up_newUserMdus = new, up_totalUserMdus = users, up_totalFileBytes = existing * capacity + file,
               up_totalMdus = 1 + wn + users, up_witnessBytesPerMdu = w,
               up_witnessMduCount = wn, up_witnessPayloads = wp, up_userPayloads = up,
               up_workTotal = weightedWorkForMdu 1 + payload_work wp + payload_work up,
               up_blobsTotal = (1 + wn + users) * blobs,
               up_shardItems = buildUploadShardItems users wn\<rparr>)"
    using assms by (auto simp: buildUploadPlan_def sbind_eq_Inr Let_def)
  let ?new = "ceil_div file capacity"
  let ?users = "existing + ?new" and ?w = "leafCount * WITNESS_COMMITMENT_BYTES"
  let ?wn = "max 1 (ceil_div (?w * ?users) capacity)"
  have new: "file \<le> ?new * capacity"
    using cap by (rule ceil_div_covers)
  have wn: "?users * ?w \<le> n * capacity \<longleftrightarrow> ?wn \<le> n" if "0 < n" for n
    using ceil_div_le_iff [OF cap, of "?w * ?users" n] that by (auto simp: mult.commute)
  have "?users * ?w \<le> ?wn * capacity"
    using wn [of ?wn] by simp
  then have "sum_list (witness_loop capacity (?users * ?w) ?wn) = ?users * ?w"
    by (rule witness_loop_sum)
  moreover have "sum_list (map (user_payload capacity file) [0..<?new]) = file"
    using new by (simp add: user_payload_sum)
  ultimately show ?thesis
    unfolding p Let_def using wn user_payload_bound witness_loop_bound
    by (auto simp: shard_item_ids)
qed

theorem upload_plan_exact_witness:
  "\<exists>p. buildUploadPlan \<lparr>ui_fileBytes = num 100, ui_rawMduCapacity = num 40, ui_useMode2 = True,
      ui_rsK = Some (num 2), ui_rsM = Some (num 1), ui_existingUserMdus = Some (num 1), ui_existingMaxEnd = Some (num 7)\<rparr> = Inr p
     \<and> sum_list (drop 1 (up_userPayloads p)) = 100"
proof -
  let ?i = "\<lparr>ui_fileBytes = num 100, ui_rawMduCapacity = num 40, ui_useMode2 = True,
      ui_rsK = Some (num 2), ui_rsM = Some (num 1), ui_existingUserMdus = Some (num 1), ui_existingMaxEnd = Some (num 7)\<rparr>"
  have "is_ok (buildUploadPlan ?i)"
    by (simp add: buildUploadPlan_def computeLeafCount_def PLANNER_BLOBS_PER_MDU_def Let_def)
  then obtain p where "buildUploadPlan ?i = Inr p"
    by (auto simp: is_ok_iff)
  then show ?thesis
    using upload_plan_exact [of 100 40 True "Some (num 2)" "Some (num 1)" 1 7 p] by blast
qed


section \<open>Sparse round trip\<close>

lemma last_nonzero_Some:
  assumes "last_nonzero bytes n = Some k" "n \<le> length bytes"
  shows "0 < k \<and> k \<le> n \<and> bytes ! (k - 1) \<noteq> 0 \<and> drop k (take n bytes) = replicate (n - k) 0"
  using assms
proof (induction n)
  case (Suc n)
  show ?case
  proof (cases "bytes ! n = 0")
    case True
    then have k: "0 < k" "k \<le> n" "bytes ! (k - 1) \<noteq> 0" "drop k (take n bytes) = replicate (n - k) 0"
      using Suc by simp_all
    have "take (Suc n) bytes = take n bytes @ [0]"
      using True Suc.prems(2) by (simp add: take_Suc_conv_app_nth)
    then show ?thesis
      using k Suc.prems(2) by (simp add: Suc_diff_le replicate_append_same)
  next
    case False
    then show ?thesis
      using Suc.prems by auto
  qed
qed simp

lemma last_nonzero_None: "last_nonzero bytes n = None \<Longrightarrow> n \<le> length bytes \<Longrightarrow> take n bytes = replicate n 0"
proof (induction n)
  case (Suc n)
  then show ?case
    by (auto simp: take_Suc_conv_app_nth replicate_append_same split: if_splits)
qed simp

lemma take_then_zeros:
  "drop k bytes = replicate (length bytes - k) 0 \<Longrightarrow> take k bytes @ replicate (length bytes - k) 0 = bytes"
  by (metis append_take_drop_id)

text \<open>What an artifact's body and full size stand for: the bytes padded with zeros.\<close>

definition padded :: "bytes \<Rightarrow> nat \<Rightarrow> bytes" where
  "padded bytes full = bytes @ replicate (full - length bytes) 0"

lemma padded_take:
  assumes "drop k bytes = replicate (length bytes - k) 0" "k \<le> length bytes" "length bytes \<le> full"
  shows "padded (take k bytes) full = padded bytes full"
proof -
  have "replicate (full - k) 0 = replicate (length bytes - k) 0 @ replicate (full - length bytes) (0 :: byte)"
    using assms(2,3) by (simp flip: replicate_add)
  then show ?thesis
    using take_then_zeros [OF assms(1)] assms(2) by (simp add: padded_def flip: append_assoc)
qed

lemma sparse_plan_body:
  assumes "computeSparsePayloadPlan bytes (num full) = Inr plan"
  shows "length bytes \<le> full" "sp_fullSize plan = full"
    and "full = 0 \<longrightarrow> sp_sendSize plan = 0"
    and "0 < full \<longrightarrow> 0 < sp_sendSize plan \<and> sp_sendSize plan \<le> max 1 (length bytes)
           \<and> drop (sp_sendSize plan) bytes = replicate (length bytes - sp_sendSize plan) 0
           \<and> (sp_sendSize plan = 1 \<or> bytes ! (sp_sendSize plan - 1) \<noteq> 0)"
proof -
  show le: "length bytes \<le> full" and fs: "sp_fullSize plan = full" and "full = 0 \<longrightarrow> sp_sendSize plan = 0"
    using assms by (auto simp: computeSparsePayloadPlan_def Let_def split: if_splits option.splits)
  show "0 < full \<longrightarrow> 0 < sp_sendSize plan \<and> sp_sendSize plan \<le> max 1 (length bytes)
           \<and> drop (sp_sendSize plan) bytes = replicate (length bytes - sp_sendSize plan) 0
           \<and> (sp_sendSize plan = 1 \<or> bytes ! (sp_sendSize plan - 1) \<noteq> 0)"
  proof
    assume full: "0 < full"
    consider (whole) "sp_sendSize plan = full" "length bytes = full" "bytes ! (length bytes - 1) \<noteq> 0"
      | (some) "last_nonzero bytes (length bytes) = Some (sp_sendSize plan)"
      | (none) "last_nonzero bytes (length bytes) = None" "sp_sendSize plan = 1"
      using assms full le
      by (auto simp: computeSparsePayloadPlan_def Let_def split: if_splits option.splits)
    then show "0 < sp_sendSize plan \<and> sp_sendSize plan \<le> max 1 (length bytes)
           \<and> drop (sp_sendSize plan) bytes = replicate (length bytes - sp_sendSize plan) 0
           \<and> (sp_sendSize plan = 1 \<or> bytes ! (sp_sendSize plan - 1) \<noteq> 0)"
    proof cases
      case whole
      then show ?thesis using full by simp
    next
      case some
      then show ?thesis
        using last_nonzero_Some [of bytes "length bytes" "sp_sendSize plan"] by auto
    next
      case none
      have "bytes = replicate (length bytes) 0"
        using last_nonzero_None [OF none(1)] by simp
      then have "drop 1 bytes = replicate (length bytes - 1) 0"
        by (metis drop_replicate)
      then show ?thesis using none(2) by simp
    qed
  qed
qed

text \<open>
  C37: A sparse artifact loses nothing. Expanding its body to its full size gives the original
  bytes padded with zeros to the declared size; the body is never longer than the bytes
  (a single byte when they are all zero), and it has no trailing zero beyond one byte.
\<close>

theorem sparse_roundtrip:
  assumes "makeSparseArtifact \<lparr>ai_kind = kind, ai_bytes = bytes, ai_fullSize = Some (num full), ai_index = ix, ai_slot = sl\<rparr> = Inr a"
  shows "expandSparseBytes (sa_bytes a) (num (sa_fullSize a)) = Inr (padded bytes full)
    \<and> sa_fullSize a = full \<and> length (sa_bytes a) \<le> max 1 (length bytes)
    \<and> (1 < length (sa_bytes a) \<longrightarrow> last (sa_bytes a) \<noteq> 0)"
proof -
  obtain plan where plan: "computeSparsePayloadPlan bytes (num full) = Inr plan"
    and body: "sparse_body plan bytes = Inr (sa_bytes a)"
    and full: "sa_fullSize a = sp_fullSize plan"
    using assms by (auto simp: makeSparseArtifact_def sbind_eq_Inr)
  note b = sparse_plan_body [OF plan]
  have expand: "expandSparseBytes body (num full) = Inr (padded body full)" if "length body \<le> full" for body
    using that by (auto simp: expandSparseBytes_def padded_def)
  show ?thesis
  proof (cases "full = 0")
    case True
    then show ?thesis
      using b(1,2) body full by (simp add: sparse_body_def expandSparseBytes_def padded_def)
  next
    case False
    let ?k = "sp_sendSize plan"
    have k: "0 < ?k" "?k \<le> max 1 (length bytes)" "drop ?k bytes = replicate (length bytes - ?k) 0"
      "?k = 1 \<or> bytes ! (?k - 1) \<noteq> 0"
      using b(4) False by auto
    have a: "sa_bytes a = (if bytes = [] then [0] else take ?k bytes)"
      using body k(1,2) b(2) False by (auto simp: sparse_body_def subarray_def split: if_splits)
    have "padded (sa_bytes a) full = padded bytes full"
    proof (cases "bytes = []")
      case True
      then show ?thesis
        using False by (cases full) (simp_all add: a padded_def)
    next
      case False
      then show ?thesis
        using padded_take [OF k(3) _ b(1)] k(2) by (simp add: a Suc_le_eq)
    qed
    moreover have "length (sa_bytes a) \<le> full"
      using a b(1) False k(2) by (auto simp: Suc_le_eq)
    moreover have "last (sa_bytes a) \<noteq> 0" if "1 < length (sa_bytes a)"
    proof -
      have "bytes \<noteq> []" "?k \<noteq> 1" "?k \<le> length bytes"
        using that a k(2) by (auto split: if_splits)
      then show ?thesis
        using a k(1,4) by (simp add: last_conv_nth)
    qed
    ultimately show ?thesis
      using expand full b(2) a k(2) by (auto simp: Suc_le_eq)
  qed
qed

theorem sparse_roundtrip_witness:
  "\<exists>a. makeSparseArtifact \<lparr>ai_kind = Manifest, ai_bytes = [7, 0, 0], ai_fullSize = Some (num 4), ai_index = None, ai_slot = None\<rparr> = Inr a
     \<and> expandSparseBytes (sa_bytes a) (num (sa_fullSize a)) = Inr [7, 0, 0, 0]"
proof -
  have "makeSparseArtifact \<lparr>ai_kind = Manifest, ai_bytes = [7, 0, 0], ai_fullSize = Some (num 4), ai_index = None, ai_slot = None\<rparr>
      = Inr \<lparr>sa_kind = Manifest, sa_bytes = [7], sa_fullSize = 4, sa_index = None, sa_slot = None\<rparr>"
    by (simp add: makeSparseArtifact_def sparse_body_def validateArtifactIdentity_def computeSparsePayloadPlan_def Let_def
        subarray_def numeral_3_eq_3)
  from sparse_roundtrip [OF this] this show ?thesis
    by (auto simp: padded_def)
qed

end
