(* ===== verification/UploadEngine.thy ===== *)
theory UploadEngine
  imports UploadPlan
begin

text \<open>
  The upload engine (\<open>lib/upload/engine.ts\<close>): progress steps, the tasks of a direct, striped
  and striped-slot upload, and the two bounded runners, one request per artifact
  (\<open>runUploadTasks\<close>) and one request per target with a fallback to artifacts
  (\<open>runUploadTaskBundles\<close>). The runners are event-driven: a reply of the transport is an
  event, and the code it resumes runs up to the next reply. The callbacks \<open>onProgress\<close> and
  \<open>onTaskEvent\<close> are logs of what the runners call them with and are assumed not to throw; the
  progress calls made before a runner starts are left out. MDU indices and slots are natural
  numbers.
\<close>


section \<open>Inputs\<close>

record prepared_mdu =
  pm_index :: nat
  pm_data :: bytes
  pm_fullSize :: "jsnum option"

record prepared_shard =
  ps_data :: bytes
  ps_fullSize :: "jsnum option"

record prepared_shard_set =
  pss_index :: nat
  pss_shards :: "prepared_shard list"

record upload_target =
  ut_baseUrl :: string
  ut_mduPath :: string
  ut_manifestPath :: string
  ut_shardPath :: "string option"
  ut_bundlePath :: "string option"
  ut_label :: "string option"

text \<open>\<open>target.label || target.baseUrl\<close>\<close>

definition target_label :: "upload_target \<Rightarrow> string" where
  "target_label t =
     (case ut_label t of Some l \<Rightarrow> if l \<noteq> [] then l else ut_baseUrl t | None \<Rightarrow> ut_baseUrl t)"

datatype step_status = StepPending | StepUploading | StepComplete | StepError

record progress_step =
  gs_kind :: artifact_kind
  gs_label :: string
  gs_target :: string
  gs_index :: "nat option"
  gs_slot :: "nat option"
  gs_totalSteps :: nat
  gs_status :: step_status
  gs_error :: "string option"

datatype event_phase = PhaseStart | PhaseEnd | PhaseFallback

datatype transport_kind = ViaArtifact | ViaBundle

record task_event =
  te_phase :: event_phase
  te_kind :: artifact_kind
  te_target :: string
  te_index :: "jsnum option"
  te_slot :: "jsnum option"
  te_bytes :: nat
  te_fullSize :: "jsnum option"
  te_durationMs :: "rat option"
  te_ok :: "bool option"
  te_error :: "string option"
  te_transportKind :: transport_kind
  te_bundleId :: "string option"
  te_bundleArtifactCount :: "nat option"
  te_bundleBytes :: "nat option"
  te_fallbackArtifactCount :: "nat option"
  te_fallbackReason :: "string option"

record transport_stats =
  ts_artifactCount :: nat
  ts_perArtifactCount :: nat
  ts_bundledArtifactCount :: nat
  ts_bundleCount :: nat
  ts_requestCount :: nat
  ts_bytesSent :: nat
  ts_fallbackCount :: nat
  ts_fallbackReason :: "string option"
  ts_peakActiveUploads :: nat

record upload_request =
  rq_dealId :: string
  rq_manifestRoot :: string
  rq_previousManifestRoot :: "string option"
  rq_uploadGeneration :: "string option"
  rq_target :: upload_target
  rq_artifact :: sparse_artifact_input

record upload_result =
  re_ok :: bool
  re_steps :: "progress_step list"
  re_error :: "string option"
  re_stats :: "transport_stats option"

record upload_content =
  uc_dealId :: string
  uc_manifestRoot :: string
  uc_previousManifestRoot :: "string option"
  uc_manifestBlob :: "bytes option"
  uc_manifestBlobFullSize :: "jsnum option"

record direct_input = upload_content +
  di_mdus :: "prepared_mdu list"
  di_target :: upload_target

record striped_input = upload_content +
  sd_metadataMdus :: "prepared_mdu list"
  sd_shardSets :: "prepared_shard_set list option"
  sd_metadataTargets :: "upload_target list"
  sd_shardTargets :: "upload_target list option"

record striped_slot_input = upload_content +
  ss_metadataMdus :: "prepared_mdu list"
  ss_shardSets :: "prepared_shard_set list option"
  ss_slot :: nat
  ss_target :: upload_target


section \<open>Progress steps\<close>

text \<open>A patch of a step's status and error; \<open>{ status: 'complete' }\<close> keeps the error.\<close>

datatype step_patch = SetStatus step_status | SetStatusError step_status "string option"

definition apply_patch :: "step_patch \<Rightarrow> progress_step \<Rightarrow> progress_step" where
  "apply_patch patch step =
     (case patch of
        SetStatus st \<Rightarrow> step\<lparr>gs_status := st\<rparr>
      | SetStatusError st e \<Rightarrow> step\<lparr>gs_status := st, gs_error := e\<rparr>)"

definition updateStep :: "progress_step list \<Rightarrow> int \<Rightarrow> step_patch \<Rightarrow> progress_step list" where
  "updateStep steps stepIndex patch =
     (if stepIndex < 0 \<or> stepIndex \<ge> int (length steps) then steps
      else steps[nat stepIndex := apply_patch patch (steps ! nat stepIndex)])"

definition mdu_step :: "nat \<Rightarrow> string \<Rightarrow> prepared_mdu \<Rightarrow> progress_step" where
  "mdu_step totalSteps targetLabel mdu =
     \<lparr>gs_kind = Mdu, gs_label = ''MDU #'' @ dec_string (pm_index mdu), gs_target = targetLabel,
      gs_index = Some (pm_index mdu), gs_slot = None, gs_totalSteps = totalSteps, gs_status = StepPending, gs_error = None\<rparr>"

definition manifest_step :: "nat \<Rightarrow> string \<Rightarrow> progress_step" where
  "manifest_step totalSteps targetLabel =
     \<lparr>gs_kind = Manifest, gs_label = ''manifest.bin'', gs_target = targetLabel,
      gs_index = None, gs_slot = None, gs_totalSteps = totalSteps, gs_status = StepPending, gs_error = None\<rparr>"

definition shard_step :: "nat \<Rightarrow> string \<Rightarrow> nat \<Rightarrow> nat \<Rightarrow> progress_step" where
  "shard_step totalSteps targetLabel index slot =
     \<lparr>gs_kind = Shard, gs_label = ''Shard mdu='' @ dec_string index @ '' slot='' @ dec_string slot, gs_target = targetLabel,
      gs_index = Some index, gs_slot = Some slot, gs_totalSteps = totalSteps, gs_status = StepPending, gs_error = None\<rparr>"

definition buildDirectUploadSteps :: "direct_input \<Rightarrow> progress_step list" where
  "buildDirectUploadSteps input =
     (let totalSteps = length (di_mdus input) + 1; targetLabel = target_label (di_target input)
      in map (mdu_step totalSteps targetLabel) (di_mdus input) @ [manifest_step totalSteps targetLabel])"

text \<open>\<open>input.shardTargets?.[slot]\<close>\<close>

definition target_at :: "upload_target list option \<Rightarrow> nat \<Rightarrow> upload_target option" where
  "target_at targets slot =
     (case targets of None \<Rightarrow> None | Some ts \<Rightarrow> if slot < length ts then Some (ts ! slot) else None)"

definition shard_label :: "upload_target list option \<Rightarrow> nat \<Rightarrow> string" where
  "shard_label targets slot =
     (case target_at targets slot of
        Some t \<Rightarrow> if target_label t \<noteq> [] then target_label t else ''slot-'' @ dec_string slot
      | None \<Rightarrow> ''slot-'' @ dec_string slot)"

definition or_empty :: "'a list option \<Rightarrow> 'a list" where
  "or_empty xs = (case xs of None \<Rightarrow> [] | Some ys \<Rightarrow> ys)"

definition buildStripedUploadSteps :: "striped_input \<Rightarrow> progress_step list" where
  "buildStripedUploadSteps input =
     (let shardSets = or_empty (sd_shardSets input);
          totalSteps = length (sd_metadataTargets input) * (length (sd_metadataMdus input) + 1)
                       + sum_list (map (\<lambda>s. length (pss_shards s)) shardSets)
      in concat (map (\<lambda>target. map (mdu_step totalSteps (target_label target)) (sd_metadataMdus input)
                                @ [manifest_step totalSteps (target_label target)]) (sd_metadataTargets input))
         @ concat (map (\<lambda>s. map (\<lambda>slot. shard_step totalSteps (shard_label (sd_shardTargets input) slot) (pss_index s) slot)
                             [0..<length (pss_shards s)]) shardSets))"

definition buildStripedSlotUploadSteps :: "striped_slot_input \<Rightarrow> progress_step list" where
  "buildStripedSlotUploadSteps input =
     (let shardSets = or_empty (ss_shardSets input);
          totalSteps = length (ss_metadataMdus input) + 1 + length shardSets;
          targetLabel = target_label (ss_target input)
      in map (mdu_step totalSteps targetLabel) (ss_metadataMdus input) @ [manifest_step totalSteps targetLabel]
         @ map (\<lambda>s. shard_step totalSteps targetLabel (pss_index s) (ss_slot input)) shardSets)"

definition kind_string :: "artifact_kind \<Rightarrow> string" where
  "kind_string k = (case k of Mdu \<Rightarrow> ''mdu'' | Manifest \<Rightarrow> ''manifest'' | Shard \<Rightarrow> ''shard'')"

definition stepKey :: "artifact_kind \<Rightarrow> string \<Rightarrow> nat option \<Rightarrow> nat option \<Rightarrow> string" where
  "stepKey kind target index slot =
     kind_string kind @ ''|'' @ target @ ''|'' @ (case index of Some i \<Rightarrow> dec_string i | None \<Rightarrow> [])
     @ ''|'' @ (case slot of Some i \<Rightarrow> dec_string i | None \<Rightarrow> [])"

text \<open>The map from step keys to indices: a later step with the same key wins.\<close>

fun index_steps_from :: "nat \<Rightarrow> progress_step list \<Rightarrow> (string \<rightharpoonup> nat) \<Rightarrow> (string \<rightharpoonup> nat)" where
  "index_steps_from i [] m = m"
| "index_steps_from i (st # steps) m =
     index_steps_from (i + 1) steps (m(stepKey (gs_kind st) (gs_target st) (gs_index st) (gs_slot st) \<mapsto> i))"

definition indexUploadSteps :: "progress_step list \<Rightarrow> (string \<rightharpoonup> nat)" where
  "indexUploadSteps steps = index_steps_from 0 steps Map.empty"

definition resolveStepIndex ::
  "bool \<Rightarrow> progress_step list \<Rightarrow> artifact_kind \<Rightarrow> string \<Rightarrow> nat option \<Rightarrow> nat option \<Rightarrow> int" where
  "resolveStepIndex trackSteps steps kind target index slot =
     (if trackSteps then
        (case indexUploadSteps steps (stepKey kind target index slot) of Some i \<Rightarrow> int i | None \<Rightarrow> - 1)
      else - 1)"


section \<open>Tasks\<close>

record upload_task =
  ta_stepIndex :: int
  ta_request :: upload_request

record task_bundle =
  tb_target :: string
  tb_tasks :: "upload_task list"

definition artifactPayloadBytes :: "upload_task \<Rightarrow> nat" where
  "artifactPayloadBytes task = length (ai_bytes (rq_artifact (ta_request task)))"

definition bundlePayloadBytes :: "task_bundle \<Rightarrow> nat" where
  "bundlePayloadBytes b = sum_list (map artifactPayloadBytes (tb_tasks b))"

definition createUploadTransportStats :: transport_stats where
  "createUploadTransportStats =
     \<lparr>ts_artifactCount = 0, ts_perArtifactCount = 0, ts_bundledArtifactCount = 0, ts_bundleCount = 0,
      ts_requestCount = 0, ts_bytesSent = 0, ts_fallbackCount = 0, ts_fallbackReason = None, ts_peakActiveUploads = 0\<rparr>"

text \<open>A string that may be missing is truthy when it is there and not empty.\<close>

definition truthy :: "string option \<Rightarrow> bool" where
  "truthy s \<longleftrightarrow> s \<noteq> None \<and> s \<noteq> Some []"

definition merge_stats :: "transport_stats \<Rightarrow> transport_stats \<Rightarrow> transport_stats" where
  "merge_stats merged st =
     \<lparr>ts_artifactCount = ts_artifactCount merged + ts_artifactCount st,
      ts_perArtifactCount = ts_perArtifactCount merged + ts_perArtifactCount st,
      ts_bundledArtifactCount = ts_bundledArtifactCount merged + ts_bundledArtifactCount st,
      ts_bundleCount = ts_bundleCount merged + ts_bundleCount st,
      ts_requestCount = ts_requestCount merged + ts_requestCount st,
      ts_bytesSent = ts_bytesSent merged + ts_bytesSent st,
      ts_fallbackCount = ts_fallbackCount merged + ts_fallbackCount st,
      ts_fallbackReason = (if \<not> truthy (ts_fallbackReason merged) \<and> truthy (ts_fallbackReason st)
                           then ts_fallbackReason st else ts_fallbackReason merged),
      ts_peakActiveUploads = max (ts_peakActiveUploads merged) (ts_peakActiveUploads st)\<rparr>"

definition mergeUploadTransportStats :: "transport_stats option list \<Rightarrow> transport_stats option" where
  "mergeUploadTransportStats statsList =
     (let filtered = concat (map (\<lambda>s. case s of None \<Rightarrow> [] | Some x \<Rightarrow> [x]) statsList) in
      if filtered = [] then None else Some (foldl merge_stats createUploadTransportStats filtered))"

definition normalizeConcurrency :: "jsnum option \<Rightarrow> nat \<Rightarrow> nat" where
  "normalizeConcurrency v fallback =
     (case v of
        None \<Rightarrow> fallback
      | Some n \<Rightarrow> if \<not> isFinite n \<or> js_le n 0 then fallback else nat (max 1 (js_floor n)))"

definition content_request :: "('a) upload_content_scheme \<Rightarrow> upload_target \<Rightarrow> sparse_artifact_input \<Rightarrow> upload_request" where
  "content_request input target artifact =
     \<lparr>rq_dealId = uc_dealId input, rq_manifestRoot = uc_manifestRoot input,
      rq_previousManifestRoot = uc_previousManifestRoot input, rq_uploadGeneration = None,
      rq_target = target, rq_artifact = artifact\<rparr>"

definition mdu_artifact :: "prepared_mdu \<Rightarrow> sparse_artifact_input" where
  "mdu_artifact mdu =
     \<lparr>ai_kind = Mdu, ai_bytes = pm_data mdu, ai_fullSize = pm_fullSize mdu, ai_index = Some (num (pm_index mdu)), ai_slot = None\<rparr>"

definition manifest_artifact :: "bytes \<Rightarrow> jsnum option \<Rightarrow> sparse_artifact_input" where
  "manifest_artifact blob full =
     \<lparr>ai_kind = Manifest, ai_bytes = blob, ai_fullSize = full, ai_index = None, ai_slot = None\<rparr>"

definition shard_artifact :: "nat \<Rightarrow> nat \<Rightarrow> prepared_shard \<Rightarrow> sparse_artifact_input" where
  "shard_artifact index slot shard =
     \<lparr>ai_kind = Shard, ai_bytes = ps_data shard, ai_fullSize = ps_fullSize shard,
      ai_index = Some (num index), ai_slot = Some (num slot)\<rparr>"

text \<open>The manifest blob, unless it is missing or empty.\<close>

definition manifest_blob :: "('a) upload_content_scheme \<Rightarrow> bytes option" where
  "manifest_blob input = (case uc_manifestBlob input of None \<Rightarrow> None | Some b \<Rightarrow> if b = [] then None else Some b)"

definition MANIFEST_MISSING :: string where
  "MANIFEST_MISSING = ''manifest blob missing (re-shard to regenerate)''"

definition failed_before_start :: "progress_step list \<Rightarrow> string \<Rightarrow> upload_result" where
  "failed_before_start steps message = \<lparr>re_ok = False, re_steps = steps, re_error = Some message, re_stats = None\<rparr>"

definition mdu_task :: "bool \<Rightarrow> progress_step list \<Rightarrow> ('a) upload_content_scheme \<Rightarrow> upload_target \<Rightarrow> prepared_mdu \<Rightarrow> upload_task" where
  "mdu_task track steps input target mdu =
     \<lparr>ta_stepIndex = resolveStepIndex track steps Mdu (target_label target) (Some (pm_index mdu)) None,
      ta_request = content_request input target (mdu_artifact mdu)\<rparr>"

definition manifest_task :: "bool \<Rightarrow> progress_step list \<Rightarrow> ('a) upload_content_scheme \<Rightarrow> upload_target \<Rightarrow> bytes \<Rightarrow> upload_task" where
  "manifest_task track steps input target blob =
     \<lparr>ta_stepIndex = resolveStepIndex track steps Manifest (target_label target) None None,
      ta_request = content_request input target (manifest_artifact blob (uc_manifestBlobFullSize input))\<rparr>"

definition shard_task ::
  "bool \<Rightarrow> progress_step list \<Rightarrow> ('a) upload_content_scheme \<Rightarrow> upload_target \<Rightarrow> nat \<Rightarrow> nat \<Rightarrow> prepared_shard \<Rightarrow> upload_task" where
  "shard_task track steps input target index slot shard =
     \<lparr>ta_stepIndex = resolveStepIndex track steps Shard (target_label target) (Some index) (Some slot),
      ta_request = content_request input target (shard_artifact index slot shard)\<rparr>"

text \<open>
  The preparation of a direct upload: the failed result, or the steps and the tasks. With
  \<open>track\<close> (an \<open>onProgress\<close> callback) there are steps, otherwise none.
\<close>

definition direct_tasks :: "bool \<Rightarrow> direct_input \<Rightarrow> upload_result + (progress_step list \<times> upload_task list)" where
  "direct_tasks track input =
     (let steps = (if track then buildDirectUploadSteps input else []);
          targetLabel = target_label (di_target input)
      in case manifest_blob input of
           None \<Rightarrow>
             Inl (failed_before_start
               (updateStep steps (resolveStepIndex track steps Manifest targetLabel None None)
                  (SetStatusError StepError (Some MANIFEST_MISSING))) MANIFEST_MISSING)
         | Some blob \<Rightarrow>
             Inr (steps, map (mdu_task track steps input (di_target input)) (di_mdus input)
                         @ [manifest_task track steps input (di_target input) blob]))"

text \<open>The shards of one shard set, slot by slot: the slot without a target, or the tasks.\<close>

fun shard_tasks ::
  "bool \<Rightarrow> progress_step list \<Rightarrow> striped_input \<Rightarrow> nat \<Rightarrow> nat \<Rightarrow> prepared_shard list \<Rightarrow> nat + upload_task list" where
  "shard_tasks track steps input index slot [] = Inr []"
| "shard_tasks track steps input index slot (shard # shards) =
     (case target_at (sd_shardTargets input) slot of
        None \<Rightarrow> Inl slot
      | Some target \<Rightarrow>
          sbind (shard_tasks track steps input index (slot + 1) shards) (\<lambda>rest.
            Inr (shard_task track steps input target index slot shard # rest)))"

text \<open>The loop over the rounds: one metadata MDU (or the manifest) and one shard set each.\<close>

fun striped_rounds ::
  "bool \<Rightarrow> progress_step list \<Rightarrow> striped_input \<Rightarrow> bytes \<Rightarrow> nat list \<Rightarrow> (nat \<times> nat) + upload_task list" where
  "striped_rounds track steps input blob [] = Inr []"
| "striped_rounds track steps input blob (i # rounds) =
     (let metadata =
            (if i < length (sd_metadataMdus input)
             then map (\<lambda>target. mdu_task track steps input target (sd_metadataMdus input ! i)) (sd_metadataTargets input)
             else if i = length (sd_metadataMdus input)
             then map (\<lambda>target. manifest_task track steps input target blob) (sd_metadataTargets input)
             else []);
          sets = or_empty (sd_shardSets input);
          shards = (if i < length sets
                    then (case shard_tasks track steps input (pss_index (sets ! i)) 0 (pss_shards (sets ! i)) of
                            Inl slot \<Rightarrow> Inl (pss_index (sets ! i), slot) | Inr ts \<Rightarrow> Inr ts)
                    else Inr [])
      in sbind shards (\<lambda>ts. sbind (striped_rounds track steps input blob rounds) (\<lambda>rest. Inr (metadata @ ts @ rest))))"

definition striped_tasks :: "bool \<Rightarrow> striped_input \<Rightarrow> upload_result + (progress_step list \<times> upload_task list)" where
  "striped_tasks track input =
     (let steps = (if track then buildStripedUploadSteps input else []);
          rounds = max (length (sd_metadataMdus input) + 1) (length (or_empty (sd_shardSets input)))
      in case manifest_blob input of
           None \<Rightarrow>
             Inl (failed_before_start
               (foldl (\<lambda>st target. updateStep st (resolveStepIndex track steps Manifest (target_label target) None None)
                          (SetStatusError StepError (Some MANIFEST_MISSING))) steps (sd_metadataTargets input))
               MANIFEST_MISSING)
         | Some blob \<Rightarrow>
             (case striped_rounds track steps input blob [0..<rounds] of
                Inl (index, slot) \<Rightarrow>
                  let message = ''missing upload target for slot '' @ dec_string slot in
                  Inl (failed_before_start
                    (updateStep steps (resolveStepIndex track steps Shard (''slot-'' @ dec_string slot) (Some index) (Some slot))
                       (SetStatusError StepError (Some message))) message)
              | Inr tasks \<Rightarrow> Inr (steps, tasks)))"

fun slot_shard_tasks ::
  "bool \<Rightarrow> progress_step list \<Rightarrow> striped_slot_input \<Rightarrow> prepared_shard_set list \<Rightarrow> nat + upload_task list" where
  "slot_shard_tasks track steps input [] = Inr []"
| "slot_shard_tasks track steps input (s # sets) =
     (if ss_slot input < length (pss_shards s)
      then sbind (slot_shard_tasks track steps input sets) (\<lambda>rest.
             Inr (shard_task track steps input (ss_target input) (pss_index s) (ss_slot input)
                    (pss_shards s ! ss_slot input) # rest))
      else Inl (pss_index s))"

definition striped_slot_tasks ::
  "bool \<Rightarrow> striped_slot_input \<Rightarrow> upload_result + (progress_step list \<times> upload_task list)" where
  "striped_slot_tasks track input =
     (let steps = (if track then buildStripedSlotUploadSteps input else []);
          targetLabel = target_label (ss_target input)
      in case manifest_blob input of
           None \<Rightarrow>
             Inl (failed_before_start
               (updateStep steps (resolveStepIndex track steps Manifest targetLabel None None)
                  (SetStatusError StepError (Some MANIFEST_MISSING))) MANIFEST_MISSING)
         | Some blob \<Rightarrow>
             (case slot_shard_tasks track steps input (or_empty (ss_shardSets input)) of
                Inl index \<Rightarrow>
                  let message = ''missing shard for slot '' @ dec_string (ss_slot input) in
                  Inl (failed_before_start
                    (updateStep steps (resolveStepIndex track steps Shard targetLabel (Some index) (Some (ss_slot input)))
                       (SetStatusError StepError (Some message))) message)
              | Inr shards \<Rightarrow>
                  Inr (steps, map (mdu_task track steps input (ss_target input)) (ss_metadataMdus input)
                              @ manifest_task track steps input (ss_target input) blob # shards)))"

text \<open>Bundles by target, in the order in which targets first occur.\<close>

definition task_label :: "upload_task \<Rightarrow> string" where
  "task_label task = target_label (rq_target (ta_request task))"

fun add_to_bundles :: "upload_task \<Rightarrow> task_bundle list \<Rightarrow> task_bundle list" where
  "add_to_bundles task [] = [\<lparr>tb_target = task_label task, tb_tasks = [task]\<rparr>]"
| "add_to_bundles task (b # bs) =
     (if tb_target b = task_label task then b\<lparr>tb_tasks := tb_tasks b @ [task]\<rparr> # bs
      else b # add_to_bundles task bs)"

definition groupUploadTasksByTarget :: "upload_task list \<Rightarrow> task_bundle list" where
  "groupUploadTasksByTarget tasks = foldl (\<lambda>bs task. add_to_bundles task bs) [] tasks"


section \<open>Bounded runners\<close>

text \<open>
  The variables both runners share, with the requests in flight (of type \<open>'f\<close>). Besides the
  code's variables the state logs the calls of the callbacks, the tasks the transport
  accepted and those it rejected with the error's message.
\<close>

record run_params =
  rp_concurrency :: nat
  rp_continueOnError :: bool
  rp_trackProgress :: bool
  rp_trackTaskEvents :: bool
  rp_now :: "nat \<Rightarrow> rat"

record 'f upload_run =
  ur_steps :: "progress_step list"
  ur_nextIndex :: nat
  ur_active :: nat
  ur_firstError :: "string option"
  ur_stats :: transport_stats
  ur_result :: "upload_result option"
  ur_flights :: "'f list"
  ur_ticks :: nat
  ur_events :: "task_event list"
  ur_progress :: "progress_step list list"
  ur_accepted :: "upload_task list"
  ur_rejected :: "(upload_task \<times> string) list"

definition new_run :: "progress_step list \<Rightarrow> nat \<Rightarrow> 'f upload_run" where
  "new_run steps artifactCount =
     \<lparr>ur_steps = steps, ur_nextIndex = 0, ur_active = 0, ur_firstError = None,
      ur_stats = createUploadTransportStats\<lparr>ts_artifactCount := artifactCount\<rparr>, ur_result = None,
      ur_flights = [], ur_ticks = 0, ur_events = [], ur_progress = [], ur_accepted = [], ur_rejected = []\<rparr>"

definition run_now :: "run_params \<Rightarrow> 'f upload_run \<Rightarrow> rat" where
  "run_now p s = rp_now p (ur_ticks s)"

definition run_tick :: "'f upload_run \<Rightarrow> 'f upload_run" where
  "run_tick s = s\<lparr>ur_ticks := ur_ticks s + 1\<rparr>"

definition note_error :: "string \<Rightarrow> 'f upload_run \<Rightarrow> 'f upload_run" where
  "note_error message s = (if \<not> truthy (ur_firstError s) then s\<lparr>ur_firstError := Some message\<rparr> else s)"

text \<open>Steps of tasks updated one by one and reported to \<open>onProgress\<close> together.\<close>

definition report_steps :: "run_params \<Rightarrow> upload_task list \<Rightarrow> step_patch \<Rightarrow> 'f upload_run \<Rightarrow> 'f upload_run" where
  "report_steps p tasks patch s =
     (if rp_trackProgress p then
        let steps = foldl (\<lambda>st task. updateStep st (ta_stepIndex task) patch) (ur_steps s) tasks
        in s\<lparr>ur_steps := steps, ur_progress := ur_progress s @ [steps]\<rparr>
      else s)"

definition emit_events :: "run_params \<Rightarrow> task_event list \<Rightarrow> 'f upload_run \<Rightarrow> 'f upload_run" where
  "emit_events p events s = (if rp_trackTaskEvents p then s\<lparr>ur_events := ur_events s @ events\<rparr> else s)"

text \<open>\<open>resolve\<close> keeps the first result.\<close>

definition settleIfDone :: "nat \<Rightarrow> run_params \<Rightarrow> 'f upload_run \<Rightarrow> 'f upload_run" where
  "settleIfDone n p s =
     (if ur_active s \<noteq> 0 then s
      else if ur_nextIndex s < n \<and> (\<not> truthy (ur_firstError s) \<or> rp_continueOnError p) then s
      else if ur_result s \<noteq> None then s
      else if truthy (ur_firstError s)
      then s\<lparr>ur_result := Some \<lparr>re_ok = False, re_steps = ur_steps s, re_error = ur_firstError s, re_stats = Some (ur_stats s)\<rparr>\<rparr>
      else s\<lparr>ur_result := Some \<lparr>re_ok = True, re_steps = ur_steps s, re_error = None, re_stats = Some (ur_stats s)\<rparr>\<rparr>)"

definition can_launch :: "nat \<Rightarrow> run_params \<Rightarrow> 'f upload_run \<Rightarrow> bool" where
  "can_launch n p s \<longleftrightarrow>
     (rp_continueOnError p \<or> \<not> truthy (ur_firstError s)) \<and> ur_active s < rp_concurrency p \<and> ur_nextIndex s < n"

text \<open>
  The \<open>while\<close> loop of \<open>launchNext\<close>. It runs at most once per remaining task, since every
  round moves \<open>nextIndex\<close> on.
\<close>

primrec launch_loop :: "nat \<Rightarrow> ('s \<Rightarrow> bool) \<Rightarrow> ('s \<Rightarrow> 's) \<Rightarrow> 's \<Rightarrow> 's" where
  "launch_loop 0 cond launch s = s"
| "launch_loop (Suc k) cond launch s = (if cond s then launch_loop k cond launch (launch s) else s)"

definition launchNext ::
  "nat \<Rightarrow> run_params \<Rightarrow> ('f upload_run \<Rightarrow> 'f upload_run) \<Rightarrow> 'f upload_run \<Rightarrow> 'f upload_run" where
  "launchNext n p launch s =
     settleIfDone n p (launch_loop (n - ur_nextIndex s) (can_launch n p) launch s)"

text \<open>\<open>finally\<close> of the request at position \<open>i\<close> of those in flight.\<close>

definition flight_done ::
  "nat \<Rightarrow> run_params \<Rightarrow> ('f upload_run \<Rightarrow> 'f upload_run) \<Rightarrow> nat \<Rightarrow> 'f upload_run \<Rightarrow> 'f upload_run" where
  "flight_done n p launch i s =
     settleIfDone n p (launchNext n p launch
       (s\<lparr>ur_flights := take i (ur_flights s) @ drop (i + 1) (ur_flights s), ur_active := ur_active s - 1\<rparr>))"


section \<open>One request per artifact\<close>

record artifact_flight =
  fl_task :: upload_task
  fl_startedAt :: rat

definition artifact_event :: "event_phase \<Rightarrow> upload_task \<Rightarrow> task_event" where
  "artifact_event phase task =
     (let artifact = rq_artifact (ta_request task) in
      \<lparr>te_phase = phase, te_kind = ai_kind artifact, te_target = task_label task, te_index = ai_index artifact,
       te_slot = ai_slot artifact, te_bytes = length (ai_bytes artifact), te_fullSize = ai_fullSize artifact,
       te_durationMs = None, te_ok = None, te_error = None, te_transportKind = ViaArtifact, te_bundleId = None,
       te_bundleArtifactCount = None, te_bundleBytes = None, te_fallbackArtifactCount = None, te_fallbackReason = None\<rparr>)"

definition launch_artifact :: "run_params \<Rightarrow> upload_task list \<Rightarrow> artifact_flight upload_run \<Rightarrow> artifact_flight upload_run" where
  "launch_artifact p tasks s =
     (let task = tasks ! ur_nextIndex s;
          st = ur_stats s;
          st' = st\<lparr>ts_perArtifactCount := ts_perArtifactCount st + 1, ts_requestCount := ts_requestCount st + 1,
                   ts_bytesSent := ts_bytesSent st + artifactPayloadBytes task,
                   ts_peakActiveUploads := max (ts_peakActiveUploads st) (ur_active s + 1)\<rparr>;
          startedAt = (if rp_trackTaskEvents p then run_now p s else 0);
          s1 = (if rp_trackTaskEvents p then run_tick s else s)
      in report_steps p [task] (SetStatusError StepUploading None)
           (emit_events p [artifact_event PhaseStart task]
             (s1\<lparr>ur_nextIndex := ur_nextIndex s + 1, ur_active := ur_active s + 1, ur_stats := st',
                 ur_flights := ur_flights s @ [\<lparr>fl_task = task, fl_startedAt = startedAt\<rparr>]\<rparr>)))"

definition start_upload_tasks :: "run_params \<Rightarrow> upload_task list \<Rightarrow> progress_step list \<Rightarrow> artifact_flight upload_run" where
  "start_upload_tasks p tasks steps =
     launchNext (length tasks) p (launch_artifact p tasks) (new_run steps (length tasks))"

text \<open>The reply of \<open>sendArtifact\<close> for the request at position \<open>i\<close>: success or an error message.\<close>

definition artifact_reply ::
  "run_params \<Rightarrow> upload_task list \<Rightarrow> nat \<Rightarrow> string option \<Rightarrow> artifact_flight upload_run \<Rightarrow> artifact_flight upload_run" where
  "artifact_reply p tasks i failure s =
     (let flight = ur_flights s ! i;
          task = fl_task flight;
          finishedAt = run_now p s;
          s1 = (if rp_trackTaskEvents p then run_tick s else s);
          ended = (artifact_event PhaseEnd task)\<lparr>te_durationMs := Some (finishedAt - fl_startedAt flight)\<rparr>
      in flight_done (length tasks) p (launch_artifact p tasks) i
           (case failure of
              None \<Rightarrow>
                report_steps p [task] (SetStatus StepComplete)
                  (emit_events p [ended\<lparr>te_ok := Some True\<rparr>] (s1\<lparr>ur_accepted := ur_accepted s @ [task]\<rparr>))
            | Some message \<Rightarrow>
                report_steps p [task] (SetStatusError StepError (Some message))
                  (emit_events p [ended\<lparr>te_ok := Some False, te_error := Some message\<rparr>]
                    (note_error message (s1\<lparr>ur_rejected := ur_rejected s @ [(task, message)]\<rparr>)))))"


section \<open>One request per target\<close>

text \<open>A bundle in flight: the bundle request itself, or the fallback at its \<open>i\<close>-th artifact.\<close>

datatype bundle_phase = SendingBundle | SendingArtifact nat string

record bundle_flight =
  bf_bundle :: task_bundle
  bf_bundleIndex :: nat
  bf_startedAt :: rat
  bf_phase :: bundle_phase

definition bundle_id :: "bundle_flight \<Rightarrow> string" where
  "bundle_id f = tb_target (bf_bundle f) @ ''#'' @ dec_string (bf_bundleIndex f)"

definition bundle_event :: "bundle_flight \<Rightarrow> transport_kind \<Rightarrow> event_phase \<Rightarrow> upload_task \<Rightarrow> task_event" where
  "bundle_event f via phase task =
     (artifact_event phase task)
       \<lparr>te_transportKind := via, te_bundleId := Some (bundle_id f),
        te_bundleArtifactCount := Some (length (tb_tasks (bf_bundle f))),
        te_bundleBytes := Some (bundlePayloadBytes (bf_bundle f))\<rparr>"

definition launch_bundle :: "run_params \<Rightarrow> task_bundle list \<Rightarrow> bundle_flight upload_run \<Rightarrow> bundle_flight upload_run" where
  "launch_bundle p bundles s =
     (let b = bundles ! ur_nextIndex s;
          f = \<lparr>bf_bundle = b, bf_bundleIndex = ur_nextIndex s, bf_startedAt = run_now p s, bf_phase = SendingBundle\<rparr>;
          st = ur_stats s;
          st' = st\<lparr>ts_peakActiveUploads := max (ts_peakActiveUploads st) (ur_active s + 1),
                   ts_bundleCount := ts_bundleCount st + 1,
                   ts_bundledArtifactCount := ts_bundledArtifactCount st + length (tb_tasks b),
                   ts_requestCount := ts_requestCount st + 1, ts_bytesSent := ts_bytesSent st + bundlePayloadBytes b\<rparr>
      in report_steps p (tb_tasks b) (SetStatusError StepUploading None)
           (emit_events p (map (bundle_event f ViaBundle PhaseStart) (tb_tasks b))
             ((run_tick s)\<lparr>ur_nextIndex := ur_nextIndex s + 1, ur_active := ur_active s + 1, ur_stats := st',
                           ur_flights := ur_flights s @ [f]\<rparr>)))"

definition start_upload_bundles :: "run_params \<Rightarrow> task_bundle list \<Rightarrow> progress_step list \<Rightarrow> bundle_flight upload_run" where
  "start_upload_bundles p bundles steps =
     launchNext (length bundles) p (launch_bundle p bundles)
       (new_run steps (sum_list (map (\<lambda>b. length (tb_tasks b)) bundles)))"

definition completeBundle :: "run_params \<Rightarrow> bundle_flight \<Rightarrow> string option \<Rightarrow> bundle_flight upload_run \<Rightarrow> bundle_flight upload_run" where
  "completeBundle p f failure s =
     (let tasks = tb_tasks (bf_bundle f); finishedAt = run_now p s in
      report_steps p tasks
        (case failure of None \<Rightarrow> SetStatus StepComplete | Some message \<Rightarrow> SetStatusError StepError (Some message))
        (emit_events p
          (map (\<lambda>task. (bundle_event f ViaBundle PhaseEnd task)
                  \<lparr>te_durationMs := Some (finishedAt - bf_startedAt f), te_ok := Some (failure = None), te_error := failure\<rparr>) tasks)
          (run_tick s)))"

text \<open>
  The fallback loop up to its next request: the request of the \<open>k\<close>-th artifact, or the end
  of the bundle.
\<close>

definition fallback_next ::
  "run_params \<Rightarrow> task_bundle list \<Rightarrow> nat \<Rightarrow> nat \<Rightarrow> string \<Rightarrow> bundle_flight upload_run \<Rightarrow> bundle_flight upload_run" where
  "fallback_next p bundles i k reason s =
     (let f = ur_flights s ! i; tasks = tb_tasks (bf_bundle f); st = ur_stats s in
      if k < length tasks then
        s\<lparr>ur_stats := st\<lparr>ts_perArtifactCount := ts_perArtifactCount st + 1, ts_requestCount := ts_requestCount st + 1,
                         ts_bytesSent := ts_bytesSent st + artifactPayloadBytes (tasks ! k)\<rparr>,
          ur_flights := (ur_flights s)[i := f\<lparr>bf_phase := SendingArtifact k reason\<rparr>]\<rparr>
      else flight_done (length bundles) p (launch_bundle p bundles) i s)"

definition fallbackToArtifacts ::
  "run_params \<Rightarrow> task_bundle list \<Rightarrow> nat \<Rightarrow> string \<Rightarrow> bundle_flight upload_run \<Rightarrow> bundle_flight upload_run" where
  "fallbackToArtifacts p bundles i reason s =
     (let f = ur_flights s ! i; tasks = tb_tasks (bf_bundle f); st = ur_stats s; b = bundlePayloadBytes (bf_bundle f);
          event = (bundle_event f ViaArtifact PhaseFallback (hd tasks))
            \<lparr>te_index := None, te_slot := None, te_bytes := b, te_fullSize := Some (num b),
             te_fallbackArtifactCount := Some (length tasks), te_fallbackReason := Some reason\<rparr>
      in fallback_next p bundles i 0 reason
           (emit_events p (if tasks = [] then [] else [event])
             (s\<lparr>ur_stats := st\<lparr>ts_fallbackCount := ts_fallbackCount st + 1,
                               ts_fallbackReason := (if \<not> truthy (ts_fallbackReason st) then Some reason else ts_fallbackReason st)\<rparr>\<rparr>)))"

text \<open>A failed \<open>sendBundle\<close>: the error's name and message.\<close>

definition isBundleUnsupportedError :: "string \<times> string \<Rightarrow> bool" where
  "isBundleUnsupportedError e \<longleftrightarrow> fst e = ''BundleUnsupportedUploadError''"

definition bundle_reply ::
  "run_params \<Rightarrow> task_bundle list \<Rightarrow> nat \<Rightarrow> (string \<times> string) option \<Rightarrow> bundle_flight upload_run \<Rightarrow> bundle_flight upload_run" where
  "bundle_reply p bundles i failure s =
     (let f = ur_flights s ! i; tasks = tb_tasks (bf_bundle f) in
      case failure of
        None \<Rightarrow>
          flight_done (length bundles) p (launch_bundle p bundles) i
            (completeBundle p f None (s\<lparr>ur_accepted := ur_accepted s @ tasks\<rparr>))
      | Some e \<Rightarrow>
          if isBundleUnsupportedError e
          then fallbackToArtifacts p bundles i (if snd e = [] then ''bundle upload unsupported'' else snd e) s
          else flight_done (length bundles) p (launch_bundle p bundles) i
                 (completeBundle p f (Some (snd e))
                   (note_error (snd e) (s\<lparr>ur_rejected := ur_rejected s @ map (\<lambda>t. (t, snd e)) tasks\<rparr>))))"

definition fallback_reply ::
  "run_params \<Rightarrow> task_bundle list \<Rightarrow> nat \<Rightarrow> string option \<Rightarrow> bundle_flight upload_run \<Rightarrow> bundle_flight upload_run" where
  "fallback_reply p bundles i failure s =
     (let f = ur_flights s ! i in
      case bf_phase f of
        SendingBundle \<Rightarrow> s
      | SendingArtifact k reason \<Rightarrow>
          let task = tb_tasks (bf_bundle f) ! k;
              finishedAt = run_now p s;
              s1 = (if rp_trackTaskEvents p then run_tick s else s);
              ended = (bundle_event f ViaArtifact PhaseEnd task)
                \<lparr>te_durationMs := Some (finishedAt - bf_startedAt f), te_fallbackReason := Some reason\<rparr>
          in (case failure of
                None \<Rightarrow>
                  fallback_next p bundles i (k + 1) reason
                    (report_steps p [task] (SetStatus StepComplete)
                      (emit_events p [ended\<lparr>te_ok := Some True\<rparr>] (s1\<lparr>ur_accepted := ur_accepted s @ [task]\<rparr>)))
              | Some message \<Rightarrow>
                  let s2 = report_steps p [task] (SetStatusError StepError (Some message))
                        (emit_events p [ended\<lparr>te_ok := Some False, te_error := Some message\<rparr>]
                          (note_error message (s1\<lparr>ur_rejected := ur_rejected s @ [(task, message)]\<rparr>)))
                  in if rp_continueOnError p then fallback_next p bundles i (k + 1) reason s2
                     else flight_done (length bundles) p (launch_bundle p bundles) i s2))"


section \<open>Uploads\<close>

text \<open>The engine's limits and whether its transport can send bundles.\<close>

record engine =
  eg_directConcurrency :: nat
  eg_stripedMetadataConcurrency :: nat
  eg_stripedShardConcurrency :: nat
  eg_sendBundle :: bool

record engine_parallelism =
  ep_direct :: "jsnum option"
  ep_stripedMetadata :: "jsnum option"
  ep_stripedShards :: "jsnum option"

definition createUploadEngine :: "engine_parallelism option \<Rightarrow> bool \<Rightarrow> engine" where
  "createUploadEngine parallelism sendBundle =
     (let field = (\<lambda>f. case parallelism of None \<Rightarrow> None | Some q \<Rightarrow> f q) in
      \<lparr>eg_directConcurrency = normalizeConcurrency (field ep_direct) 4,
       eg_stripedMetadataConcurrency = normalizeConcurrency (field ep_stripedMetadata) 6,
       eg_stripedShardConcurrency = normalizeConcurrency (field ep_stripedShards) 6, eg_sendBundle = sendBundle\<rparr>)"

text \<open>An upload is refused with a result, or one of the two runners is started on its tasks.\<close>

datatype upload_start =
    Refused upload_result
  | RunTasks run_params "upload_task list" "artifact_flight upload_run"
  | RunBundles run_params "task_bundle list" "bundle_flight upload_run"

record callbacks =
  cb_onProgress :: bool
  cb_onTaskEvent :: bool
  cb_now :: "nat \<Rightarrow> rat"

definition params :: "callbacks \<Rightarrow> nat \<Rightarrow> bool \<Rightarrow> progress_step list \<Rightarrow> run_params" where
  "params cb concurrency continueOnError steps =
     \<lparr>rp_concurrency = concurrency, rp_continueOnError = continueOnError,
      rp_trackProgress = (cb_onProgress cb \<and> steps \<noteq> []), rp_trackTaskEvents = cb_onTaskEvent cb, rp_now = cb_now cb\<rparr>"

definition uploadDirect :: "engine \<Rightarrow> callbacks \<Rightarrow> direct_input \<Rightarrow> upload_start" where
  "uploadDirect eg cb input =
     (case direct_tasks (cb_onProgress cb) input of
        Inl r \<Rightarrow> Refused r
      | Inr (steps, tasks) \<Rightarrow>
          if eg_sendBundle eg then
            let p = params cb 1 False steps; bundles = groupUploadTasksByTarget tasks
            in RunBundles p bundles (start_upload_bundles p bundles steps)
          else
            let p = params cb (eg_directConcurrency eg) False steps
            in RunTasks p tasks (start_upload_tasks p tasks steps))"

definition uploadStriped :: "engine \<Rightarrow> callbacks \<Rightarrow> striped_input \<Rightarrow> upload_start" where
  "uploadStriped eg cb input =
     (case striped_tasks (cb_onProgress cb) input of
        Inl r \<Rightarrow> Refused r
      | Inr (steps, tasks) \<Rightarrow>
          let combinedConcurrency =
                (if or_empty (sd_shardSets input) \<noteq> []
                 then min (length tasks) (eg_stripedMetadataConcurrency eg + eg_stripedShardConcurrency eg)
                 else min (length tasks) (eg_stripedMetadataConcurrency eg))
          in if eg_sendBundle eg then
               let bundles = groupUploadTasksByTarget tasks;
                   p = params cb (max 1 (min (length bundles) combinedConcurrency)) True steps
               in RunBundles p bundles (start_upload_bundles p bundles steps)
             else
               let p = params cb combinedConcurrency True steps
               in RunTasks p tasks (start_upload_tasks p tasks steps))"

definition uploadStripedSlot :: "engine \<Rightarrow> callbacks \<Rightarrow> striped_slot_input \<Rightarrow> upload_start" where
  "uploadStripedSlot eg cb input =
     (case striped_slot_tasks (cb_onProgress cb) input of
        Inl r \<Rightarrow> Refused r
      | Inr (steps, tasks) \<Rightarrow>
          if eg_sendBundle eg then
            let p = params cb 1 False steps; bundles = groupUploadTasksByTarget tasks
            in RunBundles p bundles (start_upload_bundles p bundles steps)
          else
            let slotConcurrency = max 1 (min (length tasks) (eg_stripedMetadataConcurrency eg + eg_stripedShardConcurrency eg));
                p = params cb slotConcurrency False steps
            in RunTasks p tasks (start_upload_tasks p tasks steps))"


section \<open>Commit request\<close>

record prepared_commit =
  pc_dealId :: string
  pc_previousManifestRoot :: string
  pc_manifestRoot :: string
  pc_isMode2 :: bool
  pc_fileBytesTotal :: jsnum
  pc_totalWitnessMdus :: jsnum
  pc_totalUserMdus :: jsnum
  pc_mdus :: "prepared_mdu list"

record chain_commit_request =
  cc_dealId :: string
  cc_previousManifestRoot :: string
  cc_manifestRoot :: string
  cc_fileSize :: jsnum
  cc_totalMdus :: rat
  cc_witnessMdus :: rat

text \<open>\<open>Math.max(0, Number(x) || 0)\<close> on a finite number or \<open>NaN\<close>.\<close>

definition non_negative :: "jsnum \<Rightarrow> rat" where
  "non_negative v = (case v of Fin r \<Rightarrow> max 0 r | NonFin \<Rightarrow> 0)"

definition buildCommitRequest :: "prepared_commit \<Rightarrow> chain_commit_request result" where
  "buildCommitRequest input =
     (let witnessMdus = non_negative (pc_totalWitnessMdus input);
          totalMdus = (if pc_isMode2 input then 1 + witnessMdus + non_negative (pc_totalUserMdus input)
                       else of_nat (length (pc_mdus input)))
      in if totalMdus \<le> 0 then Inl ''Commit requires totalMdus > 0''
         else if witnessMdus < 0 then Inl ''Commit requires witnessMdus >= 0''
         else if totalMdus \<le> 1 + witnessMdus then Inl ''Commit requires totalMdus > 1 + witnessMdus''
         else Inr \<lparr>cc_dealId = pc_dealId input, cc_previousManifestRoot = pc_previousManifestRoot input,
                   cc_manifestRoot = pc_manifestRoot input, cc_fileSize = pc_fileBytesTotal input,
                   cc_totalMdus = totalMdus, cc_witnessMdus = witnessMdus\<rparr>)"

end
