(* ===== verification/UploadEngineCorrect.thy ===== *)
theory UploadEngineCorrect
  imports UploadEngine "HOL-Library.Multiset"
begin

text \<open>
  Correctness of the two bounded runners of the upload engine, over every order of replies:
  the bound on requests in flight, the accounting of tasks, when and with what result a
  run ends, and the tasks that the uploads hand to the runners.
\<close>


lemma find_append: "find P (xs @ ys) = (case find P xs of None \<Rightarrow> find P ys | Some x \<Rightarrow> Some x)"
  by (induction xs) auto


lemma settle_keeps [simp]:
  "ur_flights (settleIfDone n p s) = ur_flights s" "ur_accepted (settleIfDone n p s) = ur_accepted s"
  "ur_rejected (settleIfDone n p s) = ur_rejected s" "ur_nextIndex (settleIfDone n p s) = ur_nextIndex s"
  "ur_firstError (settleIfDone n p s) = ur_firstError s" "ur_active (settleIfDone n p s) = ur_active s"
  by (simp_all add: settleIfDone_def)


section \<open>The contract of a runner\<close>

text \<open>
  What the pool's loop relies on: launching moves on by one task and puts one request in
  flight, and leaves the error, the result and the replies alone.
\<close>

locale upload_pool =
  fixes n :: nat
    and p :: run_params
    and launch :: "'f upload_run \<Rightarrow> 'f upload_run"
    and flight_tasks :: "'f \<Rightarrow> upload_task list"
    and flight_ok :: "'f \<Rightarrow> bool"
    and units :: "upload_task list list"
  assumes units_length: "length units = n"
    and launch_next: "ur_nextIndex (launch s) = ur_nextIndex s + 1"
    and launch_active: "ur_active (launch s) = ur_active s + 1"
    and launch_keeps: "ur_firstError (launch s) = ur_firstError s" "ur_result (launch s) = ur_result s"
      "ur_accepted (launch s) = ur_accepted s" "ur_rejected (launch s) = ur_rejected s"
    and launch_flight: "ur_nextIndex s < n \<Longrightarrow>
      \<exists>f. ur_flights (launch s) = ur_flights s @ [f] \<and> flight_tasks f = units ! ur_nextIndex s \<and> flight_ok f"
begin

text \<open>
  The tasks of the launched units are in flight, accepted or rejected; the first message
  that is not empty is the run's error.
\<close>

definition pool_inv :: "'f upload_run \<Rightarrow> bool" where
  "pool_inv s \<longleftrightarrow>
     ur_active s = length (ur_flights s) \<and> ur_active s \<le> rp_concurrency p \<and> ur_nextIndex s \<le> n
     \<and> list_all flight_ok (ur_flights s)
     \<and> ((rp_continueOnError p \<or> ur_rejected s = []) \<longrightarrow>
          mset (ur_accepted s @ map fst (ur_rejected s) @ concat (map flight_tasks (ur_flights s)))
          = mset (concat (take (ur_nextIndex s) units)))
     \<and> (truthy (ur_firstError s) \<longleftrightarrow> (\<exists>x \<in> set (ur_rejected s). snd x \<noteq> []))
     \<and> (truthy (ur_firstError s) \<longrightarrow> ur_firstError s = find (\<lambda>m. m \<noteq> []) (map snd (ur_rejected s)))"

definition result_inv :: "'f upload_run \<Rightarrow> bool" where
  "result_inv s \<longleftrightarrow>
     (\<forall>r. ur_result s = Some r \<longrightarrow> ur_flights s = []
        \<and> \<not> (ur_nextIndex s < n \<and> (\<not> truthy (ur_firstError s) \<or> rp_continueOnError p))
        \<and> re_ok r = (\<not> truthy (ur_firstError s))
        \<and> re_error r = (if truthy (ur_firstError s) then ur_firstError s else None))"

definition settled_inv :: "'f upload_run \<Rightarrow> bool" where
  "settled_inv s \<longleftrightarrow>
     pool_inv s \<and> result_inv s \<and> (0 < rp_concurrency p \<or> n = 0 \<longrightarrow> ur_flights s = [] \<longrightarrow> ur_result s \<noteq> None)"

lemma launch_inv:
  assumes "pool_inv s" "can_launch n p s"
  shows "pool_inv (launch s)"
proof -
  have next': "ur_nextIndex s < n"
    using assms(2) by (simp add: can_launch_def)
  obtain f where f: "ur_flights (launch s) = ur_flights s @ [f]" "flight_tasks f = units ! ur_nextIndex s" "flight_ok f"
    using launch_flight [OF next'] by blast
  have "take (ur_nextIndex s + 1) units = take (ur_nextIndex s) units @ [units ! ur_nextIndex s]"
    using next' units_length by (simp add: take_Suc_conv_app_nth)
  then show ?thesis
    using assms f by (auto simp: pool_inv_def can_launch_def launch_next launch_active launch_keeps)
qed

lemma launch_loop_inv:
  "pool_inv s \<Longrightarrow> pool_inv (launch_loop k (can_launch n p) launch s)"
  by (induction k arbitrary: s) (simp_all add: launch_inv)

lemma launch_loop_result [simp]: "ur_result (launch_loop k c launch s) = ur_result s"
  by (induction k arbitrary: s) (simp_all add: launch_keeps)

lemma launch_loop_replies [simp]:
  "ur_accepted (launch_loop k c launch s) = ur_accepted s" "ur_rejected (launch_loop k c launch s) = ur_rejected s"
  by (induction k arbitrary: s; simp add: launch_keeps)+

lemma launch_loop_exit:
  "ur_nextIndex s + k \<ge> n \<Longrightarrow> \<not> can_launch n p (launch_loop k (can_launch n p) launch s)"
  by (induction k arbitrary: s) (simp_all add: launch_next can_launch_def)

lemma launch_loop_diff:
  "ur_nextIndex (launch_loop k (can_launch n p) launch s) + length (ur_flights s)
   = ur_nextIndex s + length (ur_flights (launch_loop k (can_launch n p) launch s))"
proof (induction k arbitrary: s)
  case (Suc k)
  show ?case
  proof (cases "can_launch n p s")
    case True
    then obtain f where "ur_flights (launch s) = ur_flights s @ [f]"
      using launch_flight by (auto simp: can_launch_def)
    then show ?thesis
      using Suc.IH [of "launch s"] True by (simp add: launch_next)
  qed simp
qed simp

lemma settle_pool [simp]: "pool_inv (settleIfDone n p s) = pool_inv s"
  by (simp add: settleIfDone_def pool_inv_def)

lemma settle_result:
  assumes "pool_inv s" "result_inv s"
  shows "result_inv (settleIfDone n p s)"
  using assms by (auto simp: settleIfDone_def result_inv_def pool_inv_def)

text \<open>
  Once the loop has stopped, either requests are in flight or the run has a result.
\<close>

lemma launchNext_inv:
  assumes "pool_inv s" "result_inv s" "ur_result s = None"
  shows "settled_inv (launchNext n p launch s)"
proof -
  let ?s = "launch_loop (n - ur_nextIndex s) (can_launch n p) launch s"
  have inv: "pool_inv ?s"
    using assms(1) by (rule launch_loop_inv)
  have res: "ur_result ?s = None"
    using assms(3) by simp
  have "\<not> can_launch n p ?s"
    by (rule launch_loop_exit) simp
  then have "ur_result (settleIfDone n p ?s) \<noteq> None"
    if "0 < rp_concurrency p \<or> n = 0" "ur_flights ?s = []"
    using inv that res by (auto simp: settleIfDone_def can_launch_def pool_inv_def)
  moreover have "result_inv ?s"
    using res by (simp add: result_inv_def)
  ultimately show ?thesis
    using inv settle_result [OF inv] by (simp add: launchNext_def settled_inv_def)
qed

lemma settle_settled:
  assumes "settled_inv s"
  shows "settled_inv (settleIfDone n p s)"
proof -
  have "ur_result s \<noteq> None \<Longrightarrow> ur_result (settleIfDone n p s) \<noteq> None"
    by (simp add: settleIfDone_def)
  then show ?thesis
    using assms settle_result [of s] by (auto simp: settled_inv_def)
qed

text \<open>
  The reply of the request at position \<open>i\<close>, recorded in \<open>s'\<close>: \<open>good\<close> are its tasks that were
  accepted, \<open>bad\<close> those that were rejected, and \<open>mid\<close> is what stays in flight of it.
\<close>

definition records_reply ::
  "'f upload_run \<Rightarrow> nat \<Rightarrow> upload_task list \<Rightarrow> (upload_task \<times> string) list \<Rightarrow> 'f list \<Rightarrow> 'f upload_run \<Rightarrow> bool" where
  "records_reply s i good bad mid s' \<longleftrightarrow>
     ur_active s' = ur_active s \<and> ur_flights s' = ur_flights s \<and> ur_nextIndex s' = ur_nextIndex s
     \<and> ur_result s' = ur_result s \<and> ur_accepted s' = ur_accepted s @ good \<and> ur_rejected s' = ur_rejected s @ bad
     \<and> ur_firstError s' = (if truthy (ur_firstError s) \<or> bad = [] then ur_firstError s else Some (snd (hd bad)))
     \<and> (\<forall>x \<in> set bad. snd x = snd (hd bad)) \<and> list_all flight_ok mid
     \<and> (rp_continueOnError p \<or> ur_rejected s @ bad = [] \<longrightarrow>
          mset (flight_tasks (ur_flights s ! i)) = mset (good @ map fst bad @ concat (map flight_tasks mid)))"

lemma reply_error:
  assumes "pool_inv s" "records_reply s i good bad mid s'"
  shows "truthy (ur_firstError s') \<longleftrightarrow> (\<exists>x \<in> set (ur_rejected s'). snd x \<noteq> [])"
    and "truthy (ur_firstError s') \<longrightarrow> ur_firstError s' = find (\<lambda>m. m \<noteq> []) (map snd (ur_rejected s'))"
proof -
  have r: "ur_rejected s' = ur_rejected s @ bad"
    "ur_firstError s' = (if truthy (ur_firstError s) \<or> bad = [] then ur_firstError s else Some (snd (hd bad)))"
    "\<forall>x \<in> set bad. snd x = snd (hd bad)"
    using assms(2) by (simp_all add: records_reply_def)
  show "truthy (ur_firstError s') \<longleftrightarrow> (\<exists>x \<in> set (ur_rejected s'). snd x \<noteq> [])"
    using assms(1) r by (cases bad) (auto simp: pool_inv_def truthy_def)
  show "truthy (ur_firstError s') \<longrightarrow> ur_firstError s' = find (\<lambda>m. m \<noteq> []) (map snd (ur_rejected s'))"
  proof
    assume t: "truthy (ur_firstError s')"
    show "ur_firstError s' = find (\<lambda>m. m \<noteq> []) (map snd (ur_rejected s'))"
    proof (cases "truthy (ur_firstError s)")
      case True
      then have "find (\<lambda>m. m \<noteq> []) (map snd (ur_rejected s)) = ur_firstError s" "ur_firstError s \<noteq> None"
        using assms(1) by (auto simp: pool_inv_def truthy_def)
      then show ?thesis
        using True r by (auto simp: find_append)
    next
      case False
      then have "find (\<lambda>m. m \<noteq> []) (map snd (ur_rejected s)) = None"
        using assms(1) by (auto simp: pool_inv_def find_None_iff)
      moreover have "bad \<noteq> []"
        using False t r by auto
      ultimately show ?thesis
        using False t r by (cases bad) (auto simp: find_append truthy_def)
    qed
  qed
qed

lemma reply_inv:
  assumes "pool_inv s" "i < length (ur_flights s)" "records_reply s i good bad mid s'" "length mid \<le> 1"
  shows "pool_inv (s'\<lparr>ur_flights := take i (ur_flights s) @ mid @ drop (i + 1) (ur_flights s),
                      ur_active := ur_active s - 1 + length mid\<rparr>)"
proof -
  let ?f = "ur_flights s"
  have f: "?f = take i ?f @ ?f ! i # drop (Suc i) ?f"
    using assms(2) by (rule id_take_nth_drop)
  have r: "ur_rejected s' = ur_rejected s @ bad" "ur_accepted s' = ur_accepted s @ good" "ur_nextIndex s' = ur_nextIndex s"
    using assms(3) by (simp_all add: records_reply_def)
  have m: "mset (ur_accepted s' @ map fst (ur_rejected s') @ concat (map flight_tasks (take i ?f @ mid @ drop (i + 1) ?f)))
      = mset (concat (take (ur_nextIndex s) units))" if c: "rp_continueOnError p \<or> ur_rejected s' = []"
  proof -
    have "rp_continueOnError p \<or> ur_rejected s = []"
      using c r by auto
    then have "mset (ur_accepted s @ map fst (ur_rejected s) @ concat (map flight_tasks ?f))
        = mset (concat (take (ur_nextIndex s) units))"
      using assms(1) by (simp add: pool_inv_def)
    moreover have "mset (concat (map flight_tasks ?f))
        = mset (flight_tasks (?f ! i)) + mset (concat (map flight_tasks (take i ?f @ drop (Suc i) ?f)))"
      by (subst f) simp
    moreover have "mset (flight_tasks (?f ! i)) = mset (good @ map fst bad @ concat (map flight_tasks mid))"
    proof -
      have "rp_continueOnError p \<or> ur_rejected s @ bad = []"
        using c r by simp
      then show ?thesis
        using assms(3) unfolding records_reply_def by blast
    qed
    ultimately show ?thesis
      using r by (simp add: ac_simps)
  qed
  have "ur_active s - 1 + length mid = length (take i ?f @ mid @ drop (i + 1) ?f)"
    and "ur_active s - 1 + length mid \<le> rp_concurrency p"
    using assms(1,2,4) by (auto simp: pool_inv_def)
  moreover have "list_all flight_ok (take i ?f @ mid @ drop (i + 1) ?f)"
    using assms(1,3) by (auto simp: pool_inv_def records_reply_def list_all_iff dest: in_set_takeD in_set_dropD)
  ultimately show ?thesis
    using m reply_error [OF assms(1,3)] assms(1) r by (auto simp: pool_inv_def)
qed

lemma settled_open:
  assumes "settled_inv s" "i < length (ur_flights s)"
  shows "pool_inv s" "ur_result s = None"
proof -
  show "pool_inv s"
    using assms(1) by (simp add: settled_inv_def)
  have "result_inv s" "ur_flights s \<noteq> []"
    using assms by (auto simp: settled_inv_def)
  then show "ur_result s = None"
    unfolding result_inv_def by (cases "ur_result s") blast+
qed

lemma flight_done_inv:
  assumes "settled_inv s" "i < length (ur_flights s)" "records_reply s i good bad [] s'"
  shows "settled_inv (flight_done n p launch i s')"
proof -
  let ?s = "s'\<lparr>ur_flights := take i (ur_flights s') @ drop (i + 1) (ur_flights s'), ur_active := ur_active s' - 1\<rparr>"
  note o = settled_open [OF assms(1,2)]
  have "pool_inv ?s"
    using reply_inv [OF o(1) assms(2,3)] assms(3) by (simp add: records_reply_def)
  moreover have "result_inv ?s" "ur_result ?s = None"
    using o(2) assms(3) by (simp_all add: result_inv_def records_reply_def)
  ultimately have "settled_inv (launchNext n p launch ?s)"
    by (rule launchNext_inv)
  then show ?thesis
    unfolding flight_done_def by (rule settle_settled)
qed

lemma flight_moves_inv:
  assumes "settled_inv s" "i < length (ur_flights s)" "records_reply s i good bad [f] s'"
  shows "settled_inv (s'\<lparr>ur_flights := (ur_flights s')[i := f]\<rparr>)"
proof -
  note o = settled_open [OF assms(1,2)]
  have eq: "s'\<lparr>ur_flights := (ur_flights s')[i := f]\<rparr>
      = s'\<lparr>ur_flights := take i (ur_flights s) @ [f] @ drop (i + 1) (ur_flights s), ur_active := ur_active s - 1 + length [f]\<rparr>"
    using assms(2,3) o(1) by (cases "ur_active s") (simp_all add: records_reply_def upd_conv_take_nth_drop pool_inv_def)
  have "pool_inv (s'\<lparr>ur_flights := (ur_flights s')[i := f]\<rparr>)"
    unfolding eq by (rule reply_inv [OF o(1) assms(2,3)]) simp
  moreover have "ur_result s' = None" "ur_flights s' = ur_flights s"
    using assms(3) o(2) by (simp_all add: records_reply_def)
  ultimately show ?thesis
    using assms(2) by (auto simp: settled_inv_def result_inv_def)
qed

lemma flight_done_diff:
  assumes "i < length (ur_flights s)"
  shows "ur_nextIndex (flight_done n p launch i s) + length (ur_flights s)
    = ur_nextIndex s + length (ur_flights (flight_done n p launch i s)) + 1"
proof -
  let ?s = "s\<lparr>ur_flights := take i (ur_flights s) @ drop (i + 1) (ur_flights s), ur_active := ur_active s - 1\<rparr>"
  have "length (ur_flights ?s) + 1 = length (ur_flights s)"
    using assms by simp
  moreover have "ur_nextIndex ?s = ur_nextIndex s"
    and "ur_nextIndex (flight_done n p launch i s) = ur_nextIndex (launch_loop (n - ur_nextIndex s) (can_launch n p) launch ?s)"
    and "length (ur_flights (flight_done n p launch i s))
      = length (ur_flights (launch_loop (n - ur_nextIndex s) (can_launch n p) launch ?s))"
    by (simp_all add: flight_done_def launchNext_def)
  ultimately show ?thesis
    using launch_loop_diff [of "n - ur_nextIndex s" ?s] by linarith
qed

lemma new_run_settled: "settled_inv (launchNext n p launch (new_run steps k))"
  by (rule launchNext_inv) (auto simp: pool_inv_def result_inv_def new_run_def truthy_def)

text \<open>What a result says of the transport's replies.\<close>

lemma settled_result:
  assumes "settled_inv s" "ur_result s = Some r"
  shows "ur_flights s = []"
    and "re_ok r \<longleftrightarrow> (\<forall>x \<in> set (ur_rejected s). snd x = [])"
    and "\<not> re_ok r \<longrightarrow> re_error r = find (\<lambda>m. m \<noteq> []) (map snd (ur_rejected s))"
    and "rp_continueOnError p \<or> ur_rejected s = [] \<longrightarrow>
           mset (ur_accepted s @ map fst (ur_rejected s)) = mset (concat units)"
proof -
  have inv: "pool_inv s" "result_inv s"
    using assms(1) by (simp_all add: settled_inv_def)
  show fl: "ur_flights s = []"
    using inv(2) assms(2) by (simp add: result_inv_def)
  show "re_ok r \<longleftrightarrow> (\<forall>x \<in> set (ur_rejected s). snd x = [])"
    and "\<not> re_ok r \<longrightarrow> re_error r = find (\<lambda>m. m \<noteq> []) (map snd (ur_rejected s))"
    using inv assms(2) by (auto simp: result_inv_def pool_inv_def)
  show "rp_continueOnError p \<or> ur_rejected s = [] \<longrightarrow>
           mset (ur_accepted s @ map fst (ur_rejected s)) = mset (concat units)"
  proof
    assume c: "rp_continueOnError p \<or> ur_rejected s = []"
    then have "\<not> truthy (ur_firstError s) \<or> rp_continueOnError p"
      using inv(1) by (auto simp: pool_inv_def)
    then have "ur_nextIndex s = length units"
      using inv assms(2) units_length by (auto simp: result_inv_def pool_inv_def)
    then show "mset (ur_accepted s @ map fst (ur_rejected s)) = mset (concat units)"
      using inv(1) c fl by (simp add: pool_inv_def)
  qed
qed

end



section \<open>Both runners keep the contract\<close>

lemma report_keeps [simp]:
  "ur_nextIndex (report_steps p ts patch s) = ur_nextIndex s" "ur_active (report_steps p ts patch s) = ur_active s"
  "ur_firstError (report_steps p ts patch s) = ur_firstError s" "ur_result (report_steps p ts patch s) = ur_result s"
  "ur_flights (report_steps p ts patch s) = ur_flights s" "ur_accepted (report_steps p ts patch s) = ur_accepted s"
  "ur_rejected (report_steps p ts patch s) = ur_rejected s" "ur_stats (report_steps p ts patch s) = ur_stats s"
  by (simp_all add: report_steps_def Let_def)

lemma emit_keeps [simp]:
  "ur_nextIndex (emit_events p es s) = ur_nextIndex s" "ur_active (emit_events p es s) = ur_active s"
  "ur_firstError (emit_events p es s) = ur_firstError s" "ur_result (emit_events p es s) = ur_result s"
  "ur_flights (emit_events p es s) = ur_flights s" "ur_accepted (emit_events p es s) = ur_accepted s"
  "ur_rejected (emit_events p es s) = ur_rejected s" "ur_stats (emit_events p es s) = ur_stats s"
  by (simp_all add: emit_events_def)

lemma tick_keeps [simp]:
  "ur_nextIndex (run_tick s) = ur_nextIndex s" "ur_active (run_tick s) = ur_active s"
  "ur_firstError (run_tick s) = ur_firstError s" "ur_result (run_tick s) = ur_result s"
  "ur_flights (run_tick s) = ur_flights s" "ur_accepted (run_tick s) = ur_accepted s"
  "ur_rejected (run_tick s) = ur_rejected s" "ur_stats (run_tick s) = ur_stats s"
  by (simp_all add: run_tick_def)

lemma note_error_keeps [simp]:
  "ur_nextIndex (note_error m s) = ur_nextIndex s" "ur_active (note_error m s) = ur_active s"
  "ur_result (note_error m s) = ur_result s" "ur_flights (note_error m s) = ur_flights s"
  "ur_accepted (note_error m s) = ur_accepted s" "ur_rejected (note_error m s) = ur_rejected s"
  "ur_firstError (note_error m s) = (if truthy (ur_firstError s) then ur_firstError s else Some m)"
  by (simp_all add: note_error_def)

interpretation tasks_pool:
  upload_pool "length tasks" p "launch_artifact p tasks" "\<lambda>f. [fl_task f]" "\<lambda>_. True" "map (\<lambda>t. [t]) tasks"
  for p tasks
  by unfold_locales (auto simp: launch_artifact_def Let_def)

text \<open>The tasks of a bundle in flight that have no reply yet; bundles are not empty.\<close>

definition bundle_rest :: "bundle_flight \<Rightarrow> upload_task list" where
  "bundle_rest f =
     (case bf_phase f of SendingBundle \<Rightarrow> tb_tasks (bf_bundle f) | SendingArtifact k _ \<Rightarrow> drop k (tb_tasks (bf_bundle f)))"

definition bundle_ok :: "task_bundle list \<Rightarrow> bundle_flight \<Rightarrow> bool" where
  "bundle_ok bundles f \<longleftrightarrow>
     bf_bundle f \<in> set bundles
     \<and> (case bf_phase f of SendingBundle \<Rightarrow> True | SendingArtifact k _ \<Rightarrow> k < length (tb_tasks (bf_bundle f)))"

interpretation bundles_pool:
  upload_pool "length bundles" p "launch_bundle p bundles" bundle_rest "bundle_ok bundles" "map tb_tasks bundles"
  for p bundles
  by unfold_locales (auto simp: launch_bundle_def bundle_rest_def bundle_ok_def Let_def)


section \<open>Runs of artifacts\<close>

text \<open>The states of \<open>runUploadTasks\<close> after \<open>k\<close> replies, in any order.\<close>

inductive tasks_run ::
  "run_params \<Rightarrow> upload_task list \<Rightarrow> progress_step list \<Rightarrow> nat \<Rightarrow> artifact_flight upload_run \<Rightarrow> bool"
  for p tasks steps where
  start: "tasks_run p tasks steps 0 (start_upload_tasks p tasks steps)"
| reply: "tasks_run p tasks steps k s \<Longrightarrow> i < length (ur_flights s) \<Longrightarrow>
    tasks_run p tasks steps (Suc k) (artifact_reply p tasks i failure s)"

lemma artifact_reply_inv:
  assumes "tasks_pool.settled_inv tasks p s" "i < length (ur_flights s)"
  shows "tasks_pool.settled_inv tasks p (artifact_reply p tasks i failure s)"
proof (cases failure)
  case None
  show ?thesis
    unfolding artifact_reply_def Let_def None option.case
    by (rule tasks_pool.flight_done_inv [OF assms, where good = "[fl_task (ur_flights s ! i)]" and bad = "[]"])
      (simp add: tasks_pool.records_reply_def)
next
  case (Some message)
  show ?thesis
    unfolding artifact_reply_def Let_def Some option.case
    by (rule tasks_pool.flight_done_inv [OF assms, where good = "[]" and bad = "[(fl_task (ur_flights s ! i), message)]"])
      (simp add: tasks_pool.records_reply_def)
qed

lemma tasks_run_inv: "tasks_run p tasks steps k s \<Longrightarrow> tasks_pool.settled_inv tasks p s"
  by (induction rule: tasks_run.induct) (simp_all add: start_upload_tasks_def tasks_pool.new_run_settled artifact_reply_inv)

lemma flight_done_replies:
  "ur_accepted (flight_done (length tasks) p (launch_artifact p tasks) i s) = ur_accepted s"
  "ur_rejected (flight_done (length tasks) p (launch_artifact p tasks) i s) = ur_rejected s"
  by (simp_all add: flight_done_def launchNext_def)

lemma tasks_run_count:
  "tasks_run p tasks steps k s \<Longrightarrow>
     length (ur_accepted s) + length (ur_rejected s) = k \<and> ur_nextIndex s = k + length (ur_flights s)"
proof (induction rule: tasks_run.induct)
  case start
  show ?case
    using tasks_pool.launch_loop_diff [of "length tasks" tasks p "new_run steps (length tasks)"]
    by (simp add: start_upload_tasks_def launchNext_def new_run_def)
next
  case (reply k s i failure)
  obtain s' where eq: "artifact_reply p tasks i failure s = flight_done (length tasks) p (launch_artifact p tasks) i s'"
    and s': "ur_flights s' = ur_flights s" "ur_nextIndex s' = ur_nextIndex s"
      "length (ur_accepted s') + length (ur_rejected s') = Suc (length (ur_accepted s) + length (ur_rejected s))"
    by (cases failure) (simp_all add: artifact_reply_def Let_def)
  show ?case
    using reply tasks_pool.flight_done_diff [of i s' tasks p] s' by (simp add: eq flight_done_replies)
qed

lemma tasks_run_bounds:
  assumes "tasks_run p tasks steps k s"
  shows "ur_nextIndex s \<le> length tasks" and "length (ur_flights s) \<le> rp_concurrency p"
    and "0 < rp_concurrency p \<Longrightarrow> ur_flights s = [] \<Longrightarrow> ur_result s \<noteq> None"
  using tasks_run_inv [OF assms] by (auto simp: tasks_pool.settled_inv_def tasks_pool.pool_inv_def)

text \<open>One small task, run alone and accepted.\<close>

definition sample_target :: upload_target where
  "sample_target = \<lparr>ut_baseUrl = ''http://sp'', ut_mduPath = ''/mdu'', ut_manifestPath = ''/manifest'',
     ut_shardPath = None, ut_bundlePath = None, ut_label = None\<rparr>"

definition sample_upload_task :: upload_task where
  "sample_upload_task =
     \<lparr>ta_stepIndex = - 1,
      ta_request = \<lparr>rq_dealId = ''1'', rq_manifestRoot = ''0x00'', rq_previousManifestRoot = None, rq_uploadGeneration = None,
        rq_target = sample_target, rq_artifact = manifest_artifact [1] None\<rparr>\<rparr>"

definition sample_params :: run_params where
  "sample_params = \<lparr>rp_concurrency = 2, rp_continueOnError = False, rp_trackProgress = False, rp_trackTaskEvents = False,
     rp_now = of_nat\<rparr>"

lemma start_single:
  assumes "0 < rp_concurrency p"
  shows "\<exists>f. ur_flights (start_upload_tasks p [t] steps) = [f] \<and> fl_task f = t"
    and "ur_accepted (start_upload_tasks p [t] steps) = []" and "ur_rejected (start_upload_tasks p [t] steps) = []"
  using assms
  by (simp_all add: start_upload_tasks_def launchNext_def can_launch_def new_run_def truthy_def launch_artifact_def Let_def)

lemma single_reply:
  fixes t :: upload_task and failure :: "string option" and steps :: "progress_step list"
  assumes "0 < rp_concurrency p"
  defines "s \<equiv> artifact_reply p [t] 0 failure (start_upload_tasks p [t] steps)"
  shows "tasks_run p [t] steps 1 s" and "ur_result s \<noteq> None"
    and "failure = None \<Longrightarrow> ur_accepted s = [t] \<and> ur_rejected s = []"
    and "failure = Some m \<Longrightarrow> ur_accepted s = [] \<and> ur_rejected s = [(t, m)]"
proof -
  obtain f where f: "ur_flights (start_upload_tasks p [t] steps) = [f]" "fl_task f = t"
    using start_single(1) [OF assms(1)] by blast
  show run: "tasks_run p [t] steps 1 s"
    unfolding s_def using tasks_run.reply [OF tasks_run.start, of 0 p "[t]" steps failure] f by simp
  have "ur_flights s = []"
    using tasks_run_count [OF run] tasks_run_bounds(1) [OF run] by simp
  then show "ur_result s \<noteq> None"
    using tasks_run_bounds(3) [OF run assms(1)] by simp
  show "failure = None \<Longrightarrow> ur_accepted s = [t] \<and> ur_rejected s = []"
    and "failure = Some m \<Longrightarrow> ur_accepted s = [] \<and> ur_rejected s = [(t, m)]"
    using start_single(2,3) [OF assms(1), of t steps] f flight_done_replies [of "[t]"]
    by (simp_all add: s_def artifact_reply_def Let_def)
qed

lemma sample_params_concurrency: "0 < rp_concurrency sample_params"
  by (simp add: sample_params_def)

text \<open>
  C30: The runner of single artifacts (\<open>runUploadTasks\<close>) reports what the transport answered. In
  every order of replies a result is only given when no request is in flight. The result is ok exactly when every rejection had an empty message;
  otherwise its error is the first rejection's message that is not empty. When nothing was
  rejected, or errors do not stop the run, every task was sent and answered exactly once.
\<close>

theorem upload_tasks_outcome:
  assumes "tasks_run p tasks steps k s" "ur_result s = Some r"
  shows "ur_flights s = []
    \<and> (re_ok r \<longleftrightarrow> (\<forall>x \<in> set (ur_rejected s). snd x = []))
    \<and> (\<not> re_ok r \<longrightarrow> re_error r = find (\<lambda>m. m \<noteq> []) (map snd (ur_rejected s)))
    \<and> (rp_continueOnError p \<or> ur_rejected s = [] \<longrightarrow>
         mset (ur_accepted s @ map fst (ur_rejected s)) = mset tasks)"
  using tasks_pool.settled_result [OF tasks_run_inv [OF assms(1)] assms(2)] by (simp add: comp_def)

theorem upload_tasks_outcome_witness:
  "\<exists>(s :: artifact_flight upload_run) r. ur_result s = Some r \<and> re_ok r \<and> mset (ur_accepted s) = {#sample_upload_task#}"
proof -
  note k = single_reply [OF sample_params_concurrency, where t = sample_upload_task and failure = None and steps = "[]"]
  then obtain r where r: "ur_result (artifact_reply sample_params [sample_upload_task] 0 None
      (start_upload_tasks sample_params [sample_upload_task] [])) = Some r"
    by blast
  from upload_tasks_outcome [OF k(1) r] show ?thesis
    using r k(3) by auto
qed

text \<open>
  A rejection with an empty message counts as none: the only task of this run was rejected,
  and the run's result is ok.
\<close>

theorem empty_message_reported_ok:
  defines "s \<equiv> artifact_reply sample_params [sample_upload_task] 0 (Some [])
      (start_upload_tasks sample_params [sample_upload_task] [])"
  shows "tasks_run sample_params [sample_upload_task] [] 1 s \<and> ur_rejected s = [(sample_upload_task, [])]
    \<and> ur_accepted s = [] \<and> (\<exists>r. ur_result s = Some r \<and> re_ok r)"
proof -
  note k = single_reply [OF sample_params_concurrency, where t = sample_upload_task and failure = "Some []" and steps = "[]", folded s_def]
  then obtain r where r: "ur_result s = Some r"
    by blast
  have "ur_rejected s = [(sample_upload_task, [])] \<and> ur_accepted s = []"
    using k(4) [of "[]"] by simp
  then show ?thesis
    using k(1) r tasks_pool.settled_result(2) [OF tasks_run_inv [OF k(1)] r] by auto
qed

text \<open>
  C31: A run of single artifacts ends. With a positive concurrency, a run without a result has a
  request in flight whose reply resumes it; there are never more requests in flight than the
  concurrency; and a run receives at most one reply per task, so it has its result at the
  latest when every task was answered.
\<close>

theorem upload_tasks_terminate:
  assumes "tasks_run p tasks steps k s" "0 < rp_concurrency p"
  shows "k \<le> length tasks \<and> length (ur_flights s) \<le> rp_concurrency p
    \<and> (ur_result s = None \<longrightarrow> ur_flights s \<noteq> []) \<and> (k = length tasks \<longrightarrow> ur_result s \<noteq> None)"
  using tasks_run_bounds [OF assms(1)] tasks_run_count [OF assms(1)] assms(2) by auto

theorem upload_tasks_terminate_witness:
  "ur_result (artifact_reply sample_params [sample_upload_task] 0 None
     (start_upload_tasks sample_params [sample_upload_task] [])) \<noteq> None"
  using upload_tasks_terminate [OF single_reply(1) [OF sample_params_concurrency, where t = sample_upload_task
      and failure = None and steps = "[]"] sample_params_concurrency] by simp


section \<open>Runs of bundles\<close>

inductive bundles_run :: "run_params \<Rightarrow> task_bundle list \<Rightarrow> progress_step list \<Rightarrow> bundle_flight upload_run \<Rightarrow> bool"
  for p bundles steps where
  start: "bundles_run p bundles steps (start_upload_bundles p bundles steps)"
| bundle_replied: "bundles_run p bundles steps s \<Longrightarrow> i < length (ur_flights s) \<Longrightarrow> bf_phase (ur_flights s ! i) = SendingBundle \<Longrightarrow>
    bundles_run p bundles steps (bundle_reply p bundles i bundleFailure s)"
| artifact_replied: "bundles_run p bundles steps s \<Longrightarrow> i < length (ur_flights s) \<Longrightarrow> bf_phase (ur_flights s ! i) \<noteq> SendingBundle \<Longrightarrow>
    bundles_run p bundles steps (fallback_reply p bundles i failure s)"

definition nonempty_bundles :: "task_bundle list \<Rightarrow> bool" where
  "nonempty_bundles bundles \<longleftrightarrow> list_all (\<lambda>b. tb_tasks b \<noteq> []) bundles"

lemma settled_bundle_ok:
  "bundles_pool.settled_inv bundles p s \<Longrightarrow> i < length (ur_flights s) \<Longrightarrow> bundle_ok bundles (ur_flights s ! i)"
  by (auto simp: bundles_pool.settled_inv_def bundles_pool.pool_inv_def list_all_length)

text \<open>The fallback loop goes on with its \<open>k\<close>-th artifact after \<open>good\<close> or \<open>bad\<close> was recorded.\<close>

lemma fallback_next_inv:
  assumes "bundles_pool.settled_inv bundles p s" "i < length (ur_flights s)"
    and "k \<le> length (tb_tasks (bf_bundle (ur_flights s ! i)))"
    and rec: "\<And>mid. list_all (bundle_ok bundles) mid \<Longrightarrow>
          concat (map bundle_rest mid) = drop k (tb_tasks (bf_bundle (ur_flights s ! i))) \<Longrightarrow>
          bundles_pool.records_reply p bundles s i good bad mid s'"
  shows "bundles_pool.settled_inv bundles p (fallback_next p bundles i k reason s')"
proof -
  let ?f = "ur_flights s ! i"
  have ok: "bundle_ok bundles ?f"
    by (rule settled_bundle_ok [OF assms(1,2)])
  show ?thesis
  proof (cases "k < length (tb_tasks (bf_bundle ?f))")
    case True
    let ?g = "?f\<lparr>bf_phase := SendingArtifact k reason\<rparr>"
    have r: "bundles_pool.records_reply p bundles s i good bad [?g] s'"
      using ok True by (intro rec) (simp_all add: bundle_ok_def bundle_rest_def)
    have fl: "ur_flights s' = ur_flights s"
      using r by (simp add: bundles_pool.records_reply_def)
    let ?st = "ur_stats s'"
    let ?s'' = "s'\<lparr>ur_stats := ?st\<lparr>ts_perArtifactCount := ts_perArtifactCount ?st + 1, ts_requestCount := ts_requestCount ?st + 1,
        ts_bytesSent := ts_bytesSent ?st + artifactPayloadBytes (tb_tasks (bf_bundle ?f) ! k)\<rparr>\<rparr>"
    have "bundles_pool.records_reply p bundles s i good bad [?g] ?s''"
      using r by (simp add: bundles_pool.records_reply_def)
    from bundles_pool.flight_moves_inv [OF assms(1,2) this] show ?thesis
      using True fl by (simp add: fallback_next_def Let_def)
  next
    case False
    have r: "bundles_pool.records_reply p bundles s i good bad [] s'"
      using False assms(3) by (intro rec) simp_all
    then have fl: "ur_flights s' = ur_flights s"
      by (simp add: bundles_pool.records_reply_def)
    from bundles_pool.flight_done_inv [OF assms(1,2) r] show ?thesis
      using False fl by (simp add: fallback_next_def Let_def)
  qed
qed

lemma completeBundle_keeps [simp]:
  "ur_nextIndex (completeBundle p f e s) = ur_nextIndex s" "ur_active (completeBundle p f e s) = ur_active s"
  "ur_firstError (completeBundle p f e s) = ur_firstError s" "ur_result (completeBundle p f e s) = ur_result s"
  "ur_flights (completeBundle p f e s) = ur_flights s" "ur_accepted (completeBundle p f e s) = ur_accepted s"
  "ur_rejected (completeBundle p f e s) = ur_rejected s"
  by (simp_all add: completeBundle_def Let_def)

lemma bundle_reply_inv:
  assumes "bundles_pool.settled_inv bundles p s" "i < length (ur_flights s)" "nonempty_bundles bundles"
    and "bf_phase (ur_flights s ! i) = SendingBundle"
  shows "bundles_pool.settled_inv bundles p (bundle_reply p bundles i failure s)"
proof -
  let ?f = "ur_flights s ! i"
  let ?ts = "tb_tasks (bf_bundle ?f)"
  have ne: "?ts \<noteq> []"
    using settled_bundle_ok [OF assms(1,2)] assms(3) by (auto simp: bundle_ok_def nonempty_bundles_def list_all_iff)
  have rest: "bundle_rest ?f = ?ts"
    by (simp add: bundle_rest_def assms(4))
  show ?thesis
  proof (cases failure)
    case None
    show ?thesis
      unfolding bundle_reply_def Let_def None option.case
      by (rule bundles_pool.flight_done_inv [OF assms(1,2), where good = ?ts and bad = "[]"])
        (simp add: bundles_pool.records_reply_def rest)
  next
    case (Some e)
    show ?thesis
    proof (cases "isBundleUnsupportedError e")
      case True
      show ?thesis
        unfolding bundle_reply_def Let_def Some option.case fallbackToArtifacts_def
        using True by (auto intro!: fallback_next_inv [OF assms(1,2), where good = "[]" and bad = "[]"]
            simp: bundles_pool.records_reply_def rest)
    next
      case False
      have "bundles_pool.settled_inv bundles p (flight_done (length bundles) p (launch_bundle p bundles) i
          (completeBundle p ?f (Some (snd e))
            (note_error (snd e) (s\<lparr>ur_rejected := ur_rejected s @ map (\<lambda>t. (t, snd e)) ?ts\<rparr>))))"
        using ne
        by (intro bundles_pool.flight_done_inv [OF assms(1,2), where good = "[]" and bad = "map (\<lambda>t. (t, snd e)) ?ts"])
          (cases ?ts; simp add: bundles_pool.records_reply_def rest comp_def)
      then show ?thesis
        using False by (simp add: bundle_reply_def Let_def Some)
    qed
  qed
qed

lemma fallback_reply_inv:
  assumes "bundles_pool.settled_inv bundles p s" "i < length (ur_flights s)"
    and "bf_phase (ur_flights s ! i) = SendingArtifact k reason"
  shows "bundles_pool.settled_inv bundles p (fallback_reply p bundles i failure s)"
proof -
  let ?f = "ur_flights s ! i"
  let ?ts = "tb_tasks (bf_bundle ?f)"
  have k: "k < length ?ts"
    using settled_bundle_ok [OF assms(1,2)] assms(3) by (simp add: bundle_ok_def)
  have rest: "bundle_rest ?f = ?ts ! k # drop (k + 1) ?ts"
    using k by (simp add: bundle_rest_def assms(3) Cons_nth_drop_Suc)
  show ?thesis
  proof (cases failure)
    case None
    show ?thesis
      unfolding fallback_reply_def Let_def assms(3) bundle_phase.case None option.case
      using k by (intro fallback_next_inv [OF assms(1,2), where good = "[?ts ! k]" and bad = "[]"])
        (simp_all add: bundles_pool.records_reply_def rest)
  next
    case (Some message)
    show ?thesis
    proof (cases "rp_continueOnError p")
      case True
      then show ?thesis
        unfolding fallback_reply_def Let_def assms(3) bundle_phase.case Some option.case if_P [OF True]
        using k by (intro fallback_next_inv [OF assms(1,2), where good = "[]" and bad = "[(?ts ! k, message)]"])
          (simp_all add: bundles_pool.records_reply_def rest)
    next
      case False
      show ?thesis
        unfolding fallback_reply_def Let_def assms(3) bundle_phase.case Some option.case if_not_P [OF False]
        by (rule bundles_pool.flight_done_inv [OF assms(1,2), where good = "[]" and bad = "[(?ts ! k, message)]"])
          (simp add: bundles_pool.records_reply_def False)
    qed
  qed
qed

lemma bundles_run_inv:
  assumes "bundles_run p bundles steps s" "nonempty_bundles bundles"
  shows "bundles_pool.settled_inv bundles p s"
  using assms(1)
proof (induction rule: bundles_run.induct)
  case start
  show ?case
    unfolding start_upload_bundles_def by (rule bundles_pool.new_run_settled)
next
  case (bundle_replied s i bundleFailure)
  then show ?case
    using bundle_reply_inv assms(2) by blast
next
  case (artifact_replied s i failure)
  then show ?case
    using fallback_reply_inv by (cases "bf_phase (ur_flights s ! i)") blast+
qed

text \<open>
  C32: The runner of bundles (\<open>runUploadTaskBundles\<close>) reports what the transport answered, whether
  a bundle was accepted, refused, or unsupported and sent artifact by artifact. A result is
  only given when no request is in flight; it is ok exactly when every rejection had an
  empty message and otherwise has the first message that is not empty; and when nothing was
  rejected, or errors do not stop the run, every task of every bundle was answered exactly
  once. With a positive concurrency a run without a result waits for a reply.
\<close>

theorem upload_bundles_outcome:
  assumes "bundles_run p bundles steps s" "nonempty_bundles bundles"
  shows "length (ur_flights s) \<le> rp_concurrency p
    \<and> (0 < rp_concurrency p \<and> ur_result s = None \<longrightarrow> ur_flights s \<noteq> [])
    \<and> (\<forall>r. ur_result s = Some r \<longrightarrow>
         ur_flights s = []
         \<and> (re_ok r \<longleftrightarrow> (\<forall>x \<in> set (ur_rejected s). snd x = []))
         \<and> (\<not> re_ok r \<longrightarrow> re_error r = find (\<lambda>m. m \<noteq> []) (map snd (ur_rejected s)))
         \<and> (rp_continueOnError p \<or> ur_rejected s = [] \<longrightarrow>
              mset (ur_accepted s @ map fst (ur_rejected s)) = mset (concat (map tb_tasks bundles))))"
proof -
  have inv: "bundles_pool.settled_inv bundles p s"
    by (rule bundles_run_inv [OF assms])
  then have "length (ur_flights s) \<le> rp_concurrency p"
    by (auto simp: bundles_pool.settled_inv_def bundles_pool.pool_inv_def)
  moreover have "0 < rp_concurrency p \<and> ur_result s = None \<longrightarrow> ur_flights s \<noteq> []"
    using inv by (auto simp: bundles_pool.settled_inv_def)
  ultimately show ?thesis
    using bundles_pool.settled_result [OF inv] by blast
qed

text \<open>One bundle of one task that the transport does not support: the task is sent alone.\<close>

definition sample_bundles :: "task_bundle list" where
  "sample_bundles = [\<lparr>tb_target = ''http://sp'', tb_tasks = [sample_upload_task]\<rparr>]"

definition sample_bundle_start :: "bundle_flight upload_run" where
  "sample_bundle_start = start_upload_bundles sample_params sample_bundles []"

definition sample_bundle_fallback :: "bundle_flight upload_run" where
  "sample_bundle_fallback =
     bundle_reply sample_params sample_bundles 0 (Some (''BundleUnsupportedUploadError'', [])) sample_bundle_start"

definition sample_bundle_done :: "bundle_flight upload_run" where
  "sample_bundle_done = fallback_reply sample_params sample_bundles 0 None sample_bundle_fallback"

lemma sample_bundle_start_facts:
  "\<exists>f. ur_flights sample_bundle_start = [f] \<and> bf_bundle f = hd sample_bundles \<and> bf_phase f = SendingBundle"
  "ur_accepted sample_bundle_start = []" "ur_rejected sample_bundle_start = []" "ur_nextIndex sample_bundle_start = 1"
  "ur_active sample_bundle_start = 1"
  by (simp_all add: sample_bundle_start_def start_upload_bundles_def launchNext_def can_launch_def new_run_def truthy_def
      sample_params_def sample_bundles_def)
    (simp_all add: launch_bundle_def Let_def)

lemma sample_bundle_fallback_facts:
  "\<exists>f. ur_flights sample_bundle_fallback = [f] \<and> bf_bundle f = hd sample_bundles
     \<and> bf_phase f = SendingArtifact 0 ''bundle upload unsupported''"
  "ur_accepted sample_bundle_fallback = []" "ur_rejected sample_bundle_fallback = []" "ur_nextIndex sample_bundle_fallback = 1"
  "ur_active sample_bundle_fallback = 1"
  using sample_bundle_start_facts
  by (auto simp: sample_bundle_fallback_def bundle_reply_def isBundleUnsupportedError_def fallbackToArtifacts_def
      fallback_next_def sample_bundles_def Let_def)

lemma sample_bundle_done_facts: "ur_flights sample_bundle_done = []" "ur_rejected sample_bundle_done = []"
  using sample_bundle_fallback_facts
  by (auto simp: sample_bundle_done_def fallback_reply_def fallback_next_def sample_bundles_def Let_def flight_done_def
      launchNext_def)

lemma sample_bundle_run: "bundles_run sample_params sample_bundles [] sample_bundle_done"
proof -
  have "bundles_run sample_params sample_bundles [] sample_bundle_fallback"
    unfolding sample_bundle_fallback_def
    by (rule bundles_run.bundle_replied)
      (use sample_bundle_start_facts in \<open>auto simp: sample_bundle_start_def bundles_run.start\<close>)
  then show ?thesis
    unfolding sample_bundle_done_def
    by (rule bundles_run.artifact_replied) (use sample_bundle_fallback_facts in auto)
qed

theorem upload_bundles_outcome_witness:
  "\<exists>r. ur_result sample_bundle_done = Some r \<and> re_ok r \<and> mset (ur_accepted sample_bundle_done) = {#sample_upload_task#}"
proof -
  have "nonempty_bundles sample_bundles"
    by (simp add: nonempty_bundles_def sample_bundles_def)
  from upload_bundles_outcome [OF sample_bundle_run this] show ?thesis
    using sample_bundle_done_facts sample_params_concurrency by (auto simp: sample_bundles_def)
qed


section \<open>The tasks of an upload\<close>

lemma add_to_bundles_tasks:
  "mset (concat (map tb_tasks (add_to_bundles task bs))) = add_mset task (mset (concat (map tb_tasks bs)))"
  by (induction bs) auto

lemma add_to_bundles_nonempty: "nonempty_bundles bs \<Longrightarrow> nonempty_bundles (add_to_bundles task bs)"
  by (induction bs) (auto simp: nonempty_bundles_def)

lemma group_fold:
  "nonempty_bundles bs \<Longrightarrow>
     nonempty_bundles (foldl (\<lambda>bs task. add_to_bundles task bs) bs tasks)
     \<and> mset (concat (map tb_tasks (foldl (\<lambda>bs task. add_to_bundles task bs) bs tasks)))
       = mset (concat (map tb_tasks bs)) + mset tasks"
  by (induction tasks arbitrary: bs) (simp_all add: add_to_bundles_nonempty add_to_bundles_tasks)

lemma group_tasks:
  "nonempty_bundles (groupUploadTasksByTarget tasks)"
  "mset (concat (map tb_tasks (groupUploadTasksByTarget tasks))) = mset tasks"
  using group_fold [of "[]" tasks] by (simp_all add: groupUploadTasksByTarget_def nonempty_bundles_def)

text \<open>The requests a striped upload owes: metadata to every metadata target, shards to their slots.\<close>

definition shard_requests :: "striped_input \<Rightarrow> prepared_shard_set \<Rightarrow> upload_request list" where
  "shard_requests input s =
     map (\<lambda>slot. content_request input (the (target_at (sd_shardTargets input) slot))
                   (shard_artifact (pss_index s) slot (pss_shards s ! slot))) [0..<length (pss_shards s)]"

definition striped_requests :: "striped_input \<Rightarrow> bytes \<Rightarrow> upload_request list" where
  "striped_requests input blob =
     concat (map (\<lambda>mdu. map (\<lambda>target. content_request input target (mdu_artifact mdu)) (sd_metadataTargets input))
              (sd_metadataMdus input))
     @ map (\<lambda>target. content_request input target (manifest_artifact blob (uc_manifestBlobFullSize input)))
         (sd_metadataTargets input)
     @ concat (map (shard_requests input) (or_empty (sd_shardSets input)))"

lemma shard_tasks_requests:
  "shard_tasks track steps input index slot shards = Inr ts \<Longrightarrow>
     map ta_request ts = map (\<lambda>j. content_request input (the (target_at (sd_shardTargets input) (slot + j)))
       (shard_artifact index (slot + j) (shards ! j))) [0..<length shards]"
proof (induction shards arbitrary: slot ts)
  case (Cons shard shards)
  then obtain target rest where t: "target_at (sd_shardTargets input) slot = Some target"
    and r: "shard_tasks track steps input index (slot + 1) shards = Inr rest"
    and ts: "ts = shard_task track steps input target index slot shard # rest"
    by (auto simp: sbind_eq_Inr split: option.splits)
  have "[0..<length (shard # shards)] = 0 # map Suc [0..<length shards]"
    by (simp add: map_Suc_upt upt_conv_Cons del: upt_Suc)
  then show ?case
    using Cons.IH [OF r] by (simp add: ts t shard_task_def comp_def)
qed simp

definition round_requests :: "striped_input \<Rightarrow> bytes \<Rightarrow> nat \<Rightarrow> upload_request list" where
  "round_requests input blob i =
     (if i < length (sd_metadataMdus input)
      then map (\<lambda>target. content_request input target (mdu_artifact (sd_metadataMdus input ! i))) (sd_metadataTargets input)
      else if i = length (sd_metadataMdus input)
      then map (\<lambda>target. content_request input target (manifest_artifact blob (uc_manifestBlobFullSize input))) (sd_metadataTargets input)
      else [])
     @ (if i < length (or_empty (sd_shardSets input)) then shard_requests input (or_empty (sd_shardSets input) ! i) else [])"

lemma striped_rounds_requests:
  "striped_rounds track steps input blob rounds = Inr ts \<Longrightarrow>
     map ta_request ts = concat (map (round_requests input blob) rounds)"
proof (induction rounds arbitrary: ts)
  case (Cons i rounds)
  let ?sets = "or_empty (sd_shardSets input)"
  obtain m shards rest where ts: "ts = m @ shards @ rest"
    and m: "m = (if i < length (sd_metadataMdus input)
             then map (\<lambda>target. mdu_task track steps input target (sd_metadataMdus input ! i)) (sd_metadataTargets input)
             else if i = length (sd_metadataMdus input)
             then map (\<lambda>target. manifest_task track steps input target blob) (sd_metadataTargets input)
             else [])"
    and shards: "if i < length ?sets then shard_tasks track steps input (pss_index (?sets ! i)) 0 (pss_shards (?sets ! i)) = Inr shards
        else shards = []"
    and rest: "striped_rounds track steps input blob rounds = Inr rest"
    using Cons.prems by (auto simp: Let_def sbind_eq_Inr split: if_splits sum.splits)
  have "map ta_request m @ map ta_request shards = round_requests input blob i"
    using shards shard_tasks_requests [of track steps input _ 0]
    by (auto simp: m round_requests_def shard_requests_def mdu_task_def manifest_task_def split: if_splits)
  then show ?case
    using Cons.IH [OF rest] by (simp add: ts flip: append_assoc)
qed simp

lemma mset_concat_append:
  "mset (concat (map (\<lambda>i. f i @ g i) xs)) = mset (concat (map f xs)) + mset (concat (map g xs))"
  by (induction xs) auto

lemma concat_map_nth_upto:
  assumes "length xs \<le> n"
  shows "concat (map (\<lambda>i. if i < length xs then f (xs ! i) else []) [0..<n]) = concat (map f xs)"
proof -
  have "[0..<n] = [0..<length xs] @ [length xs..<n]"
    using assms by (metis le_add_diff_inverse upt_add_eq_append zero_le)
  moreover have "map (\<lambda>i. if i < length xs then f (xs ! i) else []) [0..<length xs] = map f xs"
    by (rule nth_equalityI) simp_all
  ultimately show ?thesis
    by simp
qed

lemma concat_map_at: "concat (map (\<lambda>i. if i = a then xs else []) [0..<n]) = (if a < n then xs else [])"
  by (induction n) auto

lemma round_requests_all:
  assumes "length (sd_metadataMdus input) + 1 \<le> n" "length (or_empty (sd_shardSets input)) \<le> n"
  shows "mset (concat (map (round_requests input blob) [0..<n])) = mset (striped_requests input blob)"
proof -
  let ?m = "sd_metadataMdus input"
  let ?meta = "\<lambda>mdu. map (\<lambda>target. content_request input target (mdu_artifact mdu)) (sd_metadataTargets input)"
  let ?man = "map (\<lambda>target. content_request input target (manifest_artifact blob (uc_manifestBlobFullSize input))) (sd_metadataTargets input)"
  have eq: "round_requests input blob = (\<lambda>i. ((if i < length ?m then ?meta (?m ! i) else []) @ (if i = length ?m then ?man else []))
      @ (if i < length (or_empty (sd_shardSets input)) then shard_requests input (or_empty (sd_shardSets input) ! i) else []))"
    by (auto simp: round_requests_def fun_eq_iff)
  have man: "concat (map (\<lambda>i. if i = length ?m then ?man else []) [0..<n]) = ?man"
    using assms(1) by (simp add: concat_map_at)
  show ?thesis
    unfolding eq mset_concat_append man
    using concat_map_nth_upto [of ?m n ?meta] concat_map_nth_upto [of "or_empty (sd_shardSets input)" n "shard_requests input"] assms
    by (simp add: striped_requests_def)
qed

text \<open>An upload that was started and has ended: its result, and the tasks accepted and rejected.\<close>

inductive upload_ends ::
  "upload_start \<Rightarrow> upload_result \<Rightarrow> upload_task list \<Rightarrow> (upload_task \<times> string) list \<Rightarrow> bool" where
  tasks: "tasks_run p tasks steps k s \<Longrightarrow> ur_result s = Some r \<Longrightarrow>
    upload_ends (RunTasks p tasks (start_upload_tasks p tasks steps)) r (ur_accepted s) (ur_rejected s)"
| bundles: "bundles_run p bundles steps s \<Longrightarrow> ur_result s = Some r \<Longrightarrow>
    upload_ends (RunBundles p bundles (start_upload_bundles p bundles steps)) r (ur_accepted s) (ur_rejected s)"

inductive_cases upload_ends_RefusedE [elim!]: "upload_ends (Refused x) r acc rej"
inductive_cases upload_ends_TasksE [elim!]: "upload_ends (RunTasks p tasks s0) r acc rej"
inductive_cases upload_ends_BundlesE [elim!]: "upload_ends (RunBundles p bundles s0) r acc rej"

lemma striped_run_answers:
  assumes "upload_ends (uploadStriped eg cb input) r acc rej"
  obtains steps tasks where "striped_tasks (cb_onProgress cb) input = Inr (steps, tasks)"
    and "mset (acc @ map fst rej) = mset tasks" and "re_ok r \<longleftrightarrow> (\<forall>x \<in> set rej. snd x = [])"
proof (cases "striped_tasks (cb_onProgress cb) input")
  case (Inl x)
  then show thesis
    using assms by (auto simp: uploadStriped_def)
next
  case (Inr st)
  obtain steps tasks where st: "st = (steps, tasks)"
    by (cases st)
  have "mset (acc @ map fst rej) = mset tasks \<and> (re_ok r \<longleftrightarrow> (\<forall>x \<in> set rej. snd x = []))"
  proof (cases "eg_sendBundle eg")
    case False
    then obtain p steps' k s where run: "tasks_run p tasks steps' k s" "ur_result s = Some r"
      and s: "acc = ur_accepted s" "rej = ur_rejected s" and p: "rp_continueOnError p"
      using assms by (auto simp: uploadStriped_def Inr st Let_def params_def)
    show ?thesis
      using tasks_pool.settled_result(2,4) [OF tasks_run_inv [OF run(1)] run(2)] p by (simp add: s comp_def)
  next
    case True
    let ?b = "groupUploadTasksByTarget tasks"
    from True obtain p steps' s where run: "bundles_run p ?b steps' s" "ur_result s = Some r"
      and s: "acc = ur_accepted s" "rej = ur_rejected s" and p: "rp_continueOnError p"
      using assms by (auto simp: uploadStriped_def Inr st Let_def params_def)
    show ?thesis
      using bundles_pool.settled_result(2,4) [OF bundles_run_inv [OF run(1) group_tasks(1)] run(2)] p group_tasks(2) [of tasks]
      by (simp add: s)
  qed
  then show thesis
    using that Inr st by blast
qed

text \<open>
  C33: A striped upload answers for everything it owes. When the upload has ended, with bundles
  or without, the requests that were accepted or rejected are exactly: every metadata MDU and
  the manifest to every metadata target, and every shard of every shard set to the target of
  its slot, each once. In particular an upload that ends without rejections has delivered
  all of them, and its result is ok.
\<close>

theorem striped_upload_answers:
  assumes "upload_ends (uploadStriped eg cb input) r acc rej"
  shows "\<exists>blob. manifest_blob input = Some blob
    \<and> mset (map ta_request (acc @ map fst rej)) = mset (striped_requests input blob)
    \<and> (rej = [] \<longrightarrow> re_ok r)"
proof -
  obtain steps tasks where st: "striped_tasks (cb_onProgress cb) input = Inr (steps, tasks)"
    and m: "mset (acc @ map fst rej) = mset tasks" and ok: "re_ok r \<longleftrightarrow> (\<forall>x \<in> set rej. snd x = [])"
    by (rule striped_run_answers [OF assms])
  let ?rounds = "max (length (sd_metadataMdus input) + 1) (length (or_empty (sd_shardSets input)))"
  obtain blob where blob: "manifest_blob input = Some blob"
    and rounds: "striped_rounds (cb_onProgress cb) steps input blob [0..<?rounds] = Inr tasks"
    using st by (auto simp: striped_tasks_def Let_def split: option.splits sum.splits if_splits)
  have "mset (map ta_request (acc @ map fst rej)) = image_mset ta_request (mset tasks)"
    using m by (metis mset_map)
  also have "\<dots> = mset (concat (map (round_requests input blob) [0..<?rounds]))"
    using striped_rounds_requests [OF rounds] by (metis mset_map)
  also have "\<dots> = mset (striped_requests input blob)"
    by (rule round_requests_all) simp_all
  finally show ?thesis
    using blob ok by auto
qed

definition sample_striped :: striped_input where
  "sample_striped =
     \<lparr>uc_dealId = ''1'', uc_manifestRoot = ''0x00'', uc_previousManifestRoot = None, uc_manifestBlob = Some [1],
      uc_manifestBlobFullSize = None, sd_metadataMdus = [], sd_shardSets = None, sd_metadataTargets = [sample_target],
      sd_shardTargets = None\<rparr>"

definition sample_engine :: engine where
  "sample_engine = createUploadEngine None False"

definition sample_callbacks :: callbacks where
  "sample_callbacks = \<lparr>cb_onProgress = False, cb_onTaskEvent = False, cb_now = of_nat\<rparr>"

theorem striped_upload_answers_witness:
  "\<exists>r acc. upload_ends (uploadStriped sample_engine sample_callbacks sample_striped) r acc [] \<and> re_ok r"
proof -
  let ?p = "params sample_callbacks 1 True []"
  let ?s = "start_upload_tasks ?p [sample_upload_task] []"
  have eq: "uploadStriped sample_engine sample_callbacks sample_striped = RunTasks ?p [sample_upload_task] ?s"
    by (simp add: uploadStriped_def striped_tasks_def sample_striped_def sample_callbacks_def manifest_blob_def or_empty_def
        manifest_task_def resolveStepIndex_def content_request_def sample_engine_def createUploadEngine_def
        normalizeConcurrency_def sample_upload_task_def Let_def)
  have c: "0 < rp_concurrency ?p"
    by (simp add: params_def)
  note k = single_reply [OF c, where t = sample_upload_task and failure = None and steps = "[]"]
  obtain r where r: "ur_result (artifact_reply ?p [sample_upload_task] 0 None ?s) = Some r"
    using k(2) by blast
  have e: "upload_ends (uploadStriped sample_engine sample_callbacks sample_striped) r [sample_upload_task] []"
    using upload_ends.tasks [OF k(1) r] k(3) by (simp add: eq)
  from striped_upload_answers [OF this] e show ?thesis
    by blast
qed

end
