(* ===== verification/UploadPipeline.thy ===== *)
theory UploadPipeline
  imports UploadEngineCorrect
begin

text \<open>
  The pipelined upload of a generation (\<open>lib/upload/engine.ts\<close>): a producer yields artifacts
  while a fixed number of workers send them, and the manifest follows when all artifacts are
  sent. Workers that find nothing to do wait until they are woken. The events are the
  producer's items and its end, the resumption of a worker, and the replies of the transport.
\<close>


section \<open>Producer and workers\<close>

record pipelined_artifact =
  pa_target :: upload_target
  pa_artifact :: sparse_artifact_input

record pipelined_input =
  pi_dealId :: string
  pi_previousManifestRoot :: "string option"
  pi_uploadGeneration :: string


text \<open>
  A worker waits to be woken, is about to look at the queue, waits for the reply to a
  request, or has returned.
\<close>

datatype worker_phase = Waiting | Checking | Uploading upload_request rat | Returned

record pipe_run =
  pp_queue :: "pipelined_artifact list"
  pp_producerDone :: bool
  pp_firstError :: "string option"
  pp_stats :: transport_stats
  pp_workers :: "worker_phase list"
  pp_ticks :: nat
  pp_events :: "task_event list"
  pp_produced :: "pipelined_artifact list"
  pp_accepted :: "upload_request list"
  pp_rejected :: "(upload_request \<times> string) list"
  pp_producerError :: "string option"

definition artifact_request :: "pipelined_input \<Rightarrow> pipelined_artifact \<Rightarrow> upload_request" where
  "artifact_request input item =
     \<lparr>rq_dealId = pi_dealId input, rq_manifestRoot = [], rq_previousManifestRoot = pi_previousManifestRoot input,
      rq_uploadGeneration = Some (pi_uploadGeneration input), rq_target = pa_target item, rq_artifact = pa_artifact item\<rparr>"

definition wakeWorkers :: "pipe_run \<Rightarrow> pipe_run" where
  "wakeWorkers s = s\<lparr>pp_workers := map (\<lambda>w. if w = Waiting then Checking else w) (pp_workers s)\<rparr>"

text \<open>\<open>waitForWork\<close> resumes at once when there is something to look at.\<close>

definition waitForWork :: "pipe_run \<Rightarrow> worker_phase" where
  "waitForWork s =
     (if pp_queue s \<noteq> [] \<or> pp_producerDone s \<or> truthy (pp_firstError s) then Checking else Waiting)"

definition pipe_event :: "event_phase \<Rightarrow> upload_request \<Rightarrow> task_event" where
  "pipe_event phase request = artifact_event phase \<lparr>ta_stepIndex = - 1, ta_request = request\<rparr>"

definition pipe_now :: "run_params \<Rightarrow> pipe_run \<Rightarrow> rat" where
  "pipe_now p s = rp_now p (pp_ticks s)"

definition pipe_emit :: "run_params \<Rightarrow> task_event \<Rightarrow> pipe_run \<Rightarrow> pipe_run" where
  "pipe_emit p event s =
     (if rp_trackTaskEvents p then s\<lparr>pp_events := pp_events s @ [event], pp_ticks := pp_ticks s + 1\<rparr> else s)"

definition new_pipe :: "run_params \<Rightarrow> pipe_run" where
  "new_pipe p =
     \<lparr>pp_queue = [], pp_producerDone = False, pp_firstError = None, pp_stats = createUploadTransportStats,
      pp_workers = replicate (max 1 (rp_concurrency p)) Waiting, pp_ticks = 0, pp_events = [],
      pp_produced = [], pp_accepted = [], pp_rejected = [], pp_producerError = None\<rparr>"

text \<open>The producer ends, with an error or without.\<close>

definition producer_end :: "string option \<Rightarrow> pipe_run \<Rightarrow> pipe_run" where
  "producer_end failure s =
     (let s1 = (case failure of
            Some message \<Rightarrow>
              (if \<not> truthy (pp_firstError s) then s\<lparr>pp_firstError := Some message, pp_producerError := Some message\<rparr>
               else s\<lparr>pp_producerError := Some message\<rparr>)
          | None \<Rightarrow> s)
      in wakeWorkers (s1\<lparr>pp_producerDone := True\<rparr>))"

text \<open>The producer yields an item; after an error it stops instead of taking it.\<close>

definition produce :: "pipelined_artifact \<Rightarrow> pipe_run \<Rightarrow> pipe_run" where
  "produce item s =
     (if truthy (pp_firstError s) then producer_end None s
      else wakeWorkers (s\<lparr>pp_queue := pp_queue s @ [item], pp_produced := pp_produced s @ [item]\<rparr>))"

text \<open>Worker \<open>i\<close> looks at the queue; \<open>uploadOne\<close> runs up to its request.\<close>

definition worker_check :: "run_params \<Rightarrow> pipelined_input \<Rightarrow> nat \<Rightarrow> pipe_run \<Rightarrow> pipe_run" where
  "worker_check p input i s =
     (if truthy (pp_firstError s) \<or> (pp_producerDone s \<and> pp_queue s = [])
      then s\<lparr>pp_workers := (pp_workers s)[i := Returned]\<rparr>
      else
        case pp_queue s of
          [] \<Rightarrow> s\<lparr>pp_workers := (pp_workers s)[i := waitForWork s]\<rparr>
        | item # queue \<Rightarrow>
            let request = artifact_request input item;
                st = pp_stats s;
                startedAt = (if rp_trackTaskEvents p then pipe_now p s else 0)
            in pipe_emit p (pipe_event PhaseStart request)
                 (s\<lparr>pp_queue := queue,
                    pp_stats := st\<lparr>ts_artifactCount := ts_artifactCount st + 1, ts_perArtifactCount := ts_perArtifactCount st + 1,
                                   ts_requestCount := ts_requestCount st + 1,
                                   ts_bytesSent := ts_bytesSent st + length (ai_bytes (rq_artifact request))\<rparr>,
                    pp_workers := (pp_workers s)[i := Uploading request startedAt]\<rparr>))"

text \<open>The reply to worker \<open>i\<close>: it looks for more work, or notes the error, wakes the others and returns.\<close>

definition worker_reply :: "run_params \<Rightarrow> nat \<Rightarrow> string option \<Rightarrow> pipe_run \<Rightarrow> pipe_run" where
  "worker_reply p i failure s =
     (case pp_workers s ! i of
        Uploading request startedAt \<Rightarrow>
          let ended = (pipe_event PhaseEnd request)\<lparr>te_durationMs := Some (pipe_now p s - startedAt)\<rparr> in
          (case failure of
             None \<Rightarrow>
               let s1 = pipe_emit p (ended\<lparr>te_ok := Some True\<rparr>) (s\<lparr>pp_accepted := pp_accepted s @ [request]\<rparr>)
               in s1\<lparr>pp_workers := (pp_workers s1)[i := waitForWork s1]\<rparr>
           | Some message \<Rightarrow>
               let s1 = pipe_emit p (ended\<lparr>te_ok := Some False, te_error := Some message\<rparr>)
                     (s\<lparr>pp_rejected := pp_rejected s @ [(request, message)]\<rparr>);
                   s2 = (if \<not> truthy (pp_firstError s1) then s1\<lparr>pp_firstError := Some message\<rparr> else s1)
               in wakeWorkers (s2\<lparr>pp_workers := (pp_workers s2)[i := Returned]\<rparr>))
      | _ \<Rightarrow> s)"

text \<open>The result, once the producer and every worker have returned.\<close>

definition pipe_result :: "pipe_run \<Rightarrow> upload_result option" where
  "pipe_result s =
     (if pp_producerDone s \<and> list_all (\<lambda>w. w = Returned) (pp_workers s) then
        Some (if truthy (pp_firstError s)
              then \<lparr>re_ok = False, re_steps = [], re_error = pp_firstError s, re_stats = Some (pp_stats s)\<rparr>
              else \<lparr>re_ok = True, re_steps = [], re_error = None, re_stats = Some (pp_stats s)\<rparr>)
      else None)"




definition pipelined_result :: "upload_result \<Rightarrow> upload_result \<Rightarrow> upload_result" where
  "pipelined_result artifactResult manifestResult =
     manifestResult\<lparr>re_stats := mergeUploadTransportStats [re_stats artifactResult, re_stats manifestResult]\<rparr>"


text \<open>The commit of prepared content; the chain committer is a port of the engine.\<close>

definition commitPreparedContent ::
  "(chain_commit_request \<Rightarrow> unit result) option \<Rightarrow> prepared_commit \<Rightarrow> chain_commit_request result" where
  "commitPreparedContent chainCommitter input =
     sbind (buildCommitRequest input) (\<lambda>request.
       case chainCommitter of
         None \<Rightarrow> Inr request
       | Some commitContent \<Rightarrow> sbind (commitContent request) (\<lambda>_. Inr request))"


section \<open>Executions\<close>

inductive worker_step :: "run_params \<Rightarrow> pipelined_input \<Rightarrow> pipe_run \<Rightarrow> pipe_run \<Rightarrow> bool" for p input where
  checks: "i < length (pp_workers s) \<Longrightarrow> pp_workers s ! i = Checking \<Longrightarrow> worker_step p input s (worker_check p input i s)"
| replies: "i < length (pp_workers s) \<Longrightarrow> pp_workers s ! i = Uploading request t \<Longrightarrow>
    worker_step p input s (worker_reply p i failure s)"

inductive pipe_reach :: "run_params \<Rightarrow> pipelined_input \<Rightarrow> pipe_run \<Rightarrow> bool" for p input where
  start: "pipe_reach p input (new_pipe p)"
| yields: "pipe_reach p input s \<Longrightarrow> \<not> pp_producerDone s \<Longrightarrow> pipe_reach p input (produce item s)"
| finishes: "pipe_reach p input s \<Longrightarrow> \<not> pp_producerDone s \<Longrightarrow> pipe_reach p input (producer_end failure s)"
| works: "pipe_reach p input s \<Longrightarrow> worker_step p input s s' \<Longrightarrow> pipe_reach p input s'"

definition uploading_requests :: "worker_phase list \<Rightarrow> upload_request list" where
  "uploading_requests ws = concat (map (\<lambda>w. case w of Uploading request t \<Rightarrow> [request] | _ \<Rightarrow> []) ws)"

text \<open>
  No wake-up is lost: a worker only waits while there is nothing to look at. Items are
  queued, being sent, or answered. A worker only returns when there is an error, or nothing
  is left, or its own request was rejected.
\<close>

definition pipe_inv :: "pipelined_input \<Rightarrow> pipe_run \<Rightarrow> bool" where
  "pipe_inv input s \<longleftrightarrow>
     (Waiting \<in> set (pp_workers s) \<longrightarrow> pp_queue s = [] \<and> \<not> pp_producerDone s \<and> \<not> truthy (pp_firstError s))
     \<and> mset (map (artifact_request input) (pp_queue s)) + mset (uploading_requests (pp_workers s))
         + mset (pp_accepted s @ map fst (pp_rejected s)) = mset (map (artifact_request input) (pp_produced s))
     \<and> (Returned \<in> set (pp_workers s) \<longrightarrow>
          truthy (pp_firstError s) \<or> pp_rejected s \<noteq> [] \<or> pp_producerDone s \<and> pp_queue s = [])
     \<and> (truthy (pp_firstError s) \<longleftrightarrow> (\<exists>x \<in> set (pp_rejected s). snd x \<noteq> []) \<or> truthy (pp_producerError s))
     \<and> (\<not> pp_producerDone s \<longrightarrow> pp_producerError s = None)
     \<and> pp_workers s \<noteq> []"

lemma truthy_simps [simp]: "\<not> truthy None" "truthy (Some m) \<longleftrightarrow> m \<noteq> []"
  by (simp_all add: truthy_def)

lemma uploading_split:
  assumes "i < length ws"
  shows "mset (uploading_requests (ws[i := w]))
    = mset (uploading_requests (take i ws)) + mset (uploading_requests [w]) + mset (uploading_requests (drop (Suc i) ws))"
  using assms by (simp add: uploading_requests_def upd_conv_take_nth_drop)

lemma uploading_wake [simp]:
  "uploading_requests (map (\<lambda>w. if w = Waiting then Checking else w) ws) = uploading_requests ws"
  by (induction ws) (auto simp: uploading_requests_def)

lemma wake_none_waiting [simp]: "Waiting \<notin> set (map (\<lambda>w. if w = Waiting then Checking else w) ws)"
  by auto

lemma wake_returned [simp]:
  "Returned \<in> set (map (\<lambda>w. if w = Waiting then Checking else w) ws) \<longleftrightarrow> Returned \<in> set ws"
  by auto

lemma pipe_emit_keeps [simp]:
  "pp_queue (pipe_emit p e s) = pp_queue s" "pp_producerDone (pipe_emit p e s) = pp_producerDone s"
  "pp_firstError (pipe_emit p e s) = pp_firstError s" "pp_workers (pipe_emit p e s) = pp_workers s"
  "pp_produced (pipe_emit p e s) = pp_produced s" "pp_accepted (pipe_emit p e s) = pp_accepted s"
  "pp_rejected (pipe_emit p e s) = pp_rejected s" "pp_producerError (pipe_emit p e s) = pp_producerError s"
  by (simp_all add: pipe_emit_def)

lemma pipe_inv_new: "pipe_inv input (new_pipe p)"
  by (simp add: pipe_inv_def new_pipe_def uploading_requests_def)

lemma pipe_inv_end:
  assumes "pipe_inv input s" "\<not> pp_producerDone s"
  shows "pipe_inv input (producer_end failure s)"
  using assms by (cases failure) (auto simp add: pipe_inv_def producer_end_def wakeWorkers_def simp del: set_map)

lemma pipe_inv_produce:
  assumes "pipe_inv input s" "\<not> pp_producerDone s"
  shows "pipe_inv input (produce item s)"
proof (cases "truthy (pp_firstError s)")
  case True
  then show ?thesis
    using pipe_inv_end [OF assms] by (simp add: produce_def)
next
  case False
  then show ?thesis
    using assms by (auto simp add: pipe_inv_def produce_def wakeWorkers_def simp del: set_map)
qed

lemma uploading_update:
  assumes "i < length ws"
  shows "mset (uploading_requests (ws[i := w])) + mset (uploading_requests [ws ! i])
    = mset (uploading_requests ws) + mset (uploading_requests [w])"
  using uploading_split [OF assms, of w] uploading_split [OF assms, of "ws ! i"] by simp

lemma pipe_inv_check:
  assumes inv: "pipe_inv input s" and i: "i < length (pp_workers s)" "pp_workers s ! i = Checking"
  shows "pipe_inv input (worker_check p input i s)"
proof -
  note up = uploading_update [OF i(1), unfolded i(2)]
  have waiting: "Waiting \<in> set ((pp_workers s)[i := w]) \<Longrightarrow> w \<noteq> Waiting \<Longrightarrow> Waiting \<in> set (pp_workers s)"
    and returned: "Returned \<in> set ((pp_workers s)[i := w]) \<Longrightarrow> w \<noteq> Returned \<Longrightarrow> Returned \<in> set (pp_workers s)" for w
    using set_update_subset_insert [of "pp_workers s" i w] by auto
  show ?thesis
  proof (cases "truthy (pp_firstError s) \<or> (pp_producerDone s \<and> pp_queue s = [])")
    case True
    then show ?thesis
      using inv up [of Returned] waiting [of Returned]
      by (auto simp: pipe_inv_def worker_check_def uploading_requests_def)
  next
    case False
    note go = this
    show ?thesis
    proof (cases "pp_queue s")
      case Nil
      then have "waitForWork s = Waiting"
        using go by (simp add: waitForWork_def)
      then show ?thesis
        using inv go Nil up [of Waiting] returned [of Waiting]
        by (auto simp: pipe_inv_def worker_check_def uploading_requests_def)
    next
      case (Cons item queue)
      let ?w = "Uploading (artifact_request input item) (if rp_trackTaskEvents p then pipe_now p s else 0)"
      have "mset (uploading_requests ((pp_workers s)[i := ?w]))
          = add_mset (artifact_request input item) (mset (uploading_requests (pp_workers s)))"
        using up [of ?w] by (simp add: uploading_requests_def)
      then show ?thesis
        using inv go Cons waiting [of ?w] returned [of ?w]
        by (auto simp: pipe_inv_def worker_check_def Let_def)
    qed
  qed
qed

lemma pipe_inv_reply:
  assumes inv: "pipe_inv input s" and i: "i < length (pp_workers s)" "pp_workers s ! i = Uploading request t"
  shows "pipe_inv input (worker_reply p i failure s)"
proof -
  note up = uploading_update [OF i(1), unfolded i(2)]
  have waiting: "Waiting \<in> set ((pp_workers s)[i := w]) \<Longrightarrow> w \<noteq> Waiting \<Longrightarrow> Waiting \<in> set (pp_workers s)"
    and returned: "Returned \<in> set ((pp_workers s)[i := w]) \<Longrightarrow> w \<noteq> Returned \<Longrightarrow> Returned \<in> set (pp_workers s)" for w
    using set_update_subset_insert [of "pp_workers s" i w] by auto
  have idle: "mset (uploading_requests (pp_workers s)) = add_mset request (mset (uploading_requests ((pp_workers s)[i := w])))"
    if "w \<in> {Waiting, Checking, Returned}" for w
    using up [of w] that by (auto simp: uploading_requests_def)
  show ?thesis
  proof (cases failure)
    case None
    define w where "w = (if pp_queue s \<noteq> [] \<or> pp_producerDone s \<or> truthy (pp_firstError s) then Checking else Waiting)"
    have w: "w \<noteq> Returned" "w = Waiting \<longleftrightarrow> pp_queue s = [] \<and> \<not> pp_producerDone s \<and> \<not> truthy (pp_firstError s)"
      by (auto simp: w_def)
    have ws: "pp_workers (worker_reply p i failure s) = (pp_workers s)[i := w]"
      by (simp add: None i worker_reply_def Let_def waitForWork_def w_def)
    let ?s = "worker_reply p i failure s"
    have frame: "pp_queue ?s = pp_queue s" "pp_producerDone ?s = pp_producerDone s" "pp_firstError ?s = pp_firstError s"
        "pp_produced ?s = pp_produced s" "pp_rejected ?s = pp_rejected s" "pp_producerError ?s = pp_producerError s"
        "pp_accepted ?s = pp_accepted s @ [request]"
      by (simp_all add: None i worker_reply_def Let_def)
    have sent: "mset (uploading_requests (pp_workers s)) = add_mset request (mset (uploading_requests ((pp_workers s)[i := w])))"
      by (rule idle) (simp add: w_def)
    have "Waiting \<in> set ((pp_workers s)[i := w]) \<longrightarrow> pp_queue s = [] \<and> \<not> pp_producerDone s \<and> \<not> truthy (pp_firstError s)"
      using waiting [of w] w(2) inv unfolding pipe_inv_def by blast
    moreover have "Returned \<in> set ((pp_workers s)[i := w]) \<longrightarrow> Returned \<in> set (pp_workers s)"
      using returned [of w] w(1) by blast
    ultimately show ?thesis
      using inv unfolding pipe_inv_def ws frame by (simp add: sent) fastforce
  next
    case (Some message)
    let ?s = "worker_reply p i failure s"
    have frame: "pp_queue ?s = pp_queue s" "pp_producerDone ?s = pp_producerDone s" "pp_produced ?s = pp_produced s"
        "pp_producerError ?s = pp_producerError s" "pp_accepted ?s = pp_accepted s"
        "pp_rejected ?s = pp_rejected s @ [(request, message)]"
        "pp_firstError ?s = (if \<not> truthy (pp_firstError s) then Some message else pp_firstError s)"
        "pp_workers ?s = map (\<lambda>w. if w = Waiting then Checking else w) ((pp_workers s)[i := Returned])"
      by (simp_all add: Some i worker_reply_def Let_def wakeWorkers_def)
    have sent: "mset (uploading_requests (pp_workers s)) = add_mset request (mset (uploading_requests ((pp_workers s)[i := Returned])))"
      by (rule idle) simp
    show ?thesis
      using inv unfolding pipe_inv_def frame by (simp add: sent del: set_map map_update)
  qed
qed

lemma pipe_reach_inv: "pipe_reach p input s \<Longrightarrow> pipe_inv input s"
proof (induction rule: pipe_reach.induct)
  case (works s s')
  from works.hyps(2) works.IH show ?case
    by cases (simp_all add: pipe_inv_check pipe_inv_reply)
qed (simp_all add: pipe_inv_new pipe_inv_produce pipe_inv_end)


section \<open>Ending and outcome\<close>

text \<open>What the workers have left to do.\<close>

fun phase_work :: "worker_phase \<Rightarrow> nat" where
  "phase_work Checking = 1"
| "phase_work (Uploading _ _) = 2"
| "phase_work _ = 0"

definition pipe_work :: "pipe_run \<Rightarrow> nat" where
  "pipe_work s = 3 * length (pp_queue s) + sum_list (map phase_work (pp_workers s))"

lemma phase_work_update:
  assumes "i < length ws"
  shows "sum_list (map phase_work (ws[i := w])) + phase_work (ws ! i) = sum_list (map phase_work ws) + phase_work w"
  using assms by (induction ws arbitrary: i) (auto split: nat.splits simp: less_Suc_eq_0_disj)

lemma wake_nobody: "Waiting \<notin> set ws \<Longrightarrow> map (\<lambda>w. if w = Waiting then Checking else w) ws = ws"
  by (induction ws) auto

lemma check_works:
  assumes "i < length (pp_workers s)" "pp_workers s ! i = Checking" "pp_producerDone s"
  shows "pipe_work (worker_check p input i s) < pipe_work s" and "pp_producerDone (worker_check p input i s)"
proof -
  note up = phase_work_update [OF assms(1), unfolded assms(2)]
  show "pipe_work (worker_check p input i s) < pipe_work s"
  proof (cases "pp_queue s")
    case Nil
    then show ?thesis
      using up [of Returned] assms(3) by (simp add: pipe_work_def worker_check_def)
  next
    case (Cons item queue)
    then show ?thesis
      using up [of Returned] up [of "Uploading (artifact_request input item) (if rp_trackTaskEvents p then pipe_now p s else 0)"]
      by (simp add: pipe_work_def worker_check_def Let_def)
  qed
  show "pp_producerDone (worker_check p input i s)"
    using assms(3) by (simp add: worker_check_def Let_def split: list.split)
qed

lemma reply_works:
  assumes "i < length (pp_workers s)" "pp_workers s ! i = Uploading request t" "pp_producerDone s"
    and none: "Waiting \<notin> set (pp_workers s)"
  shows "pipe_work (worker_reply p i failure s) < pipe_work s" and "pp_producerDone (worker_reply p i failure s)"
proof -
  note up = phase_work_update [OF assms(1), unfolded assms(2)]
  have "Waiting \<notin> set ((pp_workers s)[i := Returned])"
    using none set_update_subset_insert [of "pp_workers s" i Returned] by auto
  note nobody = wake_nobody [OF this]
  show "pipe_work (worker_reply p i failure s) < pipe_work s"
    using up [of Returned] up [of Checking] assms(3)
    by (cases failure)
      (simp_all add: pipe_work_def worker_reply_def assms(2) Let_def waitForWork_def wakeWorkers_def nobody del: map_map)
  show "pp_producerDone (worker_reply p i failure s)"
    using assms(3) by (cases failure) (simp_all add: worker_reply_def assms(2) Let_def wakeWorkers_def)
qed

lemma unfinished_can_step:
  assumes "pipe_inv input s" "pp_producerDone s" "pipe_result s = None"
  shows "\<exists>s'. worker_step p input s s'"
proof -
  obtain i where i: "i < length (pp_workers s)" "pp_workers s ! i \<noteq> Returned"
    using assms(2,3) by (auto simp: pipe_result_def list_all_length split: if_splits)
  have "Waiting \<notin> set (pp_workers s)"
    using assms(1,2) unfolding pipe_inv_def by blast
  then have "pp_workers s ! i \<noteq> Waiting"
    using nth_mem [OF i(1)] by metis
  with i(2) consider "pp_workers s ! i = Checking" | request t where "pp_workers s ! i = Uploading request t"
    by (cases "pp_workers s ! i") auto
  then show ?thesis
    using i(1) by cases (blast intro: worker_step.intros)+
qed

text \<open>
  C34: No wake-up is lost in a pipelined upload, and it ends. As long as a worker waits, there
  is nothing for it to do: the queue is empty, the producer goes on and no error was noted.
  Once the producer has ended, some worker can go on until the result is there, and every
  step of a worker, a reply of either kind included, reduces the work that is left.
\<close>

theorem pipeline_ends:
  assumes "pipe_reach p input s"
  shows "(Waiting \<in> set (pp_workers s) \<longrightarrow> pp_queue s = [] \<and> \<not> pp_producerDone s \<and> \<not> truthy (pp_firstError s))
    \<and> (pp_producerDone s \<longrightarrow>
         (pipe_result s = None \<longrightarrow> (\<exists>s'. worker_step p input s s'))
         \<and> (\<forall>s'. worker_step p input s s' \<longrightarrow> pp_producerDone s' \<and> pipe_work s' < pipe_work s))"
proof -
  note inv = pipe_reach_inv [OF assms]
  have wait: "Waiting \<in> set (pp_workers s) \<longrightarrow> pp_queue s = [] \<and> \<not> pp_producerDone s \<and> \<not> truthy (pp_firstError s)"
    using inv unfolding pipe_inv_def by (rule conjunct1)
  have "pp_producerDone s' \<and> pipe_work s' < pipe_work s" if "worker_step p input s s'" "pp_producerDone s" for s'
    using that(1) by cases (use check_works reply_works that(2) wait in auto)
  with wait unfinished_can_step [OF inv] show ?thesis
    by blast
qed

definition sample_item :: pipelined_artifact where
  "sample_item = \<lparr>pa_target = sample_target, pa_artifact = manifest_artifact [1] None\<rparr>"

definition sample_generation :: pipelined_input where
  "sample_generation = \<lparr>pi_dealId = ''1'', pi_previousManifestRoot = None, pi_uploadGeneration = ''g''\<rparr>"

definition sample_one_worker :: run_params where
  "sample_one_worker = sample_params\<lparr>rp_concurrency := 1\<rparr>"

text \<open>One worker, one item: produced, producer ended, taken, accepted, nothing left.\<close>

definition sample_taken :: pipe_run where
  "sample_taken = worker_check sample_one_worker sample_generation 0 (producer_end None (produce sample_item (new_pipe sample_one_worker)))"


lemmas pipe_eval =
  sample_one_worker_def sample_params_def new_pipe_def produce_def producer_end_def wakeWorkers_def worker_check_def
  worker_reply_def waitForWork_def pipe_emit_def Let_def

lemma sample_taken_reach:
  shows "pipe_reach sample_one_worker sample_generation sample_taken" and "pp_producerDone sample_taken"
    and "pp_workers sample_taken = [Uploading (artifact_request sample_generation sample_item) 0]" and "pp_queue sample_taken = []"
    and "pp_firstError sample_taken = None" "pp_accepted sample_taken = []" "pp_rejected sample_taken = []"
    and "pp_producerError sample_taken = None" "pp_produced sample_taken = [sample_item]"
proof -
  let ?p = sample_one_worker
  let ?s = "producer_end None (produce sample_item (new_pipe ?p))"
  have "pipe_reach ?p sample_generation ?s"
    by (intro pipe_reach.intros) (simp_all add: pipe_eval)
  then show "pipe_reach ?p sample_generation sample_taken"
    unfolding sample_taken_def by (rule pipe_reach.works) (rule worker_step.checks, simp_all add: pipe_eval)
qed (simp_all add: sample_taken_def pipe_eval)


theorem pipeline_ends_witness: "\<exists>s'. worker_step sample_one_worker sample_generation sample_taken s' \<and> pipe_work s' < pipe_work sample_taken"
proof -
  note t = sample_taken_reach
  have "pipe_result sample_taken = None"
    by (simp add: pipe_result_def t)
  then show ?thesis
    using pipeline_ends [OF t(1)] t(2) by blast
qed




end
