(* ===== verification/UploadStatus.thy ===== *)
theory UploadStatus
  imports Transport
begin

text \<open>
  The status record of an upload run (\<open>lib/uploadStatus.ts\<close>). The code builds it from object
  literals and spreads, so its parts are objects here: maps from keys to values, where a
  spread is the map override \<open>++\<close>. The TypeScript types of the parts are schemas. Strings
  are lists of code units of 8 bits.
\<close>


section \<open>Values, objects and types\<close>

datatype js_value = VUndefined | VNull | VBool bool | VNum jsnum | VStr string

type_synonym js_object = "string \<rightharpoonup> js_value"

definition get :: "js_object \<Rightarrow> string \<Rightarrow> js_value" where
  "get obj key = (case obj key of Some v \<Rightarrow> v | None \<Rightarrow> VUndefined)"

definition nullish :: "js_value \<Rightarrow> bool" where
  "nullish v \<longleftrightarrow> v = VUndefined \<or> v = VNull"

text \<open>The object itself, or an empty one: \<open>obj ?? {}\<close>.\<close>

definition or_object :: "js_object option \<Rightarrow> js_object" where
  "or_object obj = (case obj of Some x \<Rightarrow> x | None \<Rightarrow> Map.empty)"

datatype js_type = TBool | TNum | TStr | TOneOf "string list" | TOrNull js_type

fun has_type :: "js_value \<Rightarrow> js_type \<Rightarrow> bool" where
  "has_type v (TOrNull t) = (v = VNull \<or> has_type v t)"
| "has_type (VBool _) TBool = True"
| "has_type (VNum _) TNum = True"
| "has_type (VStr _) TStr = True"
| "has_type (VStr s) (TOneOf options) = (s \<in> set options)"
| "has_type _ _ = False"

type_synonym schema = "(string \<times> js_type) list"




definition STORAGE_STAGES :: "string list" where
  "STORAGE_STAGES = [''none'', ''browser_memory'', ''opfs'', ''upload_queue'', ''provider'', ''chain'']"

definition KZG_DISPLAYS :: "string list" where
  "KZG_DISPLAYS = [''pending'', ''webgpu-msm'', ''wasm-blst'', ''fallback'', ''unavailable'', ''unknown'']"


definition KZG_STATUS :: schema where
  "KZG_STATUS =
     [(''display'', TOneOf KZG_DISPLAYS), (''label'', TStr), (''backend'', TStr), (''rustBackend'', TStr),
      (''webGpuAvailable'', TOrNull TBool), (''fallbackReason'', TOrNull TStr), (''probeStatus'', TOrNull TStr),
      (''circuitOpen'', TOrNull TBool), (''bucketWidth'', TOrNull TNum), (''reductionMode'', TOrNull TStr),
      (''calibrationStatus'', TOrNull TStr), (''calibrationSource'', TOrNull TStr), (''calibrationCacheKey'', TOrNull TStr),
      (''webGpuCommitTimeoutCount'', TOrNull TNum), (''webGpuBatchTooLargeCount'', TOrNull TNum),
      (''webGpuLastTimeoutBlobs'', TOrNull TNum), (''webGpuLastTimeoutBytes'', TOrNull TNum),
      (''webGpuLastTimeoutBatchMdus'', TOrNull TNum), (''webGpuLastTimeoutRetryable'', TOrNull TBool),
      (''schedulerQueueWaitMs'', TOrNull TNum), (''schedulerTotalMs'', TOrNull TNum),
      (''schedulerQueueDepth'', TOrNull TNum), (''schedulerActive'', TOrNull TNum),
      (''schedulerMaxQueueDepth'', TOrNull TNum), (''schedulerFallbackCount'', TOrNull TNum),
      (''schedulerBatchSize'', TOrNull TNum), (''schedulerBatchBlobs'', TOrNull TNum),
      (''schedulerBatchBytes'', TOrNull TNum), (''schedulerBatchSplitCount'', TOrNull TNum),
      (''schedulerBatchFallbackCount'', TOrNull TNum), (''schedulerBatchTimeoutCount'', TOrNull TNum),
      (''schedulerSafeMaxBatchMdus'', TOrNull TNum), (''probeTimeoutMs'', TOrNull TNum),
      (''commitTimeoutMs'', TOrNull TNum), (''minBlobs'', TOrNull TNum), (''commitWorkerCount'', TOrNull TNum)]"


definition TOTALS_STATUS :: schema where
  "TOTALS_STATUS =
     [(''userMdus'', TOrNull TNum), (''witnessMdus'', TOrNull TNum), (''totalMdus'', TOrNull TNum), (''bytesDone'', TOrNull TNum),
      (''bytesTotal'', TOrNull TNum), (''workDone'', TOrNull TNum), (''workTotal'', TOrNull TNum)]"

definition STORAGE_STATUS :: schema where
  "STORAGE_STATUS =
     [(''stage'', TOneOf STORAGE_STAGES), (''browserMemoryBytes'', TOrNull TNum), (''opfsBytes'', TOrNull TNum),
      (''queuedArtifacts'', TOrNull TNum), (''uploadedArtifacts'', TOrNull TNum)]"

definition TRANSPORT_STATUS :: schema where
  "TRANSPORT_STATUS =
     [(''mode'', TOneOf [''gateway'', ''direct-provider'', ''striped-provider'', ''none'', ''unknown'']),
      (''target'', TOrNull TStr), (''retries'', TNum), (''lastError'', TOrNull TStr), (''artifactCount'', TOrNull TNum),
      (''perArtifactCount'', TOrNull TNum), (''bundledArtifactCount'', TOrNull TNum), (''bundleCount'', TOrNull TNum),
      (''requestCount'', TOrNull TNum), (''bytesSent'', TOrNull TNum), (''fallbackCount'', TOrNull TNum),
      (''fallbackReason'', TOrNull TStr), (''peakActiveUploads'', TOrNull TNum)]"



record pipeline_status =
  us_top :: js_object
  us_file :: js_object
  us_totals :: js_object
  us_storage :: js_object
  us_transport :: js_object
  us_kzg :: js_object
  us_timing :: js_object
  us_phases :: js_object

record status_patch =
  pt_top :: js_object
  pt_file :: "js_object option"
  pt_totals :: "js_object option"
  pt_storage :: "js_object option"
  pt_transport :: "js_object option"
  pt_kzg :: "js_object option"
  pt_timing :: "js_object option"
  pt_phases :: "js_object option"


section \<open>The KZG backend\<close>

text \<open>The object of a schema with every field \<open>null\<close> but the ones given.\<close>

definition all_null :: "schema \<Rightarrow> js_object" where
  "all_null schema = map_of (map (\<lambda>(key, _). (key, VNull)) schema)"

definition PENDING_KZG_BACKEND_STATUS :: js_object where
  "PENDING_KZG_BACKEND_STATUS =
     all_null KZG_STATUS ++ map_of [(''display'', VStr ''pending''), (''label'', VStr ''KZG backend pending''),
       (''backend'', VStr ''pending''), (''rustBackend'', VStr ''pending'')]"




definition or_null :: "('a \<Rightarrow> js_value) \<Rightarrow> 'a option \<Rightarrow> js_value" where
  "or_null con v = (case v of Some x \<Rightarrow> con x | None \<Rightarrow> VNull)"







section \<open>Creating, patching and sanitizing\<close>

record status_input =
  si_dealId :: string
  si_runId :: "jsnum option"
  si_fileName :: "string option"
  si_fileBytes :: "jsnum option"
  si_nowMs :: "jsnum option"

definition createUploadPipelineStatus :: "status_input \<Rightarrow> pipeline_status" where
  "createUploadPipelineStatus input =
     (let now = VNum (case si_nowMs input of Some n \<Rightarrow> n | None \<Rightarrow> Fin 0);
          fileBytes = or_null VNum (si_fileBytes input)
      in \<lparr>us_top = map_of [(''version'', VNum (Fin 1)), (''runId'', or_null VNum (si_runId input)),
            (''dealId'', VStr (si_dealId input)), (''phase'', VStr ''idle''), (''phaseLabel'', VStr ''Idle''), (''tone'', VStr ''idle''),
            (''latestEvent'', VNull), (''error'', VNull)],
          us_file = map_of [(''name'', or_null VStr (si_fileName input)), (''bytes'', fileBytes), (''logicalBytes'', fileBytes)],
          us_totals = all_null TOTALS_STATUS ++ map_of [(''bytesTotal'', fileBytes)],
          us_storage = all_null STORAGE_STATUS ++ map_of [(''stage'', VStr ''none'')],
          us_transport = all_null TRANSPORT_STATUS ++ map_of [(''mode'', VStr ''none''), (''retries'', VNum (Fin 0))],
          us_kzg = PENDING_KZG_BACKEND_STATUS,
          us_timing = map_of [(''startedAtMs'', now), (''updatedAtMs'', now), (''elapsedMs'', VNull)],
          us_phases = Map.empty\<rparr>)"

text \<open>\<open>nowMs - startedAtMs\<close>, not a number unless both are numbers.\<close>

fun js_minus :: "jsnum \<Rightarrow> js_value \<Rightarrow> jsnum" where
  "js_minus (Fin a) (VNum (Fin b)) = Fin (a - b)"
| "js_minus _ _ = NonFin"

definition patchUploadPipelineStatus :: "pipeline_status option \<Rightarrow> status_patch \<Rightarrow> jsnum \<Rightarrow> pipeline_status" where
  "patchUploadPipelineStatus current patch nowMs =
     (let base = (case current of
            Some status \<Rightarrow> status
          | None \<Rightarrow> createUploadPipelineStatus
              \<lparr>si_dealId = (case get (pt_top patch) ''dealId'' of VStr s \<Rightarrow> s | _ \<Rightarrow> []), si_runId = None, si_fileName = None,
               si_fileBytes = None, si_nowMs = Some nowMs\<rparr>);
          patched = get (or_object (pt_timing patch)) ''startedAtMs'';
          startedAtMs = (if nullish patched then get (us_timing base) ''startedAtMs'' else patched)
      in \<lparr>us_top = us_top base ++ pt_top patch,
          us_file = us_file base ++ or_object (pt_file patch),
          us_totals = us_totals base ++ or_object (pt_totals patch),
          us_storage = us_storage base ++ or_object (pt_storage patch),
          us_transport = us_transport base ++ or_object (pt_transport patch),
          us_kzg = us_kzg base ++ or_object (pt_kzg patch),
          us_timing = (us_timing base ++ or_object (pt_timing patch))
             (''startedAtMs'' \<mapsto> startedAtMs, ''updatedAtMs'' \<mapsto> VNum nowMs,
              ''elapsedMs'' \<mapsto> (if startedAtMs = VNull then VNull else VNum (js_minus nowMs startedAtMs))),
          us_phases = us_phases base ++ or_object (pt_phases patch)\<rparr>)"







section \<open>Patches compose\<close>

text \<open>
  The patch that does the work of two. A start time that is \<open>null\<close> or missing in the later
  patch leaves the one of the earlier.
\<close>

definition merge_part :: "js_object option \<Rightarrow> js_object option \<Rightarrow> js_object option" where
  "merge_part p q = Some (or_object p ++ or_object q)"

definition merge_timing :: "js_object option \<Rightarrow> js_object option \<Rightarrow> js_object option" where
  "merge_timing p q =
     Some ((or_object p ++ or_object q)(''startedAtMs'' :=
       (if nullish (get (or_object q) ''startedAtMs'') then or_object p ''startedAtMs'' else or_object q ''startedAtMs'')))"

definition merge_patch :: "status_patch \<Rightarrow> status_patch \<Rightarrow> status_patch" where
  "merge_patch p q =
     \<lparr>pt_top = pt_top p ++ pt_top q, pt_file = merge_part (pt_file p) (pt_file q), pt_totals = merge_part (pt_totals p) (pt_totals q),
      pt_storage = merge_part (pt_storage p) (pt_storage q), pt_transport = merge_part (pt_transport p) (pt_transport q),
      pt_kzg = merge_part (pt_kzg p) (pt_kzg q), pt_timing = merge_timing (pt_timing p) (pt_timing q),
      pt_phases = merge_part (pt_phases p) (pt_phases q)\<rparr>"

lemma or_object_merge [simp]: "or_object (merge_part p q) = or_object p ++ or_object q"
  by (simp add: or_object_def merge_part_def)

lemma or_object_merge_timing:
  "or_object (merge_timing p q) = (or_object p ++ or_object q)(''startedAtMs'' :=
     (if nullish (get (or_object q) ''startedAtMs'') then or_object p ''startedAtMs'' else or_object q ''startedAtMs''))"
  by (simp add: or_object_def merge_timing_def)

lemma get_override: "get (f ++ g) key = (if g key = None then get f key else get g key)"
  by (simp add: get_def map_add_def split: option.split)

text \<open>
  Patches of the upload status compose: patching a status twice gives the same status as
  patching it once with the merged patch at the later time. In every part later fields win
  over earlier ones, phases accumulate, and the start time is the last one that was given,
  from which the elapsed time is computed anew.
\<close>

theorem status_patches_compose:
  "patchUploadPipelineStatus (Some (patchUploadPipelineStatus (Some status) p t)) q t'
     = patchUploadPipelineStatus (Some status) (merge_patch p q) t'"
proof -
  let ?P = "or_object (pt_timing p)" and ?Q = "or_object (pt_timing q)"
  have "us_timing (patchUploadPipelineStatus (Some (patchUploadPipelineStatus (Some status) p t)) q t') key
      = us_timing (patchUploadPipelineStatus (Some status) (merge_patch p q) t') key" for key
    by (cases "?P ''startedAtMs''"; cases "?Q ''startedAtMs''")
      (simp_all add: patchUploadPipelineStatus_def Let_def merge_patch_def or_object_merge_timing get_def map_add_def nullish_def
        split: option.split)
  then have "us_timing (patchUploadPipelineStatus (Some (patchUploadPipelineStatus (Some status) p t)) q t')
      = us_timing (patchUploadPipelineStatus (Some status) (merge_patch p q) t')"
    by (rule ext)
  then show ?thesis
    by (simp add: patchUploadPipelineStatus_def Let_def merge_patch_def)
qed


section \<open>Types are kept\<close>









lemma has_type_or_null [simp]:
  "or_null VStr s = VNull \<or> has_type (or_null VStr s) TStr" "or_null VNum n = VNull \<or> has_type (or_null VNum n) TNum"
  "or_null VBool b = VNull \<or> has_type (or_null VBool b) TBool"
  by (simp_all add: or_null_def split: option.split)












lemma get_upd [simp]: "get (f(key \<mapsto> v)) key' = (if key' = key then v else get f key')"
  by (simp add: get_def)






end
