(* ===== verification/ExpansionWorkers.thy ===== *)
theory ExpansionWorkers
  imports Prelude
begin

text \<open>
  How many expansion workers to run (\<open>lib/expansionWorkers.ts\<close>): the static choice from the
  number of cores, the candidates of the autotuner, the validity of a cached choice, and the
  choice from measured samples. A missing job count means no cap, written \<open>None\<close>.
\<close>


section \<open>Definitions\<close>

definition DEFAULT_EXPANSION_HARDWARE_CONCURRENCY :: int where
  "DEFAULT_EXPANSION_HARDWARE_CONCURRENCY = 4"

definition MAX_EXPANSION_WORKERS :: int where
  "MAX_EXPANSION_WORKERS = 6"

definition EXPANSION_WORKER_AUTOTUNE_VERSION :: jsnum where
  "EXPANSION_WORKER_AUTOTUNE_VERSION = Fin 1"

definition MAX_AUTOTUNE_EXPANSION_WORKERS :: int where
  "MAX_AUTOTUNE_EXPANSION_WORKERS = 8"

record autotune_cache =
  ac_version :: jsnum
  ac_hardwareConcurrency :: jsnum
  ac_selectedWorkerCount :: jsnum
  ac_measuredAtMs :: jsnum
  ac_scoreMs :: jsnum

record autotune_sample =
  as_workerCount :: jsnum
  as_wallMs :: jsnum

text \<open>\<open>Math.max(1, Math.floor(Number(x)))\<close> where \<open>x\<close> is a finite number.\<close>

definition at_least_one :: "jsnum option \<Rightarrow> int option" where
  "at_least_one x = (case x of Some (Fin r) \<Rightarrow> Some (max 1 \<lfloor>r\<rfloor>) | _ \<Rightarrow> None)"

definition hardware_count :: "jsnum option \<Rightarrow> int" where
  "hardware_count hardwareConcurrency =
     (case at_least_one hardwareConcurrency of Some n \<Rightarrow> n | None \<Rightarrow> DEFAULT_EXPANSION_HARDWARE_CONCURRENCY)"

definition min_cap :: "int \<Rightarrow> int option \<Rightarrow> int" where
  "min_cap n cap = (case cap of Some c \<Rightarrow> min n c | None \<Rightarrow> n)"

definition pickExpansionWorkerCount :: "jsnum option \<Rightarrow> jsnum option \<Rightarrow> int" where
  "pickExpansionWorkerCount hardwareConcurrency totalJobs =
     (let hc = hardware_count hardwareConcurrency;
          jobCap = at_least_one totalJobs;
          desired = (if hc \<ge> 10 then MAX_EXPANSION_WORKERS else if hc \<ge> 8 then 5 else if hc \<ge> 6 then 4
                     else if hc \<ge> 4 then 3 else if hc \<ge> 3 then 2 else 1)
      in max 1 (min_cap desired jobCap))"

definition buildExpansionWorkerAutotuneCandidates :: "jsnum option \<Rightarrow> jsnum option \<Rightarrow> int list" where
  "buildExpansionWorkerAutotuneCandidates hardwareConcurrency totalJobs =
     (let staticCount = pickExpansionWorkerCount hardwareConcurrency totalJobs;
          jobCap = at_least_one totalJobs
      in if (case jobCap of Some c \<Rightarrow> c < 4 | None \<Rightarrow> False) \<or> staticCount \<le> 1 then [staticCount]
         else
           let hc = hardware_count hardwareConcurrency;
               upper = max staticCount (min_cap (min MAX_AUTOTUNE_EXPANSION_WORKERS hc) jobCap);
               lower = max 1 (staticCount - 2);
               preferred = [staticCount - 1, staticCount, staticCount + 1, staticCount + 2]
           in sort (remdups (filter (\<lambda>candidate. lower \<le> candidate \<and> candidate \<le> upper) preferred @ [staticCount])))"

definition isUsableExpansionWorkerAutotuneCache :: "autotune_cache option \<Rightarrow> jsnum option \<Rightarrow> jsnum option \<Rightarrow> bool" where
  "isUsableExpansionWorkerAutotuneCache cache hardwareConcurrency totalJobs =
     (case cache of
        None \<Rightarrow> False
      | Some c \<Rightarrow>
          if ac_version c \<noteq> EXPANSION_WORKER_AUTOTUNE_VERSION then False
          else if ac_hardwareConcurrency c \<noteq> Fin (of_int (hardware_count hardwareConcurrency)) then False
          else if \<not> isInteger (ac_selectedWorkerCount c) \<or> js_less (ac_selectedWorkerCount c) 1 then False
          else if \<not> isFinite (ac_measuredAtMs c) \<or> js_le (ac_measuredAtMs c) 0 then False
          else if \<not> isFinite (ac_scoreMs c) \<or> js_le (ac_scoreMs c) 0 then False
          else ac_selectedWorkerCount c \<in> (\<lambda>n. Fin (of_int n)) ` set (buildExpansionWorkerAutotuneCandidates hardwareConcurrency totalJobs))"

text \<open>A sample counts if its worker count is allowed and its time is finite and positive.\<close>

definition usable_sample :: "int list \<Rightarrow> autotune_sample \<Rightarrow> (int \<times> rat) option" where
  "usable_sample candidates sample =
     (case (as_workerCount sample, as_wallMs sample) of
        (Fin n, Fin wallMs) \<Rightarrow> (if \<lfloor>n\<rfloor> \<in> set candidates \<and> 0 < wallMs then Some (\<lfloor>n\<rfloor>, wallMs) else None)
      | _ \<Rightarrow> None)"

text \<open>One round of the loop; the best score starts at infinity, written \<open>None\<close>.\<close>

definition better_sample :: "int list \<Rightarrow> autotune_sample \<Rightarrow> int \<times> rat option \<Rightarrow> int \<times> rat option" where
  "better_sample candidates sample best =
     (case usable_sample candidates sample of
        None \<Rightarrow> best
      | Some (workerCount, wallMs) \<Rightarrow>
          (case best of
             (bestWorkerCount, None) \<Rightarrow> (workerCount, Some wallMs)
           | (bestWorkerCount, Some bestScore) \<Rightarrow>
               if wallMs < bestScore \<or> (wallMs = bestScore \<and> workerCount < bestWorkerCount)
               then (workerCount, Some wallMs) else best))"

definition selectExpansionWorkerCountFromSamples :: "autotune_sample list \<Rightarrow> jsnum option \<Rightarrow> jsnum option \<Rightarrow> int" where
  "selectExpansionWorkerCountFromSamples samples hardwareConcurrency totalJobs =
     fst (fold (better_sample (buildExpansionWorkerAutotuneCandidates hardwareConcurrency totalJobs)) samples
            (pickExpansionWorkerCount hardwareConcurrency totalJobs, None))"


section \<open>Correctness\<close>

lemma pick_bounds:
  "1 \<le> pickExpansionWorkerCount h t" "pickExpansionWorkerCount h t \<le> 6"
  "at_least_one t = Some c \<Longrightarrow> pickExpansionWorkerCount h t \<le> c"
proof -
  have c: "at_least_one t = Some c \<Longrightarrow> 1 \<le> c"
    by (auto simp: at_least_one_def split: option.splits jsnum.splits)
  show "1 \<le> pickExpansionWorkerCount h t" "pickExpansionWorkerCount h t \<le> 6"
    by (auto simp: pickExpansionWorkerCount_def Let_def min_cap_def MAX_EXPANSION_WORKERS_def split: option.split)
  show "at_least_one t = Some c \<Longrightarrow> pickExpansionWorkerCount h t \<le> c"
    using c by (auto simp: pickExpansionWorkerCount_def Let_def min_cap_def)
qed

lemma candidates_bounds:
  assumes "n \<in> set (buildExpansionWorkerAutotuneCandidates h t)"
  shows "1 \<le> n" "n \<le> 8" "at_least_one t = Some c \<Longrightarrow> n \<le> c"
  using assms pick_bounds [where h = h and t = t]
  by (auto simp: buildExpansionWorkerAutotuneCandidates_def Let_def min_cap_def MAX_AUTOTUNE_EXPANSION_WORKERS_def
      split: if_splits option.splits)

lemma pick_candidate: "pickExpansionWorkerCount h t \<in> set (buildExpansionWorkerAutotuneCandidates h t)"
  by (simp add: buildExpansionWorkerAutotuneCandidates_def Let_def)

lemma candidates_sorted:
  "sorted (buildExpansionWorkerAutotuneCandidates h t)" "distinct (buildExpansionWorkerAutotuneCandidates h t)"
  by (simp_all add: buildExpansionWorkerAutotuneCandidates_def Let_def)

text \<open>The choice is the usable sample that is first by time and then by worker count.\<close>

fun best_of :: "(int \<times> rat) set \<Rightarrow> int \<times> rat option \<Rightarrow> bool" where
  "best_of seen (n, None) \<longleftrightarrow> seen = {}"
| "best_of seen (n, Some w) \<longleftrightarrow> (n, w) \<in> seen \<and> (\<forall>(m, v) \<in> seen. w < v \<or> (w = v \<and> n \<le> m))"

definition usable_samples :: "int list \<Rightarrow> autotune_sample list \<Rightarrow> (int \<times> rat) set" where
  "usable_samples candidates samples = {x. \<exists>sample \<in> set samples. usable_sample candidates sample = Some x}"

lemma usable_sample_candidate: "usable_sample cs sample = Some (n, w) \<Longrightarrow> n \<in> set cs"
  by (cases "as_workerCount sample"; cases "as_wallMs sample") (auto simp: usable_sample_def split: if_splits)

lemma better_sample_best:
  assumes "best_of seen best"
  shows "best_of (seen \<union> {x. usable_sample cs sample = Some x}) (better_sample cs sample best)"
proof (cases "usable_sample cs sample")
  case None
  then show ?thesis
    using assms by (simp add: better_sample_def)
next
  case (Some x)
  obtain m v where x: "x = (m, v)"
    by (cases x)
  obtain n w where best: "best = (n, w)"
    by (cases best)
  show ?thesis
    using assms by (cases w) (fastforce simp: Some x best better_sample_def)+
qed

lemma fold_better_best:
  "best_of seen best \<Longrightarrow> best_of (seen \<union> usable_samples cs samples) (fold (better_sample cs) samples best)"
proof (induction samples arbitrary: seen best)
  case (Cons sample samples)
  have "usable_samples cs (sample # samples) = {x. usable_sample cs sample = Some x} \<union> usable_samples cs samples"
    by (auto simp: usable_samples_def)
  then show ?case
    using Cons.IH [OF better_sample_best [OF Cons.prems]] by (simp add: Un_assoc)
qed (simp add: usable_samples_def)

lemma fold_none:
  "usable_samples cs samples = {} \<Longrightarrow> fold (better_sample cs) samples best = best"
proof (induction samples arbitrary: best)
  case (Cons sample samples)
  have "usable_sample cs sample = None"
    using Cons.prems by (cases "usable_sample cs sample") (auto simp: usable_samples_def)
  then show ?case
    using Cons by (simp add: better_sample_def usable_samples_def)
qed simp

text \<open>
  The number of expansion workers is a valid and best choice. The candidates of the
  autotuner are strictly increasing, contain the static choice, and lie between 1 and 8 and
  below the number of jobs. The selection from samples is the static choice if no sample is
  usable, and otherwise the worker count of a usable sample with the least time, the
  smallest such count among equal times. A cache that passes as usable names a candidate.
\<close>

theorem expansion_workers_chosen:
  "let cs = buildExpansionWorkerAutotuneCandidates h t in
    sorted cs \<and> distinct cs \<and> pickExpansionWorkerCount h t \<in> set cs
    \<and> (\<forall>n \<in> set cs. 1 \<le> n \<and> n \<le> 8 \<and> (\<forall>c. at_least_one t = Some c \<longrightarrow> n \<le> c))
    \<and> selectExpansionWorkerCountFromSamples samples h t \<in> set cs
    \<and> (usable_samples cs samples = {} \<longrightarrow> selectExpansionWorkerCountFromSamples samples h t = pickExpansionWorkerCount h t)
    \<and> (usable_samples cs samples \<noteq> {} \<longrightarrow>
         (\<exists>w. (selectExpansionWorkerCountFromSamples samples h t, w) \<in> usable_samples cs samples
            \<and> (\<forall>(m, v) \<in> usable_samples cs samples. w < v \<or> (w = v \<and> selectExpansionWorkerCountFromSamples samples h t \<le> m))))
    \<and> (\<forall>cache. isUsableExpansionWorkerAutotuneCache (Some cache) h t \<longrightarrow>
         (\<exists>n \<in> set cs. ac_selectedWorkerCount cache = Fin (of_int n)))"
proof -
  define cs where "cs = buildExpansionWorkerAutotuneCandidates h t"
  let ?select = "selectExpansionWorkerCountFromSamples samples h t"
  let ?all = "usable_samples cs samples"
  have best: "best_of ?all (fold (better_sample cs) samples (pickExpansionWorkerCount h t, None))"
    using fold_better_best [of "{}" "(pickExpansionWorkerCount h t, None)" cs samples] by simp
  have empty: "?select = pickExpansionWorkerCount h t" if "?all = {}"
    using fold_none [OF that] by (simp add: selectExpansionWorkerCountFromSamples_def cs_def)
  have some: "\<exists>w. (?select, w) \<in> ?all \<and> (\<forall>(m, v) \<in> ?all. w < v \<or> (w = v \<and> ?select \<le> m))" if "?all \<noteq> {}"
  proof -
    obtain n w where nw: "fold (better_sample cs) samples (pickExpansionWorkerCount h t, None) = (n, w)"
      by (cases "fold (better_sample cs) samples (pickExpansionWorkerCount h t, None)")
    with best that obtain w' where "w = Some w'"
      by (cases w) auto
    with best nw show ?thesis
      by (auto simp: selectExpansionWorkerCountFromSamples_def cs_def)
  qed
  have usable: "n \<in> set cs" if "(n, w) \<in> ?all" for n w
    using that usable_sample_candidate by (auto simp: usable_samples_def)
  have "?select \<in> set cs"
    using empty some usable pick_candidate [of h t] unfolding cs_def [symmetric] by metis
  moreover have "\<forall>cache. isUsableExpansionWorkerAutotuneCache (Some cache) h t \<longrightarrow>
      (\<exists>n \<in> set cs. ac_selectedWorkerCount cache = Fin (of_int n))"
    by (auto simp: isUsableExpansionWorkerAutotuneCache_def cs_def split: if_splits)
  moreover have "\<forall>n \<in> set cs. 1 \<le> n \<and> n \<le> 8 \<and> (\<forall>c. at_least_one t = Some c \<longrightarrow> n \<le> c)"
    using candidates_bounds by (simp add: cs_def)
  ultimately show ?thesis
    using candidates_sorted [of h t] pick_candidate [of h t] empty some
    unfolding Let_def cs_def [symmetric] by simp
qed

definition sample_measurements :: "autotune_sample list" where
  "sample_measurements = [\<lparr>as_workerCount = Fin 3, as_wallMs = Fin 20\<rparr>, \<lparr>as_workerCount = Fin 2, as_wallMs = Fin 20\<rparr>]"

theorem expansion_workers_chosen_witness:
  "selectExpansionWorkerCountFromSamples sample_measurements (Some (Fin 4)) None = 2
   \<and> 2 \<in> set (buildExpansionWorkerAutotuneCandidates (Some (Fin 4)) None)"
proof -
  have two: "selectExpansionWorkerCountFromSamples sample_measurements (Some (Fin 4)) None = 2"
    by code_simp
  have "selectExpansionWorkerCountFromSamples sample_measurements (Some (Fin 4)) None
      \<in> set (buildExpansionWorkerAutotuneCandidates (Some (Fin 4)) None)"
    using expansion_workers_chosen [of "Some (Fin 4)" None sample_measurements] unfolding Let_def by blast
  with two show ?thesis
    by simp
qed

end
