(* ===== verification/WorkerClient.thy ===== *)
theory WorkerClient
  imports ExpansionWorkers "HOL-Library.Multiset"
begin

text \<open>
  The client of the web workers (\<open>lib/worker-client.ts\<close>): requests to the gateway worker and
  to the pool of expansion workers are numbered, and the replies settle the promises with
  their numbers. The module's variables are the state; each handler and each call is one
  step. Workers are numbered in the order they are created.
\<close>


section \<open>State\<close>

text \<open>
  A message from a worker has a type and a payload. \<open>String(payload)\<close>, the text of an error,
  is the parameter \<open>text_of\<close>.
\<close>

record 'v worker_message =
  wm_id :: nat
  wm_type :: string
  wm_payload :: 'v

datatype 'v outcome = Resolved 'v | RejectedWith string

datatype promise_id = MainPromise nat | ExpansionPromise nat

datatype destination = MainWorker | ExpansionWorker nat

text \<open>
  The pool's promise: not asked for, waiting for the replies to the given requests by the
  given workers, ready, or failed.
\<close>

datatype pool_state = NoPool | PoolStarting "nat list" "nat list" | PoolReady | PoolFailed string

record 'v worker_client =
  pendingWorkerMessages :: "(nat \<times> bool) list"
  nextWorkerMessageId :: nat
  expansionWorkers :: "nat list"
  expansionWorkersReady :: pool_state
  expansionPending :: "nat list"
  expansionPendingByWorker :: "(nat \<times> nat list) list"
  expansionNextMessageId :: nat
  expansionRoundRobin :: nat
  spawned :: nat
  posted :: "(destination \<times> nat \<times> string) list"
  settled :: "(promise_id \<times> 'v outcome) list"
  dropped :: "promise_id list"
  progressed :: "(nat \<times> 'v) list"

definition new_client :: "'v worker_client" where
  "new_client =
     \<lparr>pendingWorkerMessages = [], nextWorkerMessageId = 0, expansionWorkers = [], expansionWorkersReady = NoPool,
      expansionPending = [], expansionPendingByWorker = [], expansionNextMessageId = 1, expansionRoundRobin = 0, spawned = 0,
      posted = [], settled = [], dropped = [], progressed = []\<rparr>"

definition settle :: "promise_id \<Rightarrow> 'v outcome \<Rightarrow> 'v worker_client \<Rightarrow> 'v worker_client" where
  "settle p out s = s\<lparr>settled := settled s @ [(p, out)]\<rparr>"


section \<open>The gateway worker\<close>

text \<open>
  \<open>worker.onmessage\<close>. A message of a type other than the three known ones removes the entry
  and settles nothing.
\<close>

definition worker_onmessage :: "('v \<Rightarrow> string) \<Rightarrow> 'v worker_message \<Rightarrow> 'v worker_client \<Rightarrow> 'v worker_client" where
  "worker_onmessage text_of message s =
     (let id = wm_id message; payload = wm_payload message;
          remaining = filter (\<lambda>entry. fst entry \<noteq> id) (pendingWorkerMessages s)
      in case map_of (pendingWorkerMessages s) id of
           None \<Rightarrow> s
         | Some onProgress \<Rightarrow>
             if wm_type message = ''result''
             then (settle (MainPromise id) (Resolved payload) s)\<lparr>pendingWorkerMessages := remaining\<rparr>
             else if wm_type message = ''error''
             then (settle (MainPromise id) (RejectedWith (text_of payload)) s)\<lparr>pendingWorkerMessages := remaining\<rparr>
             else if wm_type message = ''progress''
             then (if onProgress then s\<lparr>progressed := progressed s @ [(id, payload)]\<rparr> else s)
             else s\<lparr>pendingWorkerMessages := remaining, dropped := dropped s @ [MainPromise id]\<rparr>)"

text \<open>\<open>worker.onerror\<close> rejects everything that is pending.\<close>

definition worker_onerror :: "string \<Rightarrow> 'v worker_client \<Rightarrow> 'v worker_client" where
  "worker_onerror message s =
     s\<lparr>settled := settled s @ map (\<lambda>(id, _). (MainPromise id, RejectedWith (''Worker encountered an error: '' @ message)))
                       (pendingWorkerMessages s),
       pendingWorkerMessages := []\<rparr>"

definition sendMessageToWorker :: "string \<Rightarrow> bool \<Rightarrow> 'v worker_client \<Rightarrow> promise_id \<times> 'v worker_client" where
  "sendMessageToWorker type onProgress s =
     (let id = nextWorkerMessageId s
      in (MainPromise id,
          s\<lparr>nextWorkerMessageId := id + 1, pendingWorkerMessages := pendingWorkerMessages s @ [(id, onProgress)],
            posted := posted s @ [(MainWorker, id, type)]\<rparr>))"


section \<open>The expansion workers\<close>

text \<open>Adding to and removing from the set of a worker, if the worker has one.\<close>

definition change_ids :: "nat \<Rightarrow> (nat list \<Rightarrow> nat list) \<Rightarrow> (nat \<times> nat list) list \<Rightarrow> (nat \<times> nat list) list" where
  "change_ids w f table = map (\<lambda>(v, ids). (v, if v = w then f ids else ids)) table"

definition add_id :: "nat \<Rightarrow> nat list \<Rightarrow> nat list" where
  "add_id i ids = (if i \<in> set ids then ids else ids @ [i])"

text \<open>
  When the replies to all init requests are there, the pool is ready and its workers are
  used; when one is rejected, the pool's promise is rejected.
\<close>

definition init_outcome :: "'v worker_client \<Rightarrow> nat \<Rightarrow> 'v outcome option" where
  "init_outcome s i = map_of (settled s) (ExpansionPromise i)"

definition init_failures :: "'v worker_client \<Rightarrow> nat list \<Rightarrow> string list" where
  "init_failures s ids = [e. Some (RejectedWith e) \<leftarrow> map (init_outcome s) ids]"

definition pool_continue :: "'v worker_client \<Rightarrow> 'v worker_client" where
  "pool_continue s =
     (case expansionWorkersReady s of
        PoolStarting workers ids \<Rightarrow>
          (case init_failures s ids of
             e # _ \<Rightarrow> s\<lparr>expansionWorkersReady := PoolFailed e\<rparr>
           | [] \<Rightarrow>
               if list_all (\<lambda>id. init_outcome s id \<noteq> None) ids
               then s\<lparr>expansionWorkersReady := PoolReady, expansionWorkers := workers\<rparr>
               else s)
      | _ \<Rightarrow> s)"

definition expansion_onmessage :: "('v \<Rightarrow> string) \<Rightarrow> nat \<Rightarrow> 'v worker_message \<Rightarrow> 'v worker_client \<Rightarrow> 'v worker_client" where
  "expansion_onmessage text_of w message s =
     (let id = wm_id message; payload = wm_payload message;
          s1 = s\<lparr>expansionPendingByWorker := change_ids w (filter (\<lambda>i. i \<noteq> id)) (expansionPendingByWorker s)\<rparr>
      in if id \<notin> set (expansionPending s1) then s1
         else pool_continue
           ((settle (ExpansionPromise id)
              (if wm_type message = ''result'' then Resolved payload else RejectedWith (text_of payload)) s1)
            \<lparr>expansionPending := filter (\<lambda>i. i \<noteq> id) (expansionPending s1)\<rparr>))"

definition expansion_onerror :: "nat \<Rightarrow> 'v worker_client \<Rightarrow> 'v worker_client" where
  "expansion_onerror w s =
     (let s1 = (case map_of (expansionPendingByWorker s) w of
            None \<Rightarrow> s
          | Some ids \<Rightarrow>
              s\<lparr>settled := settled s @ map (\<lambda>id. (ExpansionPromise id, RejectedWith ''Expansion worker crashed''))
                                (filter (\<lambda>id. id \<in> set (expansionPending s)) ids),
                expansionPending := filter (\<lambda>id. id \<notin> set ids) (expansionPending s),
                expansionPendingByWorker := filter (\<lambda>entry. fst entry \<noteq> w) (expansionPendingByWorker s)\<rparr>)
      in pool_continue (s1\<lparr>expansionWorkers := filter (\<lambda>v. v \<noteq> w) (expansionWorkers s1)\<rparr>))"

text \<open>
  \<open>initializeExpansionPool\<close>. The constructor of the worker with number \<open>n\<close> of the loop throws
  if \<open>spawnFailure = Some n\<close>; the workers made before it keep their entries.
\<close>

definition spawn :: "nat \<Rightarrow> 'v worker_client \<Rightarrow> nat list \<times> 'v worker_client" where
  "spawn n s =
     (let workers = [spawned s ..< spawned s + n]
      in (workers, s\<lparr>spawned := spawned s + n,
                     expansionPendingByWorker := expansionPendingByWorker s @ map (\<lambda>w. (w, [])) workers\<rparr>))"

definition send_init :: "nat \<Rightarrow> 'v worker_client \<Rightarrow> 'v worker_client" where
  "send_init w s =
     (let id = expansionNextMessageId s
      in s\<lparr>expansionNextMessageId := id + 1, expansionPending := expansionPending s @ [id],
           expansionPendingByWorker := change_ids w (add_id id) (expansionPendingByWorker s),
           posted := posted s @ [(ExpansionWorker w, id, ''initPolyStoreWasm'')]\<rparr>)"

definition start_pool :: "nat \<Rightarrow> 'v worker_client \<Rightarrow> 'v worker_client" where
  "start_pool desired s =
     (let (workers, s1) = spawn desired s
      in (fold send_init workers s1)
           \<lparr>expansionWorkersReady := PoolStarting workers [expansionNextMessageId s ..< expansionNextMessageId s + desired]\<rparr>)"

definition initializeExpansionPool :: "jsnum option \<Rightarrow> nat option \<Rightarrow> 'v worker_client \<Rightarrow> 'v worker_client" where
  "initializeExpansionPool hardwareConcurrency spawnFailure s =
     (if expansionWorkersReady s \<noteq> NoPool then s
      else
        let hc = (case hardwareConcurrency of Some n \<Rightarrow> n | None \<Rightarrow> Fin (of_int DEFAULT_EXPANSION_HARDWARE_CONCURRENCY));
            desired = nat (pickExpansionWorkerCount (Some hc) None)
        in if desired \<le> 1 then s\<lparr>expansionWorkers := [], expansionWorkersReady := PoolReady\<rparr>
           else
             case spawnFailure of
               Some n \<Rightarrow>
                 if n < desired then (snd (spawn n s))\<lparr>expansionWorkers := [], expansionWorkersReady := PoolReady\<rparr>
                 else start_pool desired s
             | None \<Rightarrow> start_pool desired s)"

text \<open>The number of requests a worker has, 0 for a worker without an entry.\<close>

definition load :: "'v worker_client \<Rightarrow> nat \<Rightarrow> nat" where
  "load s w = (case map_of (expansionPendingByWorker s) w of Some ids \<Rightarrow> length ids | None \<Rightarrow> 0)"

fun best_worker :: "'v worker_client \<Rightarrow> nat list \<Rightarrow> nat \<Rightarrow> nat \<Rightarrow> nat" where
  "best_worker s [] bestWorker bestPending = bestWorker"
| "best_worker s (candidate # rest) bestWorker bestPending =
     (let pending = load s candidate in
      if pending < bestPending then
        (if pending = 0 then candidate else best_worker s rest candidate pending)
      else best_worker s rest bestWorker bestPending)"

fun worker_index :: "nat \<Rightarrow> nat list \<Rightarrow> nat" where
  "worker_index w [] = 0"
| "worker_index w (v # vs) = (if v = w then 0 else worker_index w vs + 1)"

definition choose_worker :: "'v worker_client \<Rightarrow> nat" where
  "choose_worker s =
     (let n = length (expansionWorkers s);
          worker_at = (\<lambda>i. expansionWorkers s ! ((expansionRoundRobin s + i) mod n))
      in best_worker s (map worker_at [1..<n]) (worker_at 0) (load s (worker_at 0)))"

definition sendExpansionMessageToWorker :: "string \<Rightarrow> 'v worker_client \<Rightarrow> promise_id \<times> 'v worker_client" where
  "sendExpansionMessageToWorker type s =
     (if expansionWorkers s = [] then sendMessageToWorker type False s
      else
        let w = choose_worker s; id = expansionNextMessageId s
        in (ExpansionPromise id,
            s\<lparr>expansionRoundRobin := (worker_index w (expansionWorkers s) + 1) mod length (expansionWorkers s),
              expansionNextMessageId := id + 1, expansionPending := expansionPending s @ [id],
              expansionPendingByWorker := change_ids w (add_id id) (expansionPendingByWorker s),
              posted := posted s @ [(ExpansionWorker w, id, type)]\<rparr>))"



section \<open>Executions\<close>

text \<open>
  Calls and events come in any order; workers may send any message. A crash of worker \<open>w\<close> in
  state \<open>s\<close> is only considered if \<open>crash w s\<close>.
\<close>

inductive client_reach :: "(nat \<Rightarrow> 'v worker_client \<Rightarrow> bool) \<Rightarrow> 'v worker_client \<Rightarrow> bool" for crash where
  start: "client_reach crash new_client"
| sends: "client_reach crash s \<Longrightarrow> client_reach crash (snd (sendMessageToWorker type onProgress s))"
| expands: "client_reach crash s \<Longrightarrow> client_reach crash (snd (sendExpansionMessageToWorker type s))"
| initializes: "client_reach crash s \<Longrightarrow> client_reach crash (initializeExpansionPool hardware failure s)"
| message: "client_reach crash s \<Longrightarrow> client_reach crash (worker_onmessage text_of m s)"
| fails: "client_reach crash s \<Longrightarrow> client_reach crash (worker_onerror e s)"
| answers: "client_reach crash s \<Longrightarrow> client_reach crash (expansion_onmessage text_of w m s)"
| crashes: "client_reach crash s \<Longrightarrow> crash w s \<Longrightarrow> client_reach crash (expansion_onerror w s)"

definition pending_promises :: "'v worker_client \<Rightarrow> promise_id list" where
  "pending_promises s = map (MainPromise \<circ> fst) (pendingWorkerMessages s) @ map ExpansionPromise (expansionPending s)"

definition sent_promises :: "'v worker_client \<Rightarrow> promise_id list" where
  "sent_promises s = map MainPromise [0..<nextWorkerMessageId s] @ map ExpansionPromise [1..<expansionNextMessageId s]"

definition client_inv :: "'v worker_client \<Rightarrow> bool" where
  "client_inv s \<longleftrightarrow>
     mset (pending_promises s @ map fst (settled s) @ dropped s) = mset (sent_promises s)
     \<and> 1 \<le> expansionNextMessageId s
     \<and> (\<forall>(w, ids) \<in> set (expansionPendingByWorker s). distinct ids)"

lemma sent_distinct: "distinct (sent_promises s)"
  by (auto simp: sent_promises_def distinct_map inj_on_def)

lemma client_inv_distinct:
  assumes "client_inv s"
  shows "distinct (pending_promises s @ map fst (settled s) @ dropped s)"
  using assms sent_distinct [of s] unfolding client_inv_def by (metis mset_eq_imp_distinct_iff)

lemma pending_distinct:
  assumes "client_inv s"
  shows "distinct (map fst (pendingWorkerMessages s))" and "distinct (expansionPending s)"
  using client_inv_distinct [OF assms]
  by (auto simp: pending_promises_def distinct_map inj_on_def comp_def)

text \<open>Taking one number out of a list without duplicates.\<close>

lemma mset_take_out:
  assumes "distinct (map f xs)" "x \<in> set xs"
  shows "mset (map f xs) = add_mset (f x) (mset (map f (filter (\<lambda>y. f y \<noteq> f x) xs)))"
  using assms
proof (induction xs)
  case (Cons y ys)
  show ?case
  proof (cases "f y = f x")
    case True
    then have "filter (\<lambda>y. f y \<noteq> f x) ys = ys"
      using Cons.prems(1) by (auto simp: filter_id_conv) (metis imageI)
    then show ?thesis
      using True by simp
  next
    case False
    then show ?thesis
      using Cons by auto
  qed
qed simp


lemma mset_take_out_id: "distinct xs \<Longrightarrow> x \<in> set xs \<Longrightarrow> mset xs = add_mset x (mset (filter (\<lambda>y. y \<noteq> x) xs))"
  using mset_take_out [of "\<lambda>x. x" xs x] by simp

lemma change_ids_distinct:
  assumes "\<forall>(w, ids) \<in> set table. distinct ids" "\<And>ids. distinct ids \<Longrightarrow> distinct (f ids)"
  shows "\<forall>(w, ids) \<in> set (change_ids w f table). distinct ids"
  using assms by (fastforce simp: change_ids_def)

lemma add_id_distinct: "distinct ids \<Longrightarrow> distinct (add_id i ids)"
  by (simp add: add_id_def)

lemma pool_continue_keeps [simp]:
  "pendingWorkerMessages (pool_continue s) = pendingWorkerMessages s" "nextWorkerMessageId (pool_continue s) = nextWorkerMessageId s"
  "expansionPending (pool_continue s) = expansionPending s" "expansionNextMessageId (pool_continue s) = expansionNextMessageId s"
  "expansionPendingByWorker (pool_continue s) = expansionPendingByWorker s" "settled (pool_continue s) = settled s"
  "dropped (pool_continue s) = dropped s" "posted (pool_continue s) = posted s" "spawned (pool_continue s) = spawned s"
  by (simp_all add: pool_continue_def split: pool_state.split list.split)

lemma client_inv_new: "client_inv new_client"
  by (simp add: client_inv_def new_client_def pending_promises_def sent_promises_def)

lemma client_inv_send:
  assumes "client_inv s"
  shows "client_inv (snd (sendMessageToWorker type onProgress s))"
  using assms by (simp add: client_inv_def sendMessageToWorker_def pending_promises_def sent_promises_def Let_def)

lemma client_inv_expand:
  assumes "client_inv s"
  shows "client_inv (snd (sendExpansionMessageToWorker type s))"
proof (cases "expansionWorkers s = []")
  case True
  then show ?thesis
    using client_inv_send [OF assms] by (simp add: sendExpansionMessageToWorker_def)
next
  case False
  then show ?thesis
    using assms change_ids_distinct [OF _ add_id_distinct, of "expansionPendingByWorker s"]
    by (simp add: client_inv_def sendExpansionMessageToWorker_def pending_promises_def sent_promises_def Let_def)
qed

lemma client_inv_send_init: "client_inv s \<Longrightarrow> client_inv (send_init w s)"
  using change_ids_distinct [OF _ add_id_distinct, of "expansionPendingByWorker s"]
  by (simp add: client_inv_def send_init_def pending_promises_def sent_promises_def Let_def)

lemma client_inv_send_inits: "client_inv s \<Longrightarrow> client_inv (fold send_init ws s)"
  by (induction ws arbitrary: s) (simp_all add: client_inv_send_init)

lemma client_inv_spawn: "client_inv s \<Longrightarrow> client_inv (snd (spawn n s))"
  by (auto simp: client_inv_def spawn_def pending_promises_def sent_promises_def Let_def)

lemma client_inv_init:
  assumes "client_inv s"
  shows "client_inv (initializeExpansionPool hardware failure s)"
proof -
  have frame: "client_inv t \<Longrightarrow> client_inv (t\<lparr>expansionWorkersReady := p\<rparr>)" "client_inv t \<Longrightarrow> client_inv (t\<lparr>expansionWorkers := ws\<rparr>)" for t :: "'a worker_client" and p ws
    by (simp_all add: client_inv_def pending_promises_def sent_promises_def)
  have "client_inv (start_pool n s)" for n
    using client_inv_send_inits [OF client_inv_spawn [OF assms, of n]] frame by (simp add: start_pool_def case_prod_beta Let_def)
  with frame assms client_inv_spawn [OF assms] show ?thesis
    by (simp add: initializeExpansionPool_def Let_def split: option.split)
qed

lemma client_inv_message:
  assumes "client_inv s"
  shows "client_inv (worker_onmessage text_of m s)"
proof (cases "map_of (pendingWorkerMessages s) (wm_id m)")
  case None
  then show ?thesis
    using assms by (simp add: worker_onmessage_def Let_def)
next
  case (Some onProgress)
  let ?rest = "filter (\<lambda>entry. fst entry \<noteq> wm_id m) (pendingWorkerMessages s)"
  have "(wm_id m, onProgress) \<in> set (pendingWorkerMessages s)"
    using Some by (rule map_of_SomeD)
  with mset_take_out [of fst, OF pending_distinct(1) [OF assms]]
  have "mset (map fst (pendingWorkerMessages s)) = add_mset (wm_id m) (mset (map fst ?rest))"
    by force
  then have "image_mset MainPromise (mset (map fst (pendingWorkerMessages s)))
      = add_mset (MainPromise (wm_id m)) (image_mset MainPromise (mset (map fst ?rest)))"
    by simp
  then have out: "image_mset (MainPromise \<circ> fst) (mset (pendingWorkerMessages s))
      = add_mset (MainPromise (wm_id m)) (image_mset (MainPromise \<circ> fst) (mset ?rest))"
    by (simp add: image_mset.compositionality)
  show ?thesis
    using assms by (simp add: client_inv_def worker_onmessage_def Some Let_def pending_promises_def sent_promises_def settle_def out)
qed

lemma client_inv_error:
  assumes "client_inv s"
  shows "client_inv (worker_onerror e s)"
proof -
  have "map (fst \<circ> (\<lambda>(id, _). (MainPromise id, out))) xs = map (MainPromise \<circ> fst) xs" for xs :: "(nat \<times> bool) list" and out :: "'a outcome"
    by (induction xs) auto
  then show ?thesis
    using assms by (simp add: client_inv_def worker_onerror_def pending_promises_def sent_promises_def ac_simps del: map_map flip: map_map)
qed

lemma client_inv_answer:
  assumes "client_inv s"
  shows "client_inv (expansion_onmessage text_of w m s)"
proof -
  let ?id = "wm_id m"
  have ids: "\<forall>(w, ids) \<in> set (change_ids w (filter (\<lambda>i. i \<noteq> ?id)) (expansionPendingByWorker s)). distinct ids"
    using assms by (intro change_ids_distinct) (simp_all add: client_inv_def)
  show ?thesis
  proof (cases "?id \<in> set (expansionPending s)")
    case False
    then show ?thesis
      using assms ids by (simp add: client_inv_def expansion_onmessage_def pending_promises_def sent_promises_def Let_def)
  next
    case True
    have "mset (expansionPending s) = add_mset ?id (mset (filter (\<lambda>i. i \<noteq> ?id) (expansionPending s)))"
      using pending_distinct(2) [OF assms] True by (rule mset_take_out_id)
    then have out: "image_mset ExpansionPromise (mset (expansionPending s))
        = add_mset (ExpansionPromise ?id) (image_mset ExpansionPromise (mset (filter (\<lambda>i. i \<noteq> ?id) (expansionPending s))))"
      by (metis image_mset_add_mset)
    show ?thesis
      using assms ids True
      by (simp add: client_inv_def expansion_onmessage_def pending_promises_def sent_promises_def settle_def Let_def out del: mset_filter)
  qed
qed

lemma mset_filter_distinct:
  assumes "distinct xs" "distinct ys"
  shows "mset xs = mset (filter (\<lambda>x. x \<notin> set ys) xs) + mset (filter (\<lambda>y. y \<in> set xs) ys)"
proof -
  have "mset (filter (\<lambda>x. x \<in> set ys) xs) = mset (filter (\<lambda>y. y \<in> set xs) ys)"
    using assms by (intro set_eq_iff_mset_eq_distinct [THEN iffD1]) auto
  moreover have "mset xs = mset (filter (\<lambda>x. x \<notin> set ys) xs) + mset (filter (\<lambda>x. x \<in> set ys) xs)"
    unfolding mset_filter by (subst add.commute) (rule multiset_partition)
  ultimately show ?thesis
    by metis
qed

lemma client_inv_crash:
  assumes "client_inv s"
  shows "client_inv (expansion_onerror w s)"
proof (cases "map_of (expansionPendingByWorker s) w")
  case None
  then show ?thesis
    using assms by (simp add: client_inv_def expansion_onerror_def pending_promises_def sent_promises_def Let_def)
next
  case (Some ids)
  have ids: "distinct ids"
    using map_of_SomeD [OF Some] assms by (auto simp: client_inv_def)
  have "mset (expansionPending s) = mset (filter (\<lambda>i. i \<notin> set ids) (expansionPending s)) + mset (filter (\<lambda>i. i \<in> set (expansionPending s)) ids)"
    using pending_distinct(2) [OF assms] ids by (rule mset_filter_distinct)
  then have out: "image_mset ExpansionPromise (mset (expansionPending s))
      = image_mset ExpansionPromise (mset (filter (\<lambda>i. i \<notin> set ids) (expansionPending s)))
        + image_mset ExpansionPromise (mset (filter (\<lambda>i. i \<in> set (expansionPending s)) ids))"
    by (metis image_mset_union)
  show ?thesis
    using assms unfolding client_inv_def pending_promises_def sent_promises_def
    by (simp add: expansion_onerror_def Some Let_def comp_def out del: mset_filter) (auto simp: ac_simps)
qed

lemma client_reach_inv: "client_reach crash s \<Longrightarrow> client_inv s"
  by (induction rule: client_reach.induct)
    (simp_all add: client_inv_new client_inv_send client_inv_expand client_inv_init client_inv_message client_inv_error
      client_inv_answer client_inv_crash)


text \<open>
  C39: Every request to a worker is accounted for. In every order of calls, messages, errors
  and crashes, and whatever the workers send, each request that was sent is pending, or
  settled, or was dropped on a message of unknown type; it is only one of these, and no
  promise is settled twice.
\<close>

theorem messages_settle_once:
  assumes "client_reach crash s"
  shows "distinct (pending_promises s @ map fst (settled s) @ dropped s)
    \<and> set (pending_promises s @ map fst (settled s) @ dropped s)
        = {MainPromise i | i. i < nextWorkerMessageId s} \<union> {ExpansionPromise i | i. 1 \<le> i \<and> i < expansionNextMessageId s}"
proof -
  note inv = client_reach_inv [OF assms]
  then have "set (pending_promises s @ map fst (settled s) @ dropped s) = set (sent_promises s)"
    unfolding client_inv_def by (metis set_mset_mset)
  also have "\<dots> = {MainPromise i | i. i < nextWorkerMessageId s} \<union> {ExpansionPromise i | i. 1 \<le> i \<and> i < expansionNextMessageId s}"
    by (auto simp: sent_promises_def)
  finally show ?thesis
    using client_inv_distinct [OF inv] by simp
qed

text \<open>A message to the gateway worker before the pool is there, and its answer.\<close>

definition sample_reply :: "unit worker_client" where
  "sample_reply = worker_onmessage (\<lambda>_. []) \<lparr>wm_id = 0, wm_type = ''result'', wm_payload = ()\<rparr>
     (snd (sendExpansionMessageToWorker ''computeManifest'' (snd (sendMessageToWorker ''addFile'' False new_client))))"

theorem messages_settle_once_witness:
  "pending_promises sample_reply = [MainPromise 1] \<and> settled sample_reply = [(MainPromise 0, Resolved ())]
   \<and> distinct (pending_promises sample_reply @ map fst (settled sample_reply) @ dropped sample_reply)"
proof -
  have "client_reach (\<lambda>_ _. True) sample_reply"
    unfolding sample_reply_def by (intro client_reach.intros)
  moreover have "pending_promises sample_reply = [MainPromise 1]" "settled sample_reply = [(MainPromise 0, Resolved ())]"
    by code_simp+
  ultimately show ?thesis
    using messages_settle_once [of "\<lambda>_ _. True" sample_reply] by blast
qed


section \<open>Crashes of expansion workers\<close>

text \<open>
  A worker crashes early if it is one of a starting pool and the pool goes on without failing,
  which happens when the worker had already answered its init request.
\<close>

definition early_crash :: "nat \<Rightarrow> 'v worker_client \<Rightarrow> bool" where
  "early_crash w s \<longleftrightarrow>
     (\<exists>ws ids. expansionWorkersReady s = PoolStarting ws ids \<and> w \<in> set ws
        \<and> \<not> (\<exists>e. expansionWorkersReady (expansion_onerror w s) = PoolFailed e))"

definition tabled :: "'v worker_client \<Rightarrow> nat set" where
  "tabled s = fst ` set (expansionPendingByWorker s)"

definition tracked :: "'v worker_client \<Rightarrow> bool" where
  "tracked s \<longleftrightarrow>
     set (expansionWorkers s) \<subseteq> tabled s
     \<and> (\<forall>ws ids. expansionWorkersReady s = PoolStarting ws ids \<longrightarrow> set ws \<subseteq> tabled s)
     \<and> (\<forall>w i type. (ExpansionWorker w, i, type) \<in> set (posted s) \<longrightarrow>
          i < expansionNextMessageId s \<and> (i \<in> set (expansionPending s) \<longrightarrow>
            (\<exists>ids. map_of (expansionPendingByWorker s) w = Some ids \<and> i \<in> set ids)))
     \<and> (\<forall>w \<in> tabled s. w < spawned s)"

lemma change_ids_keys [simp]: "fst ` set (change_ids w f table) = fst ` set table"
  by (force simp: change_ids_def)

lemma map_of_change_ids [simp]:
  "map_of (change_ids w f table) v = map_option (if v = w then f else (\<lambda>ids. ids)) (map_of table v)"
  by (induction table) (auto simp: change_ids_def)

lemma set_add_id [simp]: "set (add_id i ids) = insert i (set ids)"
  by (auto simp: add_id_def)

lemma trackedI:
  assumes "set (expansionWorkers s) \<subseteq> tabled s"
    and "\<And>ws ids. expansionWorkersReady s = PoolStarting ws ids \<Longrightarrow> set ws \<subseteq> tabled s"
    and "\<And>w i type. (ExpansionWorker w, i, type) \<in> set (posted s) \<Longrightarrow> i < expansionNextMessageId s"
    and "\<And>w i type. (ExpansionWorker w, i, type) \<in> set (posted s) \<Longrightarrow> i \<in> set (expansionPending s) \<Longrightarrow>
      \<exists>ids. map_of (expansionPendingByWorker s) w = Some ids \<and> i \<in> set ids"
    and "\<And>w. w \<in> tabled s \<Longrightarrow> w < spawned s"
  shows "tracked s"
  using assms unfolding tracked_def by blast

lemma trackedD:
  assumes "tracked s"
  shows "set (expansionWorkers s) \<subseteq> tabled s"
    and "\<And>ws ids. expansionWorkersReady s = PoolStarting ws ids \<Longrightarrow> set ws \<subseteq> tabled s"
    and "\<And>w i type. (ExpansionWorker w, i, type) \<in> set (posted s) \<Longrightarrow> i < expansionNextMessageId s"
    and "\<And>w i type. (ExpansionWorker w, i, type) \<in> set (posted s) \<Longrightarrow> i \<in> set (expansionPending s) \<Longrightarrow>
      \<exists>ids. map_of (expansionPendingByWorker s) w = Some ids \<and> i \<in> set ids"
    and "\<And>w. w \<in> tabled s \<Longrightarrow> w < spawned s"
  using assms unfolding tracked_def by blast+

text \<open>Posting a new request to a worker with an entry.\<close>

definition post_expansion :: "nat \<Rightarrow> string \<Rightarrow> 'v worker_client \<Rightarrow> 'v worker_client" where
  "post_expansion w type s =
     (let i = expansionNextMessageId s
      in s\<lparr>expansionNextMessageId := i + 1, expansionPending := expansionPending s @ [i],
           expansionPendingByWorker := change_ids w (add_id i) (expansionPendingByWorker s),
           posted := posted s @ [(ExpansionWorker w, i, type)]\<rparr>)"

lemma tracked_post:
  assumes "tracked s" "w \<in> tabled s"
  shows "tracked (post_expansion w type s)" and "tabled (post_expansion w type s) = tabled s"
proof -
  let ?s = "post_expansion w type s"
  show tabled: "tabled ?s = tabled s"
    by (simp add: tabled_def post_expansion_def Let_def)
  obtain old where old: "map_of (expansionPendingByWorker s) w = Some old"
    using assms(2) by (cases "map_of (expansionPendingByWorker s) w") (auto simp: tabled_def map_of_eq_None_iff)
  show "tracked ?s"
  proof (rule trackedI)
    fix v i ty
    assume p: "(ExpansionWorker v, i, ty) \<in> set (posted ?s)" and q: "i \<in> set (expansionPending ?s)"
    show "\<exists>ids. map_of (expansionPendingByWorker ?s) v = Some ids \<and> i \<in> set ids"
    proof (cases "i = expansionNextMessageId s")
      case True
      have "(ExpansionWorker v, i, ty) \<notin> set (posted s)"
        using trackedD(3) [OF assms(1)] True by blast
      then have "v = w"
        using p by (simp add: post_expansion_def Let_def)
      then show ?thesis
        using True old by (simp add: post_expansion_def Let_def)
    next
      case False
      then have "(ExpansionWorker v, i, ty) \<in> set (posted s)" "i \<in> set (expansionPending s)"
        using p q by (simp_all add: post_expansion_def Let_def)
      from trackedD(4) [OF assms(1) this] show ?thesis
        by (auto simp: post_expansion_def Let_def)
    qed
  next
    fix v i ty
    assume "(ExpansionWorker v, i, ty) \<in> set (posted ?s)"
    then show "i < expansionNextMessageId ?s"
      using trackedD(3) [OF assms(1)] by (auto simp: post_expansion_def Let_def intro: less_SucI)
  qed (use trackedD [OF assms(1)] tabled in \<open>simp_all add: post_expansion_def Let_def\<close>)
qed

lemma send_init_post: "send_init w s = post_expansion w ''initPolyStoreWasm'' s"
  by (simp add: send_init_def post_expansion_def)

lemma tracked_inits:
  assumes "tracked s" "set ws \<subseteq> tabled s"
  shows "tracked (fold send_init ws s) \<and> tabled (fold send_init ws s) = tabled s"
  using assms
proof (induction ws arbitrary: s)
  case (Cons w ws)
  then show ?case
    using tracked_post [of s w] by (simp add: send_init_post)
qed simp


lemma tracked_spawn:
  assumes "tracked s"
  shows "tracked (snd (spawn n s))" and "set (fst (spawn n s)) \<subseteq> tabled (snd (spawn n s))"
proof -
  let ?s = "snd (spawn n s)"
  have tabled: "tabled ?s = tabled s \<union> {spawned s ..< spawned s + n}"
    by (force simp: tabled_def spawn_def Let_def)
  show "set (fst (spawn n s)) \<subseteq> tabled ?s"
    unfolding tabled by (simp add: spawn_def Let_def)
  show "tracked ?s"
  proof (rule trackedI)
    fix w i type
    assume "(ExpansionWorker w, i, type) \<in> set (posted ?s)" "i \<in> set (expansionPending ?s)"
    then have "(ExpansionWorker w, i, type) \<in> set (posted s)" "i \<in> set (expansionPending s)"
      by (simp_all add: spawn_def Let_def)
    from trackedD(4) [OF assms this] show "\<exists>ids. map_of (expansionPendingByWorker ?s) w = Some ids \<and> i \<in> set ids"
      by (auto simp: spawn_def Let_def map_add_Some_iff map_of_eq_None_iff)
  next
    fix w
    assume "w \<in> tabled ?s"
    then show "w < spawned ?s"
      using trackedD(5) [OF assms, of w] unfolding tabled by (auto simp: spawn_def Let_def)
  qed (use trackedD [OF assms] tabled in \<open>fastforce simp: spawn_def Let_def\<close>)+
qed

lemma tracked_init:
  assumes "tracked s"
  shows "tracked (initializeExpansionPool hardware failure s)"
proof -
  have ready: "tracked (t\<lparr>expansionWorkers := [], expansionWorkersReady := PoolReady\<rparr>)" if "tracked t" for t :: "'a worker_client"
    using that by (simp add: tracked_def tabled_def)
  have starting: "tracked (t\<lparr>expansionWorkersReady := PoolStarting ws ids\<rparr>)" if "tracked t" "set ws \<subseteq> tabled t"
    for t :: "'a worker_client" and ws ids
    using that by (simp add: tracked_def tabled_def)
  have "tracked (start_pool n s)" for n
  proof -
    let ?ws = "fst (spawn n s)" and ?t = "snd (spawn n s)"
    have "tracked (fold send_init ?ws ?t) \<and> tabled (fold send_init ?ws ?t) = tabled ?t"
      by (rule tracked_inits [OF tracked_spawn [OF assms]])
    with tracked_spawn(2) [OF assms, of n] starting [of "fold send_init ?ws ?t" ?ws] show ?thesis
      by (simp add: start_pool_def case_prod_beta)
  qed
  then show ?thesis
    using assms ready ready [OF tracked_spawn(1) [OF assms]] by (simp add: initializeExpansionPool_def Let_def split: option.split)
qed

lemma tracked_continue: "tracked s \<Longrightarrow> tracked (pool_continue s)"
  by (simp add: tracked_def tabled_def pool_continue_def split: pool_state.split list.split)

lemma tracked_answer:
  assumes "tracked s"
  shows "tracked (expansion_onmessage text_of w m s)"
proof -
  let ?s1 = "s\<lparr>expansionPendingByWorker := change_ids w (filter (\<lambda>i. i \<noteq> wm_id m)) (expansionPendingByWorker s)\<rparr>"
  have "tracked (?s1\<lparr>settled := out, expansionPending := filter (\<lambda>i. i \<noteq> wm_id m) (expansionPending s)\<rparr>)" for out
  proof (rule trackedI)
    fix v i type
    let ?t = "?s1\<lparr>settled := out, expansionPending := filter (\<lambda>i. i \<noteq> wm_id m) (expansionPending s)\<rparr>"
    assume "(ExpansionWorker v, i, type) \<in> set (posted ?t)" "i \<in> set (expansionPending ?t)"
    then have "(ExpansionWorker v, i, type) \<in> set (posted s)" "i \<in> set (expansionPending s)" "i \<noteq> wm_id m"
      by simp_all
    with trackedD(4) [OF assms this(1,2)] show "\<exists>ids. map_of (expansionPendingByWorker ?t) v = Some ids \<and> i \<in> set ids"
      by auto
  qed (use trackedD [OF assms] in \<open>auto simp: tabled_def\<close>)
  note removed = this
  show ?thesis
  proof (cases "wm_id m \<in> set (expansionPending s)")
    case True
    then show ?thesis
      using tracked_continue [OF removed] by (simp add: expansion_onmessage_def settle_def Let_def)
  next
    case False
    then have "filter (\<lambda>i. i \<noteq> wm_id m) (expansionPending s) = expansionPending s"
      by (auto simp: filter_id_conv)
    then show ?thesis
      using removed [of "settled s"] False by (simp add: expansion_onmessage_def Let_def)
  qed
qed


lemma best_worker_least:
  "best_worker s vs b (load s b) \<in> insert b (set vs)
   \<and> (\<forall>v \<in> insert b (set vs). load s (best_worker s vs b (load s b)) \<le> load s v)"
proof (induction vs arbitrary: b)
  case (Cons v vs)
  consider "load s v < load s b" "load s v = 0" | "load s v < load s b" "load s v \<noteq> 0" | "load s b \<le> load s v"
    by linarith
  then show ?case
  proof cases
    case 1
    then have "best_worker s (v # vs) b (load s b) = v"
      by (simp add: Let_def)
    then show ?thesis
      using 1 by simp
  next
    case 2
    then have eq: "best_worker s (v # vs) b (load s b) = best_worker s vs v (load s v)"
      by (simp add: Let_def)
    have "load s (best_worker s vs v (load s v)) \<le> load s v"
      using Cons.IH [of v] by blast
    then show ?thesis
      unfolding eq using Cons.IH [of v] 2(1) by auto
  next
    case 3
    then have eq: "best_worker s (v # vs) b (load s b) = best_worker s vs b (load s b)"
      by (simp add: Let_def)
    have "load s (best_worker s vs b (load s b)) \<le> load s b"
      using Cons.IH [of b] by blast
    then show ?thesis
      unfolding eq using Cons.IH [of b] 3 by auto
  qed
qed simp

lemma choose_worker_least:
  assumes "expansionWorkers s \<noteq> []"
  shows "choose_worker s \<in> set (expansionWorkers s) \<and> (\<forall>v \<in> set (expansionWorkers s). load s (choose_worker s) \<le> load s v)"
proof -
  let ?xs = "expansionWorkers s" and ?r = "expansionRoundRobin s"
  let ?at = "\<lambda>i. ?xs ! ((?r + i) mod length ?xs)"
  have "insert (?at 0) (set (map ?at [1..<length ?xs])) = set (map ?at [0..<length ?xs])"
    using assms by (simp add: upt_conv_Cons)
  also have "map ?at [0..<length ?xs] = rotate ?r ?xs"
    by (rule nth_equalityI) (simp_all add: nth_rotate)
  finally have all: "insert (?at 0) (set (map ?at [1..<length ?xs])) = set ?xs"
    by (simp only: set_rotate)
  show ?thesis
    unfolding choose_worker_def Let_def
    using best_worker_least [of s "map ?at [1..<length ?xs]" "?at 0"] unfolding all .
qed

lemma tracked_expand:
  assumes "tracked s"
  shows "tracked (snd (sendExpansionMessageToWorker type s))"
proof (cases "expansionWorkers s = []")
  case True
  then show ?thesis
    using assms by (auto simp: sendExpansionMessageToWorker_def sendMessageToWorker_def Let_def tracked_def tabled_def)
next
  case False
  let ?w = "choose_worker s"
  let ?s = "s\<lparr>expansionRoundRobin := (worker_index ?w (expansionWorkers s) + 1) mod length (expansionWorkers s)\<rparr>"
  have "tracked ?s" "?w \<in> tabled ?s"
    using choose_worker_least [OF False] trackedD(1) [OF assms] assms by (auto simp: tracked_def tabled_def)
  from tracked_post(1) [OF this] show ?thesis
    using False by (simp add: sendExpansionMessageToWorker_def post_expansion_def Let_def)
qed

lemma tracked_gateway:
  assumes "tracked s"
  shows "tracked (snd (sendMessageToWorker type onProgress s))" and "tracked (worker_onmessage text_of m s)" and "tracked (worker_onerror e s)"
  using assms
  by (auto simp: sendMessageToWorker_def worker_onmessage_def worker_onerror_def settle_def Let_def tracked_def tabled_def split: option.split)

text \<open>What a crash removes before the pool goes on.\<close>

definition crashed :: "nat \<Rightarrow> 'v worker_client \<Rightarrow> 'v worker_client" where
  "crashed w s =
     (let ids = (case map_of (expansionPendingByWorker s) w of Some ids \<Rightarrow> ids | None \<Rightarrow> [])
      in s\<lparr>settled := settled s @ map (\<lambda>id. (ExpansionPromise id, RejectedWith ''Expansion worker crashed''))
                                (filter (\<lambda>id. id \<in> set (expansionPending s)) ids),
           expansionPending := filter (\<lambda>id. id \<notin> set ids) (expansionPending s),
           expansionPendingByWorker := filter (\<lambda>entry. fst entry \<noteq> w) (expansionPendingByWorker s),
           expansionWorkers := filter (\<lambda>v. v \<noteq> w) (expansionWorkers s)\<rparr>)"

lemma onerror_crashed: "expansion_onerror w s = pool_continue (crashed w s)"
proof (cases "map_of (expansionPendingByWorker s) w")
  case None
  then have "filter (\<lambda>entry. fst entry \<noteq> w) (expansionPendingByWorker s) = expansionPendingByWorker s"
    by (auto simp: map_of_eq_None_iff filter_id_conv)
  then show ?thesis
    using None by (simp add: expansion_onerror_def crashed_def Let_def)
qed (simp add: expansion_onerror_def crashed_def Let_def)

lemma map_of_filter_keys: "map_of (filter (\<lambda>entry. fst entry \<noteq> w) table) v = (if v = w then None else map_of table v)"
  by (induction table) auto

lemma tabled_crashed: "tabled (crashed w s) = tabled s - {w}"
  by (force simp: tabled_def crashed_def Let_def)

lemma crashed_posted:
  assumes "tracked s" "(ExpansionWorker v, i, type) \<in> set (posted s)" "i \<in> set (expansionPending (crashed w s))"
  shows "v \<noteq> w" and "\<exists>ids. map_of (expansionPendingByWorker (crashed w s)) v = Some ids \<and> i \<in> set ids"
proof -
  have i: "i \<in> set (expansionPending s)" "i \<notin> set (case map_of (expansionPendingByWorker s) w of Some ids \<Rightarrow> ids | None \<Rightarrow> [])"
    using assms(3) by (simp_all add: crashed_def Let_def)
  obtain ids where ids: "map_of (expansionPendingByWorker s) v = Some ids" "i \<in> set ids"
    using trackedD(4) [OF assms(1,2) i(1)] by blast
  show "v \<noteq> w"
    using ids i(2) by auto
  then show "\<exists>ids. map_of (expansionPendingByWorker (crashed w s)) v = Some ids \<and> i \<in> set ids"
    using ids by (simp add: crashed_def Let_def map_of_filter_keys)
qed

lemma tracked_crashed:
  assumes "tracked s" "\<And>ws ids. p = PoolStarting ws ids \<Longrightarrow> w \<notin> set ws \<and> set ws \<subseteq> tabled s"
  shows "tracked ((crashed w s)\<lparr>expansionWorkersReady := p\<rparr>)"
proof -
  have tabled: "tabled ((crashed w s)\<lparr>expansionWorkersReady := p\<rparr>) = tabled s - {w}"
    using tabled_crashed [of w s] by (simp add: tabled_def)
  show ?thesis
  proof (rule trackedI, unfold tabled)
    show "set (expansionWorkers ((crashed w s)\<lparr>expansionWorkersReady := p\<rparr>)) \<subseteq> tabled s - {w}"
      using trackedD(1) [OF assms(1)] by (auto simp: crashed_def Let_def)
    show "set ws \<subseteq> tabled s - {w}" if "expansionWorkersReady ((crashed w s)\<lparr>expansionWorkersReady := p\<rparr>) = PoolStarting ws ids" for ws ids
      using assms(2) [of ws ids] that by auto
    show "w' < spawned ((crashed w s)\<lparr>expansionWorkersReady := p\<rparr>)" if "w' \<in> tabled s - {w}" for w'
      using that trackedD(5) [OF assms(1), of w'] by (simp add: crashed_def Let_def)
    show "i < expansionNextMessageId ((crashed w s)\<lparr>expansionWorkersReady := p\<rparr>)"
      if "(ExpansionWorker v, i, type) \<in> set (posted ((crashed w s)\<lparr>expansionWorkersReady := p\<rparr>))" for v i type
      using that trackedD(3) [OF assms(1), of v i type] by (simp add: crashed_def Let_def)
    show "\<exists>ids. map_of (expansionPendingByWorker ((crashed w s)\<lparr>expansionWorkersReady := p\<rparr>)) v = Some ids \<and> i \<in> set ids"
      if "(ExpansionWorker v, i, type) \<in> set (posted ((crashed w s)\<lparr>expansionWorkersReady := p\<rparr>))"
        "i \<in> set (expansionPending ((crashed w s)\<lparr>expansionWorkersReady := p\<rparr>))" for v i type
      using crashed_posted(2) [OF assms(1), of v i type w] that by (simp add: crashed_def Let_def)
  qed
qed

lemma continue_failed:
  "expansionWorkersReady (pool_continue t) = PoolFailed e \<Longrightarrow> pool_continue t = t\<lparr>expansionWorkersReady := PoolFailed e\<rparr>"
proof (cases "expansionWorkersReady t")
  case (PoolStarting ws ids)
  then show "expansionWorkersReady (pool_continue t) = PoolFailed e \<Longrightarrow> pool_continue t = t\<lparr>expansionWorkersReady := PoolFailed e\<rparr>"
    by (cases "init_failures t ids") (auto simp: pool_continue_def split: if_splits)
qed (simp_all add: pool_continue_def)

lemma tracked_crash:
  assumes "tracked s" "\<not> early_crash w s"
  shows "tracked (expansion_onerror w s)"
proof (cases "\<exists>ws ids. expansionWorkersReady s = PoolStarting ws ids \<and> w \<in> set ws")
  case False
  have "tracked ((crashed w s)\<lparr>expansionWorkersReady := expansionWorkersReady s\<rparr>)"
    using False trackedD(2) [OF assms(1)] by (intro tracked_crashed [OF assms(1)]) blast
  moreover have "(crashed w s)\<lparr>expansionWorkersReady := expansionWorkersReady s\<rparr> = crashed w s"
    by (simp add: crashed_def Let_def)
  ultimately show ?thesis
    unfolding onerror_crashed by (simp add: tracked_continue)
next
  case True
  then obtain e where "expansionWorkersReady (expansion_onerror w s) = PoolFailed e"
    using assms(2) unfolding early_crash_def by blast
  then show ?thesis
    using tracked_crashed [OF assms(1), of "PoolFailed e"] unfolding onerror_crashed by (simp add: continue_failed)
qed

lemma tracked_reach: "client_reach (\<lambda>w s. \<not> early_crash w s) s \<Longrightarrow> tracked s"
proof (induction rule: client_reach.induct)
  case start
  then show ?case
    by (simp add: tracked_def tabled_def new_client_def)
qed (simp_all add: tracked_gateway tracked_expand tracked_init tracked_answer tracked_crash)

text \<open>
  C40: A crash of an expansion worker strands no request. If no worker crashed early, that is
  after answering its init request but before the pool was complete, then the next request
  goes to a worker with the fewest pending ones, and a crash of any worker settles every
  request that was posted to it and takes the worker out of use.
\<close>

theorem crash_strands_nothing:
  assumes "client_reach (\<lambda>w s. \<not> early_crash w s) s"
  shows "(expansionWorkers s \<noteq> [] \<longrightarrow> choose_worker s \<in> set (expansionWorkers s)
        \<and> (\<forall>v \<in> set (expansionWorkers s). load s (choose_worker s) \<le> load s v))
    \<and> (\<not> early_crash w s \<longrightarrow> w \<notin> set (expansionWorkers (expansion_onerror w s))
        \<and> (\<forall>i type. (ExpansionWorker w, i, type) \<in> set (posted s) \<longrightarrow> i \<notin> set (expansionPending (expansion_onerror w s))))"
proof -
  note tr = tracked_reach [OF assms]
  have "w \<notin> set (expansionWorkers (expansion_onerror w s))" if "\<not> early_crash w s"
  proof -
    have "set (expansionWorkers (expansion_onerror w s)) \<subseteq> tabled (expansion_onerror w s)"
      by (rule trackedD(1) [OF tracked_crash [OF tr that]])
    also have "tabled (expansion_onerror w s) = tabled s - {w}"
      using tabled_crashed [of w s] unfolding onerror_crashed by (simp add: tabled_def)
    finally show ?thesis
      by blast
  qed
  moreover have "i \<notin> set (expansionPending (expansion_onerror w s))" if "(ExpansionWorker w, i, type) \<in> set (posted s)" for i type
    using crashed_posted(1) [OF tr that, of w] unfolding onerror_crashed by auto
  ultimately show ?thesis
    using choose_worker_least by blast
qed

text \<open>Two workers; the pool gets ready, a request goes to worker 0, and worker 0 crashes.\<close>

definition init_reply :: "nat \<Rightarrow> unit worker_message" where
  "init_reply i = \<lparr>wm_id = i, wm_type = ''result'', wm_payload = ()\<rparr>"

definition sample_pool :: "unit worker_client" where
  "sample_pool = initializeExpansionPool (Some (Fin 3)) None new_client"

definition sample_busy :: "unit worker_client" where
  "sample_busy = snd (sendExpansionMessageToWorker ''computeManifest''
     (expansion_onmessage (\<lambda>_. []) 1 (init_reply 2) (expansion_onmessage (\<lambda>_. []) 0 (init_reply 1) sample_pool)))"

theorem crash_strands_nothing_witness:
  "expansionPending sample_busy = [3] \<and> (ExpansionWorker 0, 3, ''computeManifest'') \<in> set (posted sample_busy)
   \<and> 3 \<notin> set (expansionPending (expansion_onerror 0 sample_busy))"
proof -
  have "client_reach (\<lambda>w s. \<not> early_crash w s) sample_busy"
    unfolding sample_busy_def sample_pool_def by (intro client_reach.intros)
  moreover have "\<not> early_crash 0 sample_busy"
  proof -
    have "expansionWorkersReady sample_busy = PoolReady"
      by code_simp
    then show ?thesis
      by (simp add: early_crash_def)
  qed
  moreover have "expansionPending sample_busy = [3]" "(ExpansionWorker 0, 3, ''computeManifest'') \<in> set (posted sample_busy)"
    by code_simp+
  ultimately show ?thesis
    using crash_strands_nothing [of sample_busy 0] by blast
qed

text \<open>
  Without the condition it fails: worker 0 answers its init request and crashes before worker
  1 answers. The pool then lists worker 0, which has no entry and so the least load; a
  request posted to it is not rejected when the worker reports its crash again.
\<close>

definition sample_early :: "unit worker_client" where
  "sample_early = snd (sendExpansionMessageToWorker ''computeManifest''
     (expansion_onmessage (\<lambda>_. []) 1 (init_reply 2) (expansion_onerror 0 (expansion_onmessage (\<lambda>_. []) 0 (init_reply 1) sample_pool))))"

theorem early_crash_strands_request:
  "expansionWorkers sample_early = [0, 1] \<and> (ExpansionWorker 0, 3, ''computeManifest'') \<in> set (posted sample_early)
   \<and> expansionPending (expansion_onerror 0 sample_early) = [3]"
  by code_simp

end
