(* ===== verification/Spec2Isabelle.thy ===== *)
theory Spec2Isabelle
  imports PolyfsLocal RangeChunker RetrievalV3Flow Transport KzgSchedulerCorrect UploadPipeline UploadStatus WorkerClient
begin

text \<open>
  PolyStore is a storage network. Files are packed into units of 8 MiB (MDUs, 64 blobs of
  128 KiB each), committed with KZG commitments, striped over the providers of a deal and
  read back under paid retrieval sessions. This development verifies the client libraries
  of its website, \<open>src/polystore-website/src\<close>: the layout of a file system in MDUs, the
  planning, authorization and execution of retrievals, and the scheduling of uploads.

  \<^bold>\<open>Common ground.\<close>
  \<open>Prelude\<close> holds errors as values (\<open>'a result\<close> with \<open>sbind\<close> and \<open>smap\<close>), JavaScript numbers
  (\<open>jsnum\<close>, a rational or a value that is not finite), byte arrays with \<open>subarray\<close> and the
  integers of a \<open>DataView\<close>, decimal strings, and the generic lemmas on them. \<open>Interfaces\<close> holds
  the locales that components implement: \<open>codec\<close> and \<open>canonical_codec\<close> (one or two sided laws
  of an encoder and a decoder, interpreted for records, wire values and packed blobs) and
  \<open>interval_plan\<close> (pieces that tile an interval, interpreted for the range planner).

  \<^bold>\<open>Layout.\<close>
  \<open>PolyfsLayout\<close> models \<open>domain/polyfsLayout.ts\<close>: positions of raw bytes in blobs, stripe
  profiles and leaf numbering (bijections), witness layout (minimal), packed lengths.
  \<open>Utf8\<close> is the text codec of the platform and \<open>PolyfsPath\<close> models \<open>lib/polyfsPath.ts\<close>.
  \<open>PolyfsLocal\<close> models \<open>lib/polyfsLocal.ts\<close>: the file table and root table in the first MDU
  (the parser accepts exactly the canonical images) and the reassembly of a striped MDU.
  \<open>RangeChunker\<close> models \<open>lib/rangeChunker.ts\<close>: the chunks tile the requested range, and the
  loop ends.

  \<^bold>\<open>Retrieval.\<close>
  \<open>RetrievalValues\<close>, \<open>RetrievalPlan\<close> and \<open>RetrievalSession\<close> model \<open>lib/retrieval.ts\<close>: canonical
  values on the wire, the pinned generation of a deal, the windows of a range (every byte
  once, each window a run of leaves of one slot), the bounded reader, and the frozen session,
  which is accepted only if it is the authorized one and whose context determines it.
  \<open>RetrievalPacking\<close> and \<open>RetrievalFlow\<close> model \<open>lib/retrievalFlow.ts\<close>: a slice is read only
  from the canonical packing of its bytes; windows run in waves over ports whose answers may
  depend on everything that happened before, and the trace of a run shows that sessions are
  confirmed only after their data is durable and that a completed run yields the requested
  bytes. \<open>RetrievalV3\<close> models the generation, the obligations and the chunks of
  \<open>lib/retrievalV3.ts\<close>.

  \<^bold>\<open>Transport.\<close>
  \<open>Transport\<close> models \<open>lib/transport\<close>: the order of candidates, classes of errors, retries and
  fallback, over a world that execution, clock and sleep act on.

  \<^bold>\<open>Upload.\<close>
  \<open>KzgBatch\<close> models \<open>lib/upload/userMduKzgBatch.ts\<close>: the planner takes the longest admissible
  prefix, and committing a batch equals committing its parts. \<open>KzgScheduler\<close> models the class
  of \<open>lib/upload/userMduKzgScheduler.ts\<close> as an event-driven state machine; every stretch of code
  between two awaits is a function, and replies, expansions and aborts are events.
  \<open>KzgSchedulerCorrect\<close> proves by rule induction that every promise is accounted for, that the
  scheduler refines a first-in first-out queue, its bounds, and progress. \<open>UploadPlan\<close> models
  \<open>planner.ts\<close>, \<open>uploadParallelism.ts\<close> and \<open>sparseArtifacts.ts\<close>. \<open>UploadEngine\<close>,
  \<open>UploadEngineCorrect\<close> and \<open>UploadPipeline\<close> model \<open>engine.ts\<close>: tasks, bundles with fallback,
  striped upload and the pipelined upload, in which the manifest comes after the artifacts.
  \<open>UploadStatus\<close> models \<open>lib/uploadStatus.ts\<close>, with the declared types as schemas.

  \<^bold>\<open>Workers.\<close>
  \<open>ExpansionWorkers\<close> models \<open>lib/expansionWorkers.ts\<close>. \<open>WorkerClient\<close> models the request
  tables, the expansion pool and the crash handling of \<open>lib/worker-client.ts\<close>.

  \<^bold>\<open>Loops and bounds.\<close>
  No definition uses fuel: every loop of the code is structural or has a measure, so totality
  is part of its definition. Loops over events that the environment supplies are step
  relations; that they come to an end is a theorem where the code promises it.

  \<^bold>\<open>Parameters.\<close>
  Code outside the sources is a parameter: the bech32 package, hashing and KZG operations of
  the WebAssembly core, transports, clocks, committed queries and the ports of a retrieval.

  \<^bold>\<open>Not modelled.\<close>
  User interface (pages, components, hooks), HTTP clients, GPU and WebAssembly arithmetic and
  the workers that call it, generated bindings and contract tables, provider onboarding
  text, storage of checkpoints in the browser, and the services and simulators written in
  other languages. They are input and output, generated, numeric code of another
  program, or text; the modelled libraries see them through their parameters.
\<close>

end
